(* ===== verification/Aesd_Prelude.thy ===== *)
theory Aesd_Prelude
  imports Main "HOL-Library.Word"
begin

section \<open>Shared types, faults and generic lemmas\<close>

text \<open>
  What the component theories share: names for the C integer types of the 64-bit targets the
  repository is built for, the faults that stand for undefined behaviour, checked array access,
  and the lemmas on words, lists and results that carry the component proofs.

  A C function that can run into undefined behaviour (a null or dangling dereference, an access
  outside an array, a double free, flowing off the end of a value-returning function) is modelled
  by a HOL function into \<open>'a result\<close>: \<open>Inl\<close> names the fault, \<open>Inr\<close> is the value returned.
\<close>

subsection \<open>C types\<close>

type_synonym u8 = "8 word"
type_synonym u16 = "16 word"
type_synonym u32 = "32 word"
type_synonym u64 = "64 word"

type_synonym byte = "8 word"
type_synonym addr = "64 word"

text \<open>Signed C integers are words read with \<open>sint\<close>; \<open>NULL\<close> is the address 0.\<close>

type_synonym s32 = "32 word"
type_synonym s64 = "64 word"

abbreviation (input) NULL :: addr where
  "NULL \<equiv> 0"

abbreviation (input) LF_byte :: byte where
  "LF_byte \<equiv> 10"

subsection \<open>Faults and results\<close>

datatype fault =
    NullDeref
  | OutOfBounds
  | UseAfterFree
  | InvalidFree
  | UninitRead
  | MissingReturn
  | Terminate
  | SignedOverflow
  | BadShift
  | ForeignUnlock
  | Relock

type_synonym 'a result = "fault + 'a"

primrec res_bind :: "'a result \<Rightarrow> ('a \<Rightarrow> 'b result) \<Rightarrow> 'b result" where
  "res_bind (Inl f) k = Inl f"
| "res_bind (Inr x) k = k x"

definition is_ok :: "'a result \<Rightarrow> bool" where
  "is_ok r = (case r of Inl _ \<Rightarrow> False | Inr _ \<Rightarrow> True)"

text \<open>Array accesses through an index, with the out-of-range case written out.\<close>

definition arr_read :: "'a list \<Rightarrow> nat \<Rightarrow> 'a result" where
  "arr_read xs i = (if i < length xs then Inr (xs ! i) else Inl OutOfBounds)"

definition arr_write :: "'a list \<Rightarrow> nat \<Rightarrow> 'a \<Rightarrow> 'a list result" where
  "arr_write xs i v = (if i < length xs then Inr (xs[i := v]) else Inl OutOfBounds)"

text \<open>\<open>strlen\<close> and the bytes it delimits; reading on past the end of the buffer is a fault.\<close>

definition c_string :: "byte list \<Rightarrow> byte list result" where
  "c_string buf = (if 0 \<in> set buf then Inr (takeWhile (\<lambda>b. b \<noteq> 0) buf) else Inl OutOfBounds)"

text \<open>\<open>memcpy\<close> within bounds: the bytes read, and the destination after they are written.\<close>

definition mem_read :: "'a list \<Rightarrow> nat \<Rightarrow> nat \<Rightarrow> 'a list result" where
  "mem_read src off n = (if off + n \<le> length src then Inr (take n (drop off src)) else Inl OutOfBounds)"

definition mem_write :: "'a list \<Rightarrow> nat \<Rightarrow> 'a list \<Rightarrow> 'a list result" where
  "mem_write dst off bs =
     (if off + length bs \<le> length dst then Inr (take off dst @ bs @ drop (off + length bs) dst)
      else Inl OutOfBounds)"

text \<open>Multiplication of two \<open>int\<close>s, undefined when the product does not fit.\<close>

definition mul_s32 :: "s32 \<Rightarrow> s32 \<Rightarrow> s32 result" where
  "mul_s32 x y =
     (if - (2 ^ 31) \<le> sint x * sint y \<and> sint x * sint y < 2 ^ 31 then Inr (x * y) else Inl SignedOverflow)"

named_theorems res_simps \<open>evaluation and inversion of results\<close>
named_theorems word_nat \<open>words read as natural numbers\<close>

lemma res_bind_Inr_iff [res_simps]:
  "res_bind r k = Inr y \<longleftrightarrow> (\<exists>x. r = Inr x \<and> k x = Inr y)"
  by (cases r) auto

lemma res_bind_Inl_iff [res_simps]:
  "res_bind r k = Inl f \<longleftrightarrow> r = Inl f \<or> (\<exists>x. r = Inr x \<and> k x = Inl f)"
  by (cases r) auto

lemma res_bind_assoc: "res_bind (res_bind r k) l = res_bind r (\<lambda>x. res_bind (k x) l)"
  by (cases r) auto

lemma is_ok_iff: "is_ok r \<longleftrightarrow> (\<exists>x. r = Inr x)"
  by (cases r) (auto simp: is_ok_def)

lemma is_ok_simps [simp]: "is_ok (Inr x)" "\<not> is_ok (Inl f)"
  by (simp_all add: is_ok_def)

lemma arr_read_in [simp]: "i < length xs \<Longrightarrow> arr_read xs i = Inr (xs ! i)"
  by (simp add: arr_read_def)

lemma arr_write_in [simp]: "i < length xs \<Longrightarrow> arr_write xs i v = Inr (xs[i := v])"
  by (simp add: arr_write_def)

lemma arr_read_out [simp]: "length xs \<le> i \<Longrightarrow> arr_read xs i = Inl OutOfBounds"
  by (simp add: arr_read_def)

lemma arr_write_out [simp]: "length xs \<le> i \<Longrightarrow> arr_write xs i v = Inl OutOfBounds"
  by (simp add: arr_write_def)

lemma arr_read_Inr_iff [res_simps]: "arr_read xs i = Inr x \<longleftrightarrow> i < length xs \<and> x = xs ! i"
  by (auto simp: arr_read_def)

lemma arr_write_Inr_iff [res_simps]:
  "arr_write xs i v = Inr ys \<longleftrightarrow> i < length xs \<and> ys = xs[i := v]"
  by (auto simp: arr_write_def)

subsection \<open>Words as natural numbers\<close>

lemma unat_inc [word_nat]:
  fixes x y :: "'a::len word"
  assumes "x < y"
  shows "unat (x + 1) = Suc (unat x)"
proof -
  from assms have "unat x < unat y" by (simp add: word_less_nat_alt)
  moreover have "unat y < 2 ^ LENGTH('a)" by (rule unsigned_less)
  ultimately have "Suc (unat x) < 2 ^ LENGTH('a)" by linarith
  then have "unat x + unat (1 :: 'a word) < 2 ^ LENGTH('a)" by simp
  then have "unat (x + 1) = unat x + unat (1 :: 'a word)" by (simp only: unat_add_lem)
  then show ?thesis by simp
qed

lemma unat_add_small [word_nat]:
  fixes x y :: "'a::len word"
  assumes "unat x + unat y < 2 ^ LENGTH('a)"
  shows "unat (x + y) = unat x + unat y"
  using assms by (simp add: unat_add_lem)

lemma unat_sub_small [word_nat]:
  fixes x y :: "'a::len word"
  assumes "unat y \<le> unat x"
  shows "unat (x - y) = unat x - unat y"
  using assms by (simp add: unat_sub word_le_nat_alt)

lemma unat_dec: "0 < unat x \<Longrightarrow> unat (x - 1) = unat x - 1"
  for x :: "'a::len word"
  by (simp add: unat_sub_small)

lemma sint_nonneg_of_small: "unat (x :: u64) < 2 ^ 63 \<Longrightarrow> 0 \<le> sint x"
proof -
  assume "unat x < 2 ^ 63"
  then have "int (unat x) < int (2 ^ 63)" by (simp only: of_nat_less_iff)
  then have "uint x < 2 ^ 63" by simp
  moreover have "0 \<le> uint x" by simp
  ultimately have "signed_take_bit 63 (uint x) = uint x"
    by (intro signed_take_bit_int_eq_self) linarith+
  then show ?thesis by (simp add: sint_uint)
qed

lemma word_eq_of_natI: "unat w = n \<Longrightarrow> w = of_nat n"
  by auto

lemma unat_of_nat_small [word_nat]: "n < 2 ^ LENGTH('a) \<Longrightarrow> unat (of_nat n :: 'a::len word) = n"
  by (simp add: unsigned_of_nat take_bit_nat_eq_self)

lemma unat_of_nat_64: "n < 2 ^ 64 \<Longrightarrow> unat (of_nat n :: u64) = n"
  by (rule unat_of_nat_small) simp

lemma unat_less_64: "unat (x :: u64) < 2 ^ 64"
  by (rule order_less_le_trans [OF unsigned_less]) simp

lemma unat_ucast_up:
  fixes x :: "'a::len word"
  assumes "LENGTH('a) \<le> LENGTH('b::len)"
  shows "unat (ucast x :: 'b word) = unat x"
proof -
  have "unat x < 2 ^ LENGTH('a)" by (rule unsigned_less)
  also have "\<dots> \<le> 2 ^ LENGTH('b)" using assms by (simp add: power_increasing)
  finally show ?thesis by (simp add: unsigned_ucast_eq take_bit_nat_eq_self)
qed

lemma unat_ucast_8_32 [simp]: "unat (ucast (x :: u8) :: u32) = unat x"
  by (rule unat_ucast_up) simp

lemma unat_ucast_32_64 [simp]: "unat (ucast (x :: u32) :: u64) = unat x"
  by (rule unat_ucast_up) simp

lemma unat_ucast_down:
  fixes x :: "'a::len word"
  assumes "unat x < 2 ^ LENGTH('b::len)"
  shows "unat (ucast x :: 'b word) = unat x"
  using assms by (simp add: unsigned_ucast_eq take_bit_nat_eq_self)

subsection \<open>Lists\<close>

lemma sum_list_append_concat: "sum_list (map length xss) = length (concat xss)"
  by (simp add: length_concat)

lemma drop_snoc_overflow:
  "length xs = n \<Longrightarrow> 0 < n \<Longrightarrow> drop 1 (xs @ [x]) = tl xs @ [x]"
  by (cases xs) auto

subsection \<open>Alignment\<close>

unbundle bit_operations_syntax

lemma unat_align_down:
  assumes "k < LENGTH('a)"
  shows "unat ((x :: 'a::len word) AND NOT (2 ^ k - 1)) = unat x div 2 ^ k * 2 ^ k"
proof -
  have "x AND NOT (2 ^ k - 1) = push_bit k (drop_bit k x)"
    by (simp add: mask_eq_exp_minus_1 [symmetric] flip: take_bit_eq_mask) (auto simp: bit_eq_iff bit_simps)
  moreover have "unat (push_bit k (drop_bit k x)) = take_bit LENGTH('a) (unat x div 2 ^ k * 2 ^ k)"
    unfolding unsigned_push_bit_eq unsigned_drop_bit_eq by (simp add: push_bit_eq_mult drop_bit_eq_div take_bit_nat_eq_self)
  moreover have "unat x div 2 ^ k * 2 ^ k < 2 ^ LENGTH('a)"
    using div_times_less_eq_dividend [of "unat x" "2 ^ k"] unsigned_less [of x] by (rule order_le_less_trans)
  ultimately show ?thesis by (simp add: take_bit_nat_eq_self)
qed

end
