(* ===== verification/Server_Message.thy ===== *)
theory Server_Message
  imports Aesd_Prelude
begin

section \<open>Cutting a line out of a received message\<close>

text \<open>
  Models the part of \<open>server_thread\<close> in \<^verbatim>\<open>server/aesdsocket.cpp\<close> that copies the first line of the
  message into the file buffer and ends it, and the two loops that retry a mutex operation. The
  buffers are lists of bytes of fixed length, accessed with the index checked.

  Whether \<open>char\<close> is signed differs between the machines the repository is built for, so it is the
  parameter \<open>csg\<close>: the constants are \<open>unsigned char\<close>, and a comparison with a \<open>char\<close> is one of
  \<open>int\<close>s.
\<close>

definition SERVER_MSG_LEN :: nat where "SERVER_MSG_LEN = 100000"
definition LF :: byte where "LF = 0x0A"
definition CR :: byte where "CR = 0x0D"
definition CRLF :: byte where "CRLF = 0xDA"

definition char_val :: "bool \<Rightarrow> byte \<Rightarrow> int" where
  "char_val csg b = (if csg then sint b else uint b)"

definition same_char :: "bool \<Rightarrow> byte \<Rightarrow> byte \<Rightarrow> bool" where
  "same_char csg c b \<longleftrightarrow> uint c = char_val csg b"

text \<open>The copying loop: the file buffer and both indices when it ends.\<close>

function frame_loop ::
    "bool \<Rightarrow> byte list \<Rightarrow> nat \<Rightarrow> byte list \<Rightarrow> nat \<Rightarrow> nat \<Rightarrow> (byte list \<times> nat \<times> nat) result" where
  "frame_loop csg msg msgLen fileBuffer i j =
     (if i < msgLen then
        (case arr_read msg i of
           Inl f \<Rightarrow> Inl f
         | Inr c \<Rightarrow>
             if c = 0 then Inr (fileBuffer, i, j)
             else if \<not> same_char csg LF c \<and> \<not> same_char csg CR c \<and> \<not> same_char csg CRLF c then
               (case arr_write fileBuffer j c of
                  Inl f \<Rightarrow> Inl f
                | Inr fb \<Rightarrow> frame_loop csg msg msgLen fb (Suc i) (Suc j))
             else Inr (fileBuffer, i, j))
      else Inr (fileBuffer, i, j))"
  by pat_completeness auto
termination by (relation "measure (\<lambda>(csg, msg, msgLen, fb, i, j). msgLen - i)") auto

text \<open>
  The chain of conditions behind the loop. Its second condition advances \<open>i\<close>, so the later ones
  look at the next byte.
\<close>

definition frame_end :: "bool \<Rightarrow> byte list \<Rightarrow> byte list \<Rightarrow> nat \<Rightarrow> nat \<Rightarrow> byte list result" where
  "frame_end csg msg fileBuffer i j =
     res_bind (arr_read msg i) (\<lambda>c.
       if same_char csg LF c then arr_write fileBuffer j LF
       else res_bind (arr_read msg (Suc i)) (\<lambda>d.
         if same_char csg CR c \<and> same_char csg LF d then
           res_bind (arr_write fileBuffer j CR) (\<lambda>fb. arr_write fb (Suc j) LF)
         else if same_char csg CR d then arr_write fileBuffer j CR
         else if same_char csg CRLF d then arr_write fileBuffer j CRLF
         else arr_write fileBuffer j LF))"

definition frame_message :: "bool \<Rightarrow> byte list \<Rightarrow> nat \<Rightarrow> byte list \<Rightarrow> byte list result" where
  "frame_message csg msg msgLen fileBuffer =
     res_bind (frame_loop csg msg msgLen fileBuffer 0 0) (\<lambda>(fb, i, j). frame_end csg msg fb i j)"

subsection \<open>Retrying a mutex operation\<close>

text \<open>
  \<open>do { ... res = op(); } while (0 != res && k++ < noOfRetries)\<close>: \<open>rs n\<close> is the result of the
  \<open>n\<close>-th call. The value is the last result, the counter and the number of calls made.
\<close>

function retry_loop :: "(nat \<Rightarrow> s32) \<Rightarrow> u8 \<Rightarrow> u8 \<Rightarrow> nat \<Rightarrow> s32 \<times> u8 \<times> nat" where
  "retry_loop rs noOfRetries k n =
     (let mutexRes = rs n in
      if mutexRes \<noteq> 0 \<and> k < noOfRetries then retry_loop rs noOfRetries (k + 1) (Suc n)
      else (mutexRes, if mutexRes \<noteq> 0 then k + 1 else k, Suc n))"
  by pat_completeness auto
termination
  by (relation "measure (\<lambda>(rs, r, k, n). unat r - unat k)")
     (auto simp: unat_inc word_less_nat_alt)

text \<open>The first attempt and, when it fails, the loop.\<close>

definition mutex_retry :: "(nat \<Rightarrow> s32) \<Rightarrow> u8 \<Rightarrow> u8 \<Rightarrow> s32 \<times> u8 \<times> nat" where
  "mutex_retry rs noOfRetries k =
     (if rs 0 \<noteq> 0 then retry_loop rs noOfRetries k 1 else (rs 0, k, 1))"

subsection \<open>Specification\<close>

definition stops :: "bool \<Rightarrow> byte \<Rightarrow> bool" where
  "stops csg c \<longleftrightarrow> same_char csg LF c \<or> same_char csg CR c \<or> same_char csg CRLF c"

text \<open>How the line is ended, from the bytes at which the copying stopped.\<close>

fun ending :: "bool \<Rightarrow> byte list \<Rightarrow> byte list" where
  "ending csg [] = [LF]"
| "ending csg [c] = [LF]"
| "ending csg (c # d # _) =
     (if c = LF then [LF]
      else if c = CR \<and> d = LF then [CR, LF]
      else if d = CR then [CR]
      else if \<not> csg \<and> d = CRLF then [CRLF]
      else [LF])"

definition framed :: "bool \<Rightarrow> byte list \<Rightarrow> byte list" where
  "framed csg bs = takeWhile (\<lambda>c. \<not> stops csg c) bs @ ending csg (dropWhile (\<lambda>c. \<not> stops csg c) bs)"

text \<open>What \<open>recv\<close> leaves of a message in a zeroed buffer, and a zeroed buffer.\<close>

definition received :: "nat \<Rightarrow> byte list \<Rightarrow> byte list" where
  "received n bs = bs @ replicate (n - length bs) 0"

subsection \<open>Characters\<close>

lemma char_val_small:
  assumes "uint c < 128"
  shows "uint c = char_val csg b \<longleftrightarrow> b = c"
proof -
  have "- 128 \<le> uint c" by (rule order_trans [of _ 0]) simp_all
  then have s: "sint c = uint c"
    using assms signed_take_bit_int_eq_self [of 7 "uint c"] by (simp add: sint_uint)
  have "sint b = sint c \<longleftrightarrow> b = c" by (metis signed_word_eqI)
  moreover have "uint b = uint c \<longleftrightarrow> b = c" by (metis word_uint_eq_iff)
  ultimately show ?thesis using s by (auto simp: char_val_def)
qed

lemma same_LF [simp]: "same_char csg LF b \<longleftrightarrow> b = LF"
  unfolding same_char_def by (rule char_val_small) (simp add: LF_def)

lemma same_CR [simp]: "same_char csg CR b \<longleftrightarrow> b = CR"
  unfolding same_char_def by (rule char_val_small) (simp add: CR_def)

lemma sint_byte_less: "sint (b :: byte) < 128"
  using sint_lt [of b] by simp

lemma same_CRLF [simp]: "same_char csg CRLF b \<longleftrightarrow> \<not> csg \<and> b = CRLF"
proof (cases csg)
  case True
  have "uint CRLF \<noteq> sint b" using sint_byte_less [of b] by (simp add: CRLF_def)
  with True show ?thesis by (simp add: same_char_def char_val_def)
next
  case False
  then show ?thesis by (auto simp: same_char_def char_val_def word_uint_eq_iff)
qed

lemma stops_iff: "stops csg c \<longleftrightarrow> c = LF \<or> c = CR \<or> \<not> csg \<and> c = CRLF"
  by (simp add: stops_def)

lemma line_ends_nonzero [simp]: "LF \<noteq> 0" "CR \<noteq> 0" "CRLF \<noteq> 0" "LF \<noteq> CR" "CR \<noteq> LF"
  by (simp_all add: LF_def CR_def CRLF_def)

subsection \<open>The copying loop\<close>

declare frame_loop.simps [simp del]

lemma length_received [simp]: "length bs \<le> n \<Longrightarrow> length (received n bs) = n"
  by (simp add: received_def)

lemma received_nth:
  assumes "i < n" and "length bs \<le> n"
  shows "received n bs ! i = (if i < length bs then bs ! i else 0)"
  using assms by (simp add: received_def nth_append)

lemma arr_write_received:
  assumes "length bs < n"
  shows "arr_write (received n bs) (length bs) c = Inr (received n (bs @ [c]))"
proof -
  obtain m where "n - length bs = Suc m" using assms by (metis Suc_diff_Suc)
  with assms show ?thesis by (simp add: received_def list_update_append)
qed

lemma frame_loop_line:
  assumes "length (pre @ suf) \<le> n" and "0 \<notin> set suf"
  shows "frame_loop csg (received n (pre @ suf)) n (received n pre) (length pre) (length pre) =
    (let line = takeWhile (\<lambda>c. \<not> stops csg c) suf
     in Inr (received n (pre @ line), length pre + length line, length pre + length line))"
  using assms
proof (induction suf arbitrary: pre)
  case Nil
  then show ?case by (subst frame_loop.simps) (simp add: received_nth)
next
  case (Cons c suf)
  have rd: "arr_read (received n (pre @ c # suf)) (length pre) = Inr c"
    using Cons.prems by (simp add: received_nth)
  have wr: "arr_write (received n pre) (length pre) c = Inr (received n (pre @ [c]))"
    using Cons.prems by (intro arr_write_received) simp
  show ?case
    using Cons.prems Cons.IH [of "pre @ [c]"] rd wr
    by (subst frame_loop.simps) (simp add: stops_iff Let_def)
qed

lemma ending_bounds: "length (ending csg r) \<le> max 1 (length r)" "0 \<notin> set (ending csg r)"
  by (induction csg r rule: ending.induct) auto

lemma framed_length: "length (framed csg bs) \<le> Suc (length bs)"
proof -
  let ?P = "\<lambda>c. \<not> stops csg c"
  have "length (takeWhile ?P bs) + length (dropWhile ?P bs) = length bs"
    by (metis length_append takeWhile_dropWhile_id)
  with ending_bounds(1) [of csg "dropWhile ?P bs"] show ?thesis by (simp add: framed_def)
qed

lemma framed_no_zero: "0 \<notin> set bs \<Longrightarrow> 0 \<notin> set (framed csg bs)"
  using ending_bounds(2) by (auto simp: framed_def dest: set_takeWhileD)

lemma frame_end_line:
  assumes "length (line @ rest) + 2 \<le> n" and "0 \<notin> set rest" and "rest = [] \<or> stops csg (hd rest)"
  shows "frame_end csg (received n (line @ rest)) (received n line) (length line) (length line) =
    Inr (received n (line @ ending csg rest))"
proof -
  have w: "arr_write (received n line) (length line) c = Inr (received n (line @ [c]))" for c
    using assms(1) by (intro arr_write_received) simp
  have w2: "arr_write (received n (line @ [CR])) (Suc (length line)) LF = Inr (received n (line @ [CR, LF]))"
    using arr_write_received [of "line @ [CR]" n LF] assms(1) by simp
  have rd: "arr_read (received n (line @ rest)) (length line + k) =
      Inr (if k < length rest then rest ! k else 0)" if "k < 2" for k
    using that assms(1) by (simp add: received_nth nth_append)
  note rd0 = rd [of 0, simplified] and rd1 = rd [of 1, simplified]
  consider "rest = []" | c where "rest = [c]" "stops csg c" | c d r where "rest = c # d # r" "stops csg c"
    using assms(3) by (cases rest; cases "tl rest") auto
  then show ?thesis
  proof cases
    case 1
    with rd0 rd1 w show ?thesis by (simp add: frame_end_def)
  next
    case (2 c)
    with rd0 rd1 w show ?thesis by (auto simp: frame_end_def stops_iff)
  next
    case (3 c d r)
    with rd0 rd1 w w2 assms(2) show ?thesis by (auto simp: frame_end_def stops_iff)
  qed
qed

lemma frame_message_framed:
  assumes "length bs + 2 \<le> n" and "0 \<notin> set bs"
  shows "frame_message csg (received n bs) n (received n []) = Inr (received n (framed csg bs))"
proof -
  let ?P = "\<lambda>c. \<not> stops csg c"
  let ?line = "takeWhile ?P bs" and ?rest = "dropWhile ?P bs"
  have bs: "?line @ ?rest = bs" by simp
  have "frame_loop csg (received n bs) n (received n []) 0 0 =
      Inr (received n ?line, length ?line, length ?line)"
    using frame_loop_line [of "[]" bs n csg] assms by (simp add: Let_def)
  moreover have "frame_end csg (received n (?line @ ?rest)) (received n ?line) (length ?line) (length ?line) =
      Inr (received n (?line @ ending csg ?rest))"
  proof (rule frame_end_line)
    show "length (?line @ ?rest) + 2 \<le> n" using assms(1) by simp
    show "0 \<notin> set ?rest" using assms(2) by (auto dest: set_dropWhileD)
    show "?rest = [] \<or> stops csg (hd ?rest)" using hd_dropWhile [of ?P bs] by blast
  qed
  ultimately show ?thesis by (simp add: frame_message_def framed_def)
qed

lemma c_string_received:
  assumes "length bs < n" and "0 \<notin> set bs"
  shows "c_string (received n bs) = Inr bs"
proof -
  obtain m where "n - length bs = Suc m" using assms(1) by (metis Suc_diff_Suc)
  moreover have "takeWhile (\<lambda>b. b \<noteq> 0) (bs @ 0 # replicate m 0) = bs"
    by (subst takeWhile_append2) (use assms(2) in auto)
  ultimately show ?thesis by (simp add: c_string_def received_def)
qed

lemma framed_line:
  assumes "\<forall>c \<in> set line. \<not> stops csg c"
  shows "framed csg (line @ LF # rest) = line @ [LF]" "framed csg (line @ CR # LF # rest) = line @ [CR, LF]"
    "framed csg line = line @ [LF]"
proof -
  have "ending csg (LF # rest) = [LF]" by (cases rest) auto
  with assms show "framed csg (line @ LF # rest) = line @ [LF]"
    by (simp add: framed_def stops_iff)
  from assms show "framed csg (line @ CR # LF # rest) = line @ [CR, LF]"
    by (simp add: framed_def stops_iff)
  have "takeWhile (\<lambda>c. \<not> stops csg c) line = line" "dropWhile (\<lambda>c. \<not> stops csg c) line = []"
    using assms by (simp_all only: takeWhile_eq_all_conv dropWhile_eq_Nil_conv)
  then show "framed csg line = line @ [LF]" by (simp only: framed_def ending.simps)
qed

subsection \<open>The retry loop\<close>

declare retry_loop.simps [simp del]

lemma retry_loop_calls:
  assumes "retry_loop rs r k n = (res, k', m)"
  shows "n < m \<and> m \<le> n + (unat r - unat k) + 1 \<and> res = rs (m - 1) \<and>
         (\<forall>i. n \<le> i \<and> i < m - 1 \<longrightarrow> rs i \<noteq> 0) \<and>
         (res \<noteq> 0 \<longrightarrow> m = n + (unat r - unat k) + 1 \<and> k' = max r k + 1)"
  using assms
proof (induction rs r k n arbitrary: res k' m rule: retry_loop.induct)
  case (1 rs r k n)
  show ?case
  proof (cases "rs n \<noteq> 0 \<and> k < r")
    case True
    with 1(2) have rec: "retry_loop rs r (k + 1) (Suc n) = (res, k', m)"
      by (simp add: retry_loop.simps [of rs r k n] Let_def)
    have k: "unat (k + 1) = Suc (unat k)" using True by (metis unat_inc)
    have "k + 1 \<le> r" using True k by (simp add: word_le_nat_alt word_less_nat_alt)
    then have mx: "max r (k + 1) = r" "max r k = r" using True by (simp_all add: max_absorb1)
    note ih = 1(1) [OF refl True rec, unfolded mx]
    then have nz: "\<forall>i. Suc n \<le> i \<and> i < m - 1 \<longrightarrow> rs i \<noteq> 0" and res: "res = rs (m - 1)"
      and b: "Suc n < m" "m \<le> Suc n + (unat r - unat (k + 1)) + 1"
      and e: "res \<noteq> 0 \<longrightarrow> m = Suc n + (unat r - unat (k + 1)) + 1" "res \<noteq> 0 \<longrightarrow> k' = r + 1" by blast+
    have "unat k < unat r" using True by (simp add: word_less_nat_alt)
    then have d: "Suc n + (unat r - unat (k + 1)) + 1 = n + (unat r - unat k) + 1" using k by linarith
    show ?thesis unfolding mx
    proof (intro conjI)
      show "n < m" "m \<le> n + (unat r - unat k) + 1" using b d by linarith+
      show "res = rs (m - 1)" by (fact res)
      show "\<forall>i. n \<le> i \<and> i < m - 1 \<longrightarrow> rs i \<noteq> 0" using nz True by (metis Suc_leI le_neq_implies_less)
      show "res \<noteq> 0 \<longrightarrow> m = n + (unat r - unat k) + 1 \<and> k' = r + 1" using e unfolding d by blast
    qed
  next
    case False
    have "unat r - unat k = 0 \<and> max r k = k" if "\<not> k < r"
      using that by (simp add: not_less word_le_nat_alt max_def)
    with False 1(2) show ?thesis
      by (auto simp: retry_loop.simps [of rs r k n] Let_def split: if_splits)
  qed
qed

text \<open>
  Retrying is bounded: whatever the counter is at the start, the first attempt and the loop make at
  most limit minus counter (zero when the counter is above the limit) plus two calls, all but the last
  of which failed, and the result is that of the last call. When the result is still an error all of
  these calls were made and the counter is left one above the limit, or above where it was. It is not
  reset then: the next operation that fails is repeated only once.
\<close>

lemma mutex_retry_calls:
  assumes "mutex_retry rs r k = (res, k', m)"
  shows "0 < m \<and> m \<le> unat r - unat k + 2 \<and> res = rs (m - 1) \<and> (\<forall>i < m - 1. rs i \<noteq> 0) \<and>
         (res \<noteq> 0 \<longrightarrow> m = unat r - unat k + 2 \<and> k' = max r k + 1)"
proof (cases "rs 0 = 0")
  case True
  with assms show ?thesis by (auto simp: mutex_retry_def)
next
  case False
  with assms have "retry_loop rs r k 1 = (res, k', m)" by (simp add: mutex_retry_def)
  note c = retry_loop_calls [OF this]
  then have nz: "\<forall>i. 1 \<le> i \<and> i < m - 1 \<longrightarrow> rs i \<noteq> 0" by blast
  with False have "\<forall>i < m - 1. rs i \<noteq> 0" by (metis One_nat_def Suc_leI neq0_conv)
  moreover have "1 + (unat r - unat k) + 1 = unat r - unat k + 2" by simp
  ultimately show ?thesis using c by (metis gr_zeroI less_zeroE)
qed

lemma retry_loop_pos: "retry_loop rs r k n = (res, k', m) \<Longrightarrow> n < m"
  using retry_loop_calls by blast

lemma mutex_retry_pos: "mutex_retry rs r k = (res, k', m) \<Longrightarrow> 0 < m"
  using mutex_retry_calls by blast

subsection \<open>Properties\<close>

text \<open>
  C17. The first line survives: for a message shorter than the buffer by at least four bytes, with no
  null byte, the code stays inside both buffers and the file buffer then holds exactly the first
  line with its ending, \<open>LF\<close> or \<open>CR LF\<close>; a message without an ending gets \<open>LF\<close>. Everything behind
  the first line is dropped, so a client that sends several lines at once has only the first one
  logged.
\<close>

theorem frame_keeps_first_line:
  assumes "length line + length rest + 4 \<le> n" and "0 \<notin> set line \<union> set rest"
    and "\<forall>c \<in> set line. \<not> stops csg c"
  shows "res_bind (frame_message csg (received n (line @ LF # rest)) n (received n [])) c_string =
           Inr (line @ [LF]) \<and>
         res_bind (frame_message csg (received n (line @ CR # LF # rest)) n (received n [])) c_string =
           Inr (line @ [CR, LF]) \<and>
         res_bind (frame_message csg (received n line) n (received n [])) c_string = Inr (line @ [LF])"
proof -
  have "frame_message csg (received n (line @ LF # rest)) n (received n []) = Inr (received n (line @ [LF]))"
    "frame_message csg (received n (line @ CR # LF # rest)) n (received n []) =
       Inr (received n (line @ [CR, LF]))"
    "frame_message csg (received n line) n (received n []) = Inr (received n (line @ [LF]))"
    using assms by (simp_all add: frame_message_framed framed_line)
  with assms show ?thesis by (simp add: c_string_received)
qed

theorem frame_keeps_first_line_witness:
  "res_bind (frame_message True (received 20 ([104, 105] @ LF # [120, 10])) 20 (received 20 [])) c_string =
     Inr [104, 105, 10]"
proof -
  have "\<forall>c \<in> set [104, 105 :: byte]. \<not> stops True c" by (simp add: stops_iff LF_def CR_def)
  from frame_keeps_first_line [OF _ _ this, of "[120, 10]" 20] show ?thesis by (simp add: LF_def)
qed

text \<open>
  A message that fills the buffer is read past its end: when the received bytes have no line end
  and no null byte and leave room for at most one more, the code reads the message buffer out of
  bounds, for every such content.
\<close>

lemma frame_overflow:
  assumes "0 < n" and "length bs = n \<or> length bs + 1 = n" and "0 \<notin> set bs"
    and "\<forall>c \<in> set bs. \<not> stops csg c"
  shows "frame_message csg (received n bs) n (received n []) = Inl OutOfBounds"
proof -
  have tw: "takeWhile (\<lambda>c. \<not> stops csg c) bs = bs" using assms(4) by (simp only: takeWhile_eq_all_conv)
  have "frame_loop csg (received n bs) n (received n []) 0 0 = Inr (received n bs, length bs, length bs)"
    using frame_loop_line [of "[]" bs n csg, unfolded tw] assms(2,3) by (auto simp: Let_def)
  moreover have "frame_end csg (received n bs) (received n bs) (length bs) (length bs) = Inl OutOfBounds"
    using assms(1,2) by (auto simp: frame_end_def received_nth)
  ultimately show ?thesis by (simp add: frame_message_def)
qed

end
