(* ===== verification/Machine.thy ===== *)
theory Machine
  imports Aesd_Prelude
begin

section \<open>Invariants of step relations\<close>

text \<open>
  The reachable states of a step relation, and the contract under which a predicate holds in all
  of them. The driver, the thread helper and the socket server instantiate it.
\<close>

inductive reach :: "('s \<Rightarrow> bool) \<Rightarrow> ('s \<Rightarrow> 's \<Rightarrow> bool) \<Rightarrow> 's \<Rightarrow> bool"
  for init :: "'s \<Rightarrow> bool" and stp :: "'s \<Rightarrow> 's \<Rightarrow> bool" where
  reach_init: "init s \<Longrightarrow> reach init stp s"
| reach_step: "reach init stp s \<Longrightarrow> stp s t \<Longrightarrow> reach init stp t"

locale invariant_machine =
  fixes init :: "'s \<Rightarrow> bool" and stp :: "'s \<Rightarrow> 's \<Rightarrow> bool" and invar :: "'s \<Rightarrow> bool"
  assumes init_invar: "init s \<Longrightarrow> invar s"
    and step_invar: "invar s \<Longrightarrow> stp s t \<Longrightarrow> invar t"
begin

lemma reach_invar: "reach init stp s \<Longrightarrow> invar s"
  by (induction rule: reach.induct) (auto intro: init_invar step_invar)

lemma reach_consequence:
  assumes "reach init stp s" and "\<And>x. invar x \<Longrightarrow> P x"
  shows "P s"
  using assms reach_invar by blast

end

end
