(* ===== verification/Server_Threads.thy ===== *)
theory Server_Threads
  imports Server_Message Machine
begin

section \<open>The connection threads of the socket server\<close>

text \<open>
  Models \<open>server_thread\<close> in \<^verbatim>\<open>server/aesdsocket.cpp\<close> for any number of connections that interleave
  freely. Each thread has a position in its code; a step is one access to shared state: the terminate
  flag, the socket, the mutex, the file. The line between the lock and the unlock is written and the
  whole file is read back in separate steps, so that the guarantee of the mutex is visible. Every
  call of \<open>pthread_mutex_lock\<close> and \<open>pthread_mutex_unlock\<close>, the repeated ones included, is a step of its
  own and may fail.

  What the calls return is an argument of the step, \<open>answers\<close>. The file behind \<open>fopen\<close> is a
  parameter: what appending bytes does to it and what it contains. The code ignores the results of
  \<open>fseek\<close>, \<open>fwrite\<close>, \<open>fread\<close> and \<open>fclose\<close>, and so do the steps: each may transfer less than it was asked
  to, and the read may begin elsewhere than at the start.

  The mutex is a static default mutex. For it POSIX leaves undefined what an unlock does in a thread
  that does not hold it, and a second lock in the thread that does; both are faults here. The pointer
  to it is stored by \<open>initServerThread\<close> only behind \<open>pthread_create\<close>, so that a thread may come to use
  it before; that is the fault \<open>UninitRead\<close>.
\<close>

record 'd logdev =
  log_append :: "byte list \<Rightarrow> 'd \<Rightarrow> 'd"
  log_contents :: "'d \<Rightarrow> byte list"

text \<open>What \<open>recv\<close> did: it stored bytes, found the connection closed, or failed.\<close>

datatype recv_result = Got "byte list" | Closed | RecvError

text \<open>
  What the calls of a step return: \<open>malloc\<close>, \<open>recv\<close>, the mutex operations, \<open>fopen\<close>. The calls on the
  stream: \<open>a_write\<close> is how many bytes of the line have reached the file when the stream is rewound,
  \<open>a_seek\<close> where reading then starts, 0 unless rewinding failed, \<open>a_read\<close> how many bytes \<open>fread\<close> stores
  at most, and \<open>a_close\<close> how many of the bytes left in the stream \<open>fclose\<close> still writes.
\<close>

record answers =
  a_malloc :: bool
  a_recv :: recv_result
  a_lock :: s32
  a_unlock :: s32
  a_fopen :: bool
  a_write :: nat
  a_seek :: nat
  a_read :: nat
  a_close :: nat

text \<open>How far the calls on the stream came in one pass through the critical section.\<close>

record xfer =
  x_put :: nat
  x_start :: nat
  x_got :: nat

text \<open>
  \<open>At_relock\<close> and \<open>At_reunlock\<close> are the positions inside the two retry loops. \<open>At_echo\<close> is the \<open>send\<close>
  behind a lock that was given up, with the line still in the file buffer; \<open>At_send\<close> is the same call
  with what was read back from the file.
\<close>

datatype tpos =
    At_start
  | At_check
  | At_recv
  | At_lock "byte list"
  | At_relock "byte list"
  | At_open "byte list"
  | At_write "byte list"
  | At_read "byte list" nat
  | At_close "byte list" xfer "byte list"
  | At_unlock "byte list" xfer "byte list"
  | At_reunlock "byte list" xfer "byte list"
  | At_send "byte list" xfer "byte list"
  | At_echo "byte list"
  | Finished

text \<open>
  \<open>handed\<close> is the number of threads whose structure has the pointer to the mutex, \<open>retry\<close> the counter
  \<open>k\<close> of each thread, \<open>exited\<close> that a thread called \<open>exit\<close>. The other fields are observations: \<open>gave_up\<close>
  that a thread left its critical section with the mutex still locked; \<open>logged\<close> is the history of what
  was appended with the thread that appended it, \<open>sent\<close> that of the replies.
\<close>

record 'd net =
  conns :: "tpos list"
  handed :: nat
  mtx :: "nat option"
  device :: 'd
  terminate :: bool
  retry :: "nat \<Rightarrow> u8"
  exited :: bool
  gave_up :: bool
  logged :: "(nat \<times> byte list) list"
  sent :: "(nat \<times> byte list) list"

definition noOfRetries :: u8 where "noOfRetries = 10"

definition goto :: "nat \<Rightarrow> tpos \<Rightarrow> 'd net \<Rightarrow> 'd net" where
  "goto t p s = s\<lparr>conns := (conns s)[t := p]\<rparr>"

text \<open>The line cut out of what was received into the zeroed message buffer.\<close>

definition line_of :: "bool \<Rightarrow> byte list \<Rightarrow> byte list result" where
  "line_of csg bs =
     res_bind (frame_message csg (received SERVER_MSG_LEN bs) SERVER_MSG_LEN (received SERVER_MSG_LEN []))
       c_string"

text \<open>\<open>pthread_mutex_unlock(pThreadArgs->fileMutex)\<close> with the given result.\<close>

definition thread_unlock :: "s32 \<Rightarrow> nat \<Rightarrow> 'd net \<Rightarrow> 'd net result" where
  "thread_unlock res t s =
     (if \<not> t < handed s then Inl UninitRead
      else if mtx s \<noteq> Some t then Inl ForeignUnlock
      else Inr (if res = 0 then s\<lparr>mtx := None\<rparr> else s))"

text \<open>Behind a lock that succeeded: the retry counter starts again.\<close>

definition lock_taken :: "nat \<Rightarrow> byte list \<Rightarrow> 'd net \<Rightarrow> 'd net" where
  "lock_taken t line s = goto t (At_open line) (s\<lparr>mtx := Some t, retry := (retry s)(t := 0)\<rparr>)"

text \<open>
  \<open>pthread_mutex_lock(pThreadArgs->fileMutex)\<close> with the given result; \<open>failed\<close> is the state behind a
  call that failed. A call that would succeed waits while another thread holds the mutex.
\<close>

definition thread_lock :: "s32 \<Rightarrow> nat \<Rightarrow> byte list \<Rightarrow> 'd net \<Rightarrow> 'd net \<Rightarrow> 'd net result option" where
  "thread_lock res t line failed s =
     (if \<not> t < handed s then Some (Inl UninitRead)
      else if res \<noteq> 0 then Some (Inr failed)
      else if mtx s = None then Some (Inr (lock_taken t line s))
      else if mtx s = Some t then Some (Inl Relock)
      else None)"

text \<open>
  A failed call in a retry loop: \<open>k++ < noOfRetries\<close> decides between the loop and the code behind it.
\<close>

definition retry_again :: "nat \<Rightarrow> tpos \<Rightarrow> tpos \<Rightarrow> 'd net \<Rightarrow> 'd net" where
  "retry_again t loop behind s =
     goto t (if retry s t < noOfRetries then loop else behind) (s\<lparr>retry := (retry s)(t := retry s t + 1)\<rparr>)"

text \<open>Bytes of the stream that reach the file; nothing is written when there are none.\<close>

definition append_file :: "'d logdev \<Rightarrow> nat \<Rightarrow> byte list \<Rightarrow> 'd net \<Rightarrow> 'd net" where
  "append_file D t bs s =
     (if bs = [] then s else s\<lparr>device := log_append D bs (device s), logged := logged s @ [(t, bs)]\<rparr>)"

text \<open>What \<open>fread\<close> stores of a file with the given contents.\<close>

definition read_back :: "nat \<Rightarrow> nat \<Rightarrow> byte list \<Rightarrow> byte list" where
  "read_back from n contents = take (min n SERVER_MSG_LEN) (drop from contents)"

text \<open>\<open>send\<close> of the string in the file buffer, and back to the top of the loop.\<close>

definition send_buffer :: "nat \<Rightarrow> byte list \<Rightarrow> 'd net \<Rightarrow> 'd net result" where
  "send_buffer t fileBuffer s =
     res_bind (c_string (received SERVER_MSG_LEN fileBuffer)) (\<lambda>out.
       Inr (goto t At_check (s\<lparr>sent := sent s @ [(t, out)]\<rparr>)))"

text \<open>The next step of thread \<open>t\<close>: \<open>None\<close> when it waits for the mutex or has ended.\<close>

definition server_thread :: "'d logdev \<Rightarrow> bool \<Rightarrow> answers \<Rightarrow> nat \<Rightarrow> 'd net \<Rightarrow> 'd net result option" where
  "server_thread D csg a t s =
     (if t < length (conns s) \<and> \<not> exited s then
        (case conns s ! t of
           At_start \<Rightarrow> if a_malloc a then Some (Inr (goto t At_check s)) else Some (Inl NullDeref)
         | At_check \<Rightarrow>
             if terminate s then Some (res_bind (thread_unlock (a_unlock a) t s) (\<lambda>s. Inr (goto t Finished s)))
             else Some (Inr (goto t At_recv s))
         | At_recv \<Rightarrow>
             (case a_recv a of
                Closed \<Rightarrow> Some (Inr (goto t At_check s))
              | Got bs \<Rightarrow> Some (res_bind (line_of csg (take SERVER_MSG_LEN bs)) (\<lambda>line. Inr (goto t (At_lock line) s)))
              | RecvError \<Rightarrow> Some (res_bind (line_of csg []) (\<lambda>line. Inr (goto t (At_lock line) s))))
         | At_lock line \<Rightarrow> thread_lock (a_lock a) t line (goto t (At_relock line) s) s
         | At_relock line \<Rightarrow> thread_lock (a_lock a) t line (retry_again t (At_relock line) (At_echo line) s) s
         | At_open line \<Rightarrow>
             if a_fopen a then Some (Inr (goto t (At_write line) s)) else Some (Inr (s\<lparr>exited := True\<rparr>))
         | At_write line \<Rightarrow>
             Some (Inr (goto t (At_read line (a_write a)) (append_file D t (take (a_write a) line) s)))
         | At_read line n \<Rightarrow>
             Some (Inr (goto t (At_close line \<lparr>x_put = n, x_start = a_seek a, x_got = a_read a\<rparr>
               (read_back (a_seek a) (a_read a) (log_contents D (device s)))) s))
         | At_close line x reply \<Rightarrow>
             Some (Inr (goto t (At_unlock line x reply) (append_file D t (take (a_close a) (drop (x_put x) line)) s)))
         | At_unlock line x reply \<Rightarrow>
             Some (res_bind (thread_unlock (a_unlock a) t s) (\<lambda>s.
               Inr (goto t (if a_unlock a \<noteq> 0 then At_reunlock line x reply else At_send line x reply) s)))
         | At_reunlock line x reply \<Rightarrow>
             Some (res_bind (thread_unlock (a_unlock a) t s) (\<lambda>s.
               Inr (if a_unlock a \<noteq> 0
                    then retry_again t (At_reunlock line x reply) (At_send line x reply)
                           (s\<lparr>gave_up := (gave_up s \<or> \<not> retry s t < noOfRetries)\<rparr>)
                    else goto t (At_send line x reply) s)))
         | At_send line x reply \<Rightarrow> Some (send_buffer t reply s)
         | At_echo line \<Rightarrow> Some (send_buffer t line s)
         | Finished \<Rightarrow> None)
      else None)"

text \<open>
  A step of a thread, a new connection, its structure getting the pointer to the mutex, or the main
  thread asking all threads to end. The main thread goes on to the next connection, or to the end of
  its loop, behind that store. Nothing happens after \<open>exit\<close>.
\<close>

inductive net_step :: "'d logdev \<Rightarrow> bool \<Rightarrow> 'd net \<Rightarrow> 'd net \<Rightarrow> bool" for D csg where
  serve: "server_thread D csg a t s = Some (Inr s') \<Longrightarrow> net_step D csg s s'"
| connect: "\<not> exited s \<Longrightarrow> \<not> terminate s \<Longrightarrow> handed s = length (conns s) \<Longrightarrow> net_step D csg s (s\<lparr>conns := conns s @ [At_start]\<rparr>)"
| hand_over: "\<not> exited s \<Longrightarrow> handed s < length (conns s) \<Longrightarrow> net_step D csg s (s\<lparr>handed := Suc (handed s)\<rparr>)"
| stop: "\<not> exited s \<Longrightarrow> handed s = length (conns s) \<Longrightarrow> net_step D csg s (s\<lparr>terminate := True\<rparr>)"

inductive_cases net_stepE: "net_step D csg s s'"

definition net_start :: "'d \<Rightarrow> 'd net" where
  "net_start d = \<lparr>conns = [], handed = 0, mtx = None, device = d, terminate = False, retry = (\<lambda>_. 0), exited = False,
     gave_up = False, logged = [], sent = []\<rparr>"

text \<open>Consecutive steps of one thread, each with the answers it gets.\<close>

fun run_thread :: "'d logdev \<Rightarrow> bool \<Rightarrow> nat \<Rightarrow> answers list \<Rightarrow> 'd net \<Rightarrow> 'd net result option" where
  "run_thread D csg t [] s = Some (Inr s)"
| "run_thread D csg t (a # as) s =
     (case server_thread D csg a t s of
        None \<Rightarrow> None
      | Some (Inl f) \<Rightarrow> Some (Inl f)
      | Some (Inr s') \<Rightarrow> run_thread D csg t as s')"

text \<open>Answers in which every call succeeds and \<open>recv\<close> does as given, and the state of a single connection.\<close>

definition works :: "recv_result \<Rightarrow> answers" where
  "works r = \<lparr>a_malloc = True, a_recv = r, a_lock = 0, a_unlock = 0, a_fopen = True,
     a_write = SERVER_MSG_LEN, a_seek = 0, a_read = SERVER_MSG_LEN, a_close = SERVER_MSG_LEN\<rparr>"

definition all_moved :: xfer where
  "all_moved = \<lparr>x_put = SERVER_MSG_LEN, x_start = 0, x_got = SERVER_MSG_LEN\<rparr>"

definition solo :: "tpos \<Rightarrow> nat option \<Rightarrow> 'd \<Rightarrow> (nat \<times> byte list) list \<Rightarrow> 'd net" where
  "solo p m d lg = (net_start d)\<lparr>conns := [p], handed := 1, mtx := m, logged := lg\<rparr>"

text \<open>An ordinary file opened for appending, as in the build without the character device.\<close>

definition plain_file :: "byte list logdev" where
  "plain_file = \<lparr>log_append = (\<lambda>line d. d @ line), log_contents = (\<lambda>d. d)\<rparr>"

subsection \<open>Invariant\<close>

fun critical :: "tpos \<Rightarrow> bool" where
  "critical (At_open _) = True"
| "critical (At_write _) = True"
| "critical (At_read _ _) = True"
| "critical (At_close _ _ _) = True"
| "critical (At_unlock _ _ _) = True"
| "critical (At_reunlock _ _ _) = True"
| "critical _ = False"

text \<open>The file after a history of appended lines.\<close>

definition replay :: "'d logdev \<Rightarrow> 'd \<Rightarrow> (nat \<times> byte list) list \<Rightarrow> 'd" where
  "replay D d0 lg = fold (\<lambda>(t, line). log_append D line) lg d0"

text \<open>The newest entry of a history is what the thread wrote of its line, unless it wrote nothing.\<close>

definition own_newest :: "(nat \<times> byte list) list \<Rightarrow> nat \<Rightarrow> byte list \<Rightarrow> bool" where
  "own_newest lg t bs \<longleftrightarrow> bs \<noteq> [] \<longrightarrow> lg \<noteq> [] \<and> last lg = (t, bs)"

text \<open>
  The reply was read from the file as it was right after the thread appended what it wrote of its own
  line.
\<close>

definition own_snapshot ::
    "'d logdev \<Rightarrow> 'd \<Rightarrow> (nat \<times> byte list) list \<Rightarrow> nat \<Rightarrow> byte list \<Rightarrow> xfer \<Rightarrow> byte list \<Rightarrow> bool" where
  "own_snapshot D d0 lg t line x reply \<longleftrightarrow>
     line \<noteq> [] \<and> (\<exists>k \<le> length lg. own_newest (take k lg) t (take (x_put x) line) \<and>
        reply = read_back (x_start x) (x_got x) (log_contents D (replay D d0 (take k lg))))"

text \<open>The calls on the stream moved the whole line and as much of the file as the buffer takes.\<close>

definition whole :: "byte list \<Rightarrow> xfer \<Rightarrow> bool" where
  "whole line x \<longleftrightarrow> length line \<le> x_put x \<and> x_start x = 0 \<and> SERVER_MSG_LEN \<le> x_got x"

text \<open>A thread that has a line has one that is not empty, and its reply is its own snapshot.\<close>

fun pos_ok :: "'d logdev \<Rightarrow> 'd \<Rightarrow> (nat \<times> byte list) list \<Rightarrow> nat \<Rightarrow> tpos \<Rightarrow> bool" where
  "pos_ok D d0 lg t (At_lock line) \<longleftrightarrow> line \<noteq> []"
| "pos_ok D d0 lg t (At_relock line) \<longleftrightarrow> line \<noteq> []"
| "pos_ok D d0 lg t (At_open line) \<longleftrightarrow> line \<noteq> []"
| "pos_ok D d0 lg t (At_write line) \<longleftrightarrow> line \<noteq> []"
| "pos_ok D d0 lg t (At_read line n) \<longleftrightarrow> line \<noteq> [] \<and> own_newest lg t (take n line)"
| "pos_ok D d0 lg t (At_close line x reply) \<longleftrightarrow> own_snapshot D d0 lg t line x reply"
| "pos_ok D d0 lg t (At_unlock line x reply) \<longleftrightarrow> own_snapshot D d0 lg t line x reply"
| "pos_ok D d0 lg t (At_reunlock line x reply) \<longleftrightarrow> own_snapshot D d0 lg t line x reply"
| "pos_ok D d0 lg t (At_send line x reply) \<longleftrightarrow> own_snapshot D d0 lg t line x reply"
| "pos_ok D d0 lg t _ \<longleftrightarrow> True"

text \<open>A thread that has ended once held the mutex outside its critical section.\<close>

definition conn_ok :: "'d logdev \<Rightarrow> 'd \<Rightarrow> 'd net \<Rightarrow> nat \<Rightarrow> bool" where
  "conn_ok D d0 s t \<longleftrightarrow>
     (critical (conns s ! t) \<longrightarrow> mtx s = Some t \<and> t < handed s) \<and>
     (mtx s = Some t \<and> \<not> gave_up s \<longrightarrow> critical (conns s ! t)) \<and>
     (conns s ! t = Finished \<longrightarrow> gave_up s) \<and>
     pos_ok D d0 (logged s) t (conns s ! t)"

definition net_inv :: "'d logdev \<Rightarrow> 'd \<Rightarrow> 'd net \<Rightarrow> bool" where
  "net_inv D d0 s \<longleftrightarrow>
     device s = replay D d0 (logged s) \<and> (terminate s \<longrightarrow> handed s = length (conns s)) \<and>
     (\<forall>t. mtx s = Some t \<longrightarrow> t < length (conns s)) \<and> (\<forall>t < length (conns s). conn_ok D d0 s t)"

text \<open>The mutex is held and no thread is between its lock and its unlock.\<close>

definition stuck :: "nat \<Rightarrow> (nat \<times> byte list) list \<Rightarrow> 'd net \<Rightarrow> bool" where
  "stuck t lg s \<longleftrightarrow>
     mtx s = Some t \<and> (\<forall>u < length (conns s). \<not> critical (conns s ! u)) \<and> logged s = lg"

text \<open>The line cut out of a message is never empty: its first byte is not the null byte.\<close>

lemma frame_loop_first:
  "frame_loop csg msg n fb i j = Inr (fb', i', j') \<Longrightarrow> j = 0 \<or> fb ! 0 \<noteq> 0 \<Longrightarrow> j' = 0 \<or> fb' ! 0 \<noteq> 0"
proof (induction csg msg n fb i j rule: frame_loop.induct)
  case (1 csg msg n fb i j)
  show ?case
  proof (cases "i < n \<and> i < length msg \<and> msg ! i \<noteq> 0 \<and> \<not> stops csg (msg ! i) \<and> j < length fb")
    case True
    with 1(2) have "frame_loop csg msg n (fb[j := msg ! i]) (Suc i) (Suc j) = Inr (fb', i', j')"
      by (subst (asm) frame_loop.simps) (simp add: arr_read_def arr_write_def stops_def)
    moreover have "fb[j := msg ! i] ! 0 \<noteq> 0" using True 1(3) by (cases j) auto
    ultimately show ?thesis using 1(1) True by (simp add: arr_read_def arr_write_def stops_def)
  next
    case False
    with 1(2,3) show ?thesis
      by (subst (asm) frame_loop.simps) (auto simp: arr_read_def arr_write_def stops_def split: if_splits)
  qed
qed

lemma frame_end_first:
  "frame_end csg msg fb i j = Inr fb' \<Longrightarrow> j = 0 \<or> fb ! 0 \<noteq> 0 \<Longrightarrow> fb' \<noteq> [] \<and> fb' ! 0 \<noteq> 0"
  by (cases j)
     (auto simp: frame_end_def res_bind_Inr_iff arr_read_def arr_write_def LF_def CR_def CRLF_def split: if_splits)

lemma line_of_nonempty:
  assumes "line_of csg bs = Inr line"
  shows "line \<noteq> []"
proof -
  from assms obtain fb i j fb' where "frame_loop csg (received SERVER_MSG_LEN bs) SERVER_MSG_LEN (received SERVER_MSG_LEN []) 0 0 =
      Inr (fb, i, j)" "frame_end csg (received SERVER_MSG_LEN bs) fb i j = Inr fb'" "c_string fb' = Inr line"
    by (auto simp: line_of_def frame_message_def res_bind_Inr_iff)
  with frame_end_first frame_loop_first have "fb' \<noteq> []" "fb' ! 0 \<noteq> 0" by blast+
  with \<open>c_string fb' = Inr line\<close> show ?thesis by (cases fb') (auto simp: c_string_def split: if_splits)
qed

lemma replay_snoc: "replay D d0 (lg @ [(t, line)]) = log_append D line (replay D d0 lg)"
  by (simp add: replay_def)

lemma append_file_facts [simp]:
  "conns (append_file D t bs s) = conns s" "handed (append_file D t bs s) = handed s"
  "mtx (append_file D t bs s) = mtx s" "terminate (append_file D t bs s) = terminate s"
  "gave_up (append_file D t bs s) = gave_up s" "retry (append_file D t bs s) = retry s"
  "exited (append_file D t bs s) = exited s" "sent (append_file D t bs s) = sent s"
  "logged (append_file D t bs s) = logged s @ (if bs = [] then [] else [(t, bs)])"
  by (simp_all add: append_file_def)

lemma append_file_replay:
  "device s = replay D d0 (logged s) \<Longrightarrow>
   device (append_file D t bs s) = replay D d0 (logged (append_file D t bs s))"
  by (simp add: append_file_def replay_snoc)

lemma own_snapshot_mono:
  "own_snapshot D d0 lg t line x reply \<Longrightarrow> own_snapshot D d0 (lg @ lg') t line x reply"
proof -
  assume "own_snapshot D d0 lg t line x reply"
  then obtain k where "line \<noteq> []" "k \<le> length lg" "own_newest (take k lg) t (take (x_put x) line)"
    "reply = read_back (x_start x) (x_got x) (log_contents D (replay D d0 (take k lg)))"
    by (auto simp: own_snapshot_def)
  then show ?thesis unfolding own_snapshot_def by (intro conjI exI [of _ k]) simp_all
qed

lemma own_snapshot_now:
  "own_newest lg t (take n line) \<Longrightarrow> line \<noteq> [] \<Longrightarrow>
   own_snapshot D d0 lg t line \<lparr>x_put = n, x_start = p, x_got = m\<rparr> (read_back p m (log_contents D (replay D d0 lg)))"
  unfolding own_snapshot_def by (intro conjI exI [of _ "length lg"]) simp_all

text \<open>When everything was moved, the thread's whole line is there and the file is read from its start.\<close>

lemma own_snapshot_whole:
  assumes "own_snapshot D d0 lg t line x reply" and "whole line x"
  shows "\<exists>k < length lg. lg ! k = (t, line) \<and>
    reply = take SERVER_MSG_LEN (log_contents D (replay D d0 (take (Suc k) lg)))"
proof -
  from assms(1) obtain k where k: "k \<le> length lg" "own_newest (take k lg) t (take (x_put x) line)"
    "reply = read_back (x_start x) (x_got x) (log_contents D (replay D d0 (take k lg)))" "line \<noteq> []"
    by (auto simp: own_snapshot_def)
  with assms(2) have ne: "take k lg \<noteq> []" "last (take k lg) = (t, line)" by (auto simp: own_newest_def whole_def)
  then obtain j where j: "k = Suc j" by (cases k) auto
  with k(1) ne have "lg ! j = (t, line)" by (simp add: take_Suc_conv_app_nth)
  with j k assms(2) show ?thesis
    by (intro exI [of _ j]) (simp add: whole_def read_back_def)
qed

lemma pos_ok_mono: "pos_ok D d0 lg t p \<Longrightarrow> \<not> critical p \<Longrightarrow> pos_ok D d0 (lg @ lg') t p"
  by (cases p) (auto intro: own_snapshot_mono)

lemma conn_ok_frame:
  assumes "conns s' ! t = conns s ! t" and "mtx s' = mtx s" and "gave_up s' = gave_up s" and "logged s' = logged s"
    and "handed s \<le> handed s'" and "conn_ok D d0 s t"
  shows "conn_ok D d0 s' t"
  using assms by (auto simp: conn_ok_def)

lemma net_invD:
  assumes "net_inv D d0 s" and "t < length (conns s)"
  shows "critical (conns s ! t) \<Longrightarrow> mtx s = Some t" and "conn_ok D d0 s t"
    and "device s = replay D d0 (logged s)" and "mtx s = Some t \<Longrightarrow> \<not> gave_up s \<Longrightarrow> critical (conns s ! t)"
    and "critical (conns s ! t) \<Longrightarrow> t < handed s" and "terminate s \<Longrightarrow> handed s = length (conns s)"
proof -
  show ok: "conn_ok D d0 s t" and "device s = replay D d0 (logged s)" and "terminate s \<Longrightarrow> handed s = length (conns s)"
    using assms by (simp_all add: net_inv_def)
  from ok show "critical (conns s ! t) \<Longrightarrow> mtx s = Some t" and "critical (conns s ! t) \<Longrightarrow> t < handed s"
    and "mtx s = Some t \<Longrightarrow> \<not> gave_up s \<Longrightarrow> critical (conns s ! t)" by (simp_all add: conn_ok_def)
qed

text \<open>
  A step of thread \<open>t\<close>: it changes the mutex only between free and its own, and the history only
  while it holds the mutex.
\<close>

lemma net_inv_thread:
  assumes inv: "net_inv D d0 s" and t: "t < length (conns s)"
    and s': "conns s' = (conns s)[t := p]" "device s' = replay D d0 (logged s')"
      "terminate s' = terminate s" "handed s' = handed s"
    and g: "gave_up s \<longrightarrow> gave_up s'"
    and m: "mtx s' = mtx s \<or> mtx s = None \<and> mtx s' = Some t \<or> mtx s = Some t \<and> mtx s' = None"
    and l: "logged s' = logged s \<or> mtx s = Some t \<and> (\<exists>xs. logged s' = logged s @ xs)"
    and ok: "conn_ok D d0 s' t"
  shows "net_inv D d0 s'"
proof -
  have bound: "mtx s = Some u \<Longrightarrow> u < length (conns s)" for u using inv by (simp add: net_inv_def)
  have "conn_ok D d0 s' u" if "u < length (conns s')" "u \<noteq> t" for u
  proof -
    have u: "conn_ok D d0 s u" using inv that s'(1) by (simp add: net_inv_def)
    have mu: "mtx s' = Some u \<longleftrightarrow> mtx s = Some u" using m that(2) by auto
    have cu: "conns s' ! u = conns s ! u" using s'(1) that(2) by simp
    from l show ?thesis
    proof
      assume "logged s' = logged s"
      with u mu cu g s'(4) show ?thesis by (auto simp: conn_ok_def)
    next
      assume "mtx s = Some t \<and> (\<exists>xs. logged s' = logged s @ xs)"
      then obtain xs where x: "mtx s = Some t" "logged s' = logged s @ xs" by blast
      with u that(2) have "\<not> critical (conns s ! u)" by (auto simp: conn_ok_def)
      with u mu cu x g show ?thesis by (auto simp: conn_ok_def pos_ok_mono)
    qed
  qed
  with ok have "\<forall>u < length (conns s'). conn_ok D d0 s' u" by metis
  moreover have "\<forall>u. mtx s' = Some u \<longrightarrow> u < length (conns s')" using m bound t s'(1) by auto
  ultimately show ?thesis using s' inv by (simp add: net_inv_def)
qed

lemma server_thread_live: "server_thread D csg a t s = Some r \<Longrightarrow> t < length (conns s) \<and> \<not> exited s"
  by (simp add: server_thread_def split: if_splits)

lemma thread_unlock_ok:
  "thread_unlock res t s = Inr s' \<longleftrightarrow> t < handed s \<and> mtx s = Some t \<and> s' = s\<lparr>mtx := (if res = 0 then None else Some t)\<rparr>"
  by (auto simp: thread_unlock_def)

lemma thread_lock_ok:
  "thread_lock res t line failed s = Some (Inr s') \<longleftrightarrow>
     t < handed s \<and> (if res \<noteq> 0 then s' = failed else mtx s = None \<and> s' = lock_taken t line s)"
  by (auto simp: thread_lock_def)

lemmas thread_simps = goto_def lock_taken_def retry_again_def

lemmas lock_simps = thread_unlock_def thread_lock_def

lemma server_thread_inv:
  assumes inv: "net_inv D d0 s" and st: "server_thread D csg a t s = Some (Inr s')"
  shows "net_inv D d0 s'"
proof -
  have t: "t < length (conns s)" and x: "\<not> exited s" using server_thread_live [OF st] by simp_all
  note d = net_invD [OF inv t]
  note k = net_inv_thread [OF inv t]
  note simps = thread_simps conn_ok_def
  show ?thesis
  proof (cases "conns s ! t")
    case At_start
    with st t x have "s' = goto t At_check s" by (simp add: server_thread_def split: if_splits)
    with At_start d t show ?thesis by (intro k [of _ At_check]) (auto simp: simps)
  next
    case At_check
    with st t x consider "s' = goto t At_recv s"
      | "t < handed s" "mtx s = Some t" "s' = goto t Finished (s\<lparr>mtx := (if a_unlock a = 0 then None else Some t)\<rparr>)"
      by (auto simp: server_thread_def res_bind_Inr_iff thread_unlock_ok split: if_splits)
    then show ?thesis
    proof cases
      case 1
      with At_check d t show ?thesis by (intro k [of _ At_recv]) (auto simp: simps)
    next
      case 2
      with At_check d(4) have "gave_up s" by auto
      with 2 At_check d t show ?thesis by (intro k [of _ Finished]) (auto simp: simps)
    qed
  next
    case At_recv
    with st t x obtain p where "s' = goto t p s" "p = At_check \<or> (\<exists>line. p = At_lock line \<and> line \<noteq> [])"
      by (auto simp: server_thread_def res_bind_Inr_iff split: recv_result.splits dest: line_of_nonempty)
    with At_recv d t show ?thesis by (intro k [of _ p]) (auto simp: simps)
  next
    case (At_lock line)
    with st t x consider "s' = goto t (At_relock line) s" | "t < handed s" "mtx s = None" "s' = lock_taken t line s"
      by (auto simp: server_thread_def thread_lock_ok split: if_splits)
    then show ?thesis
    proof cases
      case 1
      with At_lock d t show ?thesis by (intro k [of _ "At_relock line"]) (auto simp: simps)
    next
      case 2
      with At_lock d t show ?thesis by (intro k [of _ "At_open line"]) (auto simp: simps)
    qed
  next
    case (At_relock line)
    with st t x consider p where "s' = goto t p (s\<lparr>retry := (retry s)(t := retry s t + 1)\<rparr>)"
        "p = At_relock line \<or> p = At_echo line"
      | "t < handed s" "mtx s = None" "s' = lock_taken t line s"
      by (auto simp: server_thread_def thread_lock_ok retry_again_def split: if_splits)
    then show ?thesis
    proof cases
      case (1 p)
      with At_relock d t show ?thesis by (intro k [of _ p]) (auto simp: simps)
    next
      case 2
      with At_relock d t show ?thesis by (intro k [of _ "At_open line"]) (auto simp: simps)
    qed
  next
    case (At_open line)
    show ?thesis
    proof (cases "a_fopen a")
      case True
      with At_open st t x have "s' = goto t (At_write line) s" by (simp add: server_thread_def)
      with At_open d t show ?thesis by (intro k [of _ "At_write line"]) (auto simp: simps)
    next
      case False
      with At_open st t x have s': "s' = s\<lparr>exited := True\<rparr>" by (simp add: server_thread_def)
      have "conn_ok D d0 (s\<lparr>exited := True\<rparr>) u" if "u < length (conns s)" for u
        by (rule conn_ok_frame [of _ _ s]) (use inv that in \<open>simp_all add: net_inv_def\<close>)
      with s' inv show ?thesis by (simp add: net_inv_def)
    qed
  next
    case (At_write line)
    with st t x have "s' = goto t (At_read line (a_write a)) (append_file D t (take (a_write a) line) s)"
      by (simp add: server_thread_def)
    with At_write d t append_file_replay [OF d(3)] show ?thesis
      by (intro k [of _ "At_read line (a_write a)"]) (auto simp: simps own_newest_def)
  next
    case (At_read line n)
    let ?r = "read_back (a_seek a) (a_read a) (log_contents D (device s))"
    let ?x = "\<lparr>x_put = n, x_start = a_seek a, x_got = a_read a\<rparr>"
    from At_read st t x have "s' = goto t (At_close line ?x ?r) s" by (simp add: server_thread_def)
    moreover have "own_snapshot D d0 (logged s) t line ?x ?r"
      using d(2) At_read unfolding d(3) by (intro own_snapshot_now) (simp_all add: conn_ok_def)
    ultimately show ?thesis using At_read d t by (intro k [of _ "At_close line ?x ?r"]) (auto simp: simps)
  next
    case (At_close line y reply)
    let ?bs = "take (a_close a) (drop (x_put y) line)"
    from At_close st t x have s': "s' = goto t (At_unlock line y reply) (append_file D t ?bs s)"
      by (simp add: server_thread_def)
    have "own_snapshot D d0 (logged s @ lg) t line y reply" for lg
      using d(2) At_close by (intro own_snapshot_mono) (simp add: conn_ok_def)
    with s' At_close d t append_file_replay [OF d(3), of t ?bs] show ?thesis
      by (intro k [of _ "At_unlock line y reply"]) (simp_all add: simps)
  next
    case (At_unlock line y reply)
    let ?p = "if a_unlock a \<noteq> 0 then At_reunlock line y reply else At_send line y reply"
    from At_unlock st t x have "mtx s = Some t" "s' = goto t ?p (s\<lparr>mtx := (if a_unlock a = 0 then None else Some t)\<rparr>)"
      by (auto simp: server_thread_def res_bind_Inr_iff thread_unlock_ok)
    with At_unlock d t show ?thesis by (intro k [of _ ?p]) (auto simp: simps)
  next
    case (At_reunlock line y reply)
    then have c: "critical (conns s ! t)" by simp
    from At_reunlock st t x d(1) [OF c] show ?thesis
      by (intro k [of _ "if a_unlock a \<noteq> 0 \<and> retry s t < noOfRetries then At_reunlock line y reply else At_send line y reply"])
         (use At_reunlock d in \<open>auto simp: server_thread_def res_bind_Inr_iff thread_unlock_ok simps split: if_splits\<close>)
  next
    case (At_send line y reply)
    with st t x obtain out where "s' = goto t At_check (s\<lparr>sent := sent s @ [(t, out)]\<rparr>)"
      by (auto simp: server_thread_def send_buffer_def res_bind_Inr_iff)
    with At_send d t show ?thesis by (intro k [of _ At_check]) (auto simp: simps)
  next
    case (At_echo line)
    with st t x obtain out where "s' = goto t At_check (s\<lparr>sent := sent s @ [(t, out)]\<rparr>)"
      by (auto simp: server_thread_def send_buffer_def res_bind_Inr_iff)
    with At_echo d t show ?thesis by (intro k [of _ At_check]) (auto simp: simps)
  next
    case Finished
    with st t x show ?thesis by (simp add: server_thread_def)
  qed
qed

interpretation nm: invariant_machine "\<lambda>s. s = net_start d0" "net_step D csg" "net_inv D d0" for D csg d0
proof unfold_locales
  fix s :: "'a net" assume "s = net_start d0"
  then show "net_inv D d0 s" by (simp add: net_inv_def net_start_def replay_def)
next
  fix s s' assume inv: "net_inv D d0 s" and "net_step D csg s s'"
  from inv have c: "conn_ok D d0 s t" if "t < length (conns s)" for t using that by (simp add: net_inv_def)
  from \<open>net_step D csg s s'\<close> show "net_inv D d0 s'"
  proof (cases rule: net_step.cases)
    case (serve a t)
    from server_thread_inv [OF inv serve] show ?thesis .
  next
    case connect
    have "mtx s \<noteq> Some (length (conns s))" using inv by (auto simp: net_inv_def)
    then have new: "conn_ok D d0 s' (length (conns s))" using connect by (simp add: conn_ok_def)
    have "conn_ok D d0 s' t" if "t < length (conns s)" for t
      by (rule conn_ok_frame [OF _ _ _ _ _ c [OF that]]) (use connect that in \<open>simp_all add: nth_append\<close>)
    with new inv connect show ?thesis by (auto simp: net_inv_def less_Suc_eq)
  next
    case hand_over
    have "conn_ok D d0 s' t" if "t < length (conns s)" for t
      by (rule conn_ok_frame [OF _ _ _ _ _ c [OF that]]) (use hand_over in simp_all)
    with inv hand_over show ?thesis by (auto simp: net_inv_def)
  next
    case stop
    have "conn_ok D d0 s' t" if "t < length (conns s)" for t
      by (rule conn_ok_frame [OF _ _ _ _ _ c [OF that]]) (use stop in simp_all)
    with inv stop show ?thesis by (auto simp: net_inv_def)
  qed
qed

lemma line_of_framed:
  "length bs + 2 \<le> SERVER_MSG_LEN \<Longrightarrow> 0 \<notin> set bs \<Longrightarrow> line_of csg bs = Inr (framed csg bs)"
  using framed_length [of csg bs] framed_no_zero [of bs csg]
  by (simp add: line_of_def frame_message_framed c_string_received)

text \<open>Framing can only run over the end of a buffer.\<close>

lemma c_string_fault: "c_string bs = Inl f \<Longrightarrow> f = OutOfBounds"
  by (auto simp: c_string_def split: if_splits)

lemma frame_loop_fault: "frame_loop csg msg n fb i j = Inl f \<Longrightarrow> f = OutOfBounds"
proof (induction csg msg n fb i j rule: frame_loop.induct)
  case (1 csg msg n fb i j)
  from 1(2) show ?case
    by (subst (asm) frame_loop.simps)
       (auto simp: arr_read_def arr_write_def split: if_splits intro: 1(1))
qed

lemma line_of_fault: "line_of csg bs = Inl f \<Longrightarrow> f = OutOfBounds"
  by (auto simp: line_of_def frame_message_def frame_end_def arr_read_def arr_write_def res_bind_Inl_iff
      split: if_splits dest: c_string_fault frame_loop_fault)

subsection \<open>The retry loops as steps\<close>

lemma relock_run:
  assumes "retry_loop (\<lambda>i. a_lock (ans i)) noOfRetries (retry s t) n = (res, k', m)"
    and "t < length (conns s)" and "\<not> exited s" and "conns s ! t = At_relock line" and "mtx s = None" and "t < handed s"
  shows "run_thread D csg t (map ans [n..<m]) s = Some (Inr
    (if res = 0 then lock_taken t line s else goto t (At_echo line) (s\<lparr>retry := (retry s)(t := k')\<rparr>)))"
  using assms
proof (induction "\<lambda>i. a_lock (ans i)" noOfRetries "retry s t" n arbitrary: s rule: retry_loop.induct)
  case (1 n s)
  have "n < m" using 1(2) by (rule retry_loop_pos)
  then have up: "[n..<m] = n # [Suc n..<m]" by (rule upt_conv_Cons)
  show ?case
  proof (cases "a_lock (ans n) \<noteq> 0 \<and> retry s t < noOfRetries")
    case True
    let ?s = "goto t (At_relock line) (s\<lparr>retry := (retry s)(t := retry s t + 1)\<rparr>)"
    have k: "retry s t + 1 = retry ?s t" by (simp add: goto_def)
    have rec: "retry_loop (\<lambda>i. a_lock (ans i)) noOfRetries (retry ?s t) (Suc n) = (res, k', m)"
      using 1(2) True unfolding k [symmetric] by (simp add: retry_loop.simps [of _ _ "retry s t" n] Let_def)
    have "server_thread D csg (ans n) t s = Some (Inr ?s)"
      using True 1 by (simp add: server_thread_def thread_lock_def retry_again_def)
    moreover have "run_thread D csg t (map ans [Suc n..<m]) ?s = Some (Inr
        (if res = 0 then lock_taken t line ?s else goto t (At_echo line) (?s\<lparr>retry := (retry ?s)(t := k')\<rparr>)))"
      by (rule 1(1) [OF refl True k rec]) (use 1 in \<open>simp_all add: goto_def\<close>)
    ultimately show ?thesis by (simp add: up lock_taken_def goto_def)
  next
    case False
    with 1(2) have "m = Suc n" "res = a_lock (ans n)" "res \<noteq> 0 \<Longrightarrow> k' = retry s t + 1"
      by (auto simp: retry_loop.simps [of _ _ "retry s t" n] Let_def split: if_splits)
    with False 1 show ?thesis by (auto simp: server_thread_def thread_lock_def retry_again_def)
  qed
qed

lemma reunlock_run:
  assumes "retry_loop (\<lambda>i. a_unlock (ans i)) noOfRetries (retry s t) n = (res, k', m)"
    and "t < length (conns s)" and "\<not> exited s" and "conns s ! t = At_reunlock line x reply" and "mtx s = Some t"
    and "t < handed s"
  shows "run_thread D csg t (map ans [n..<m]) s = Some (Inr (goto t (At_send line x reply)
    (s\<lparr>mtx := (if res = 0 then None else Some t), retry := (retry s)(t := k'), gave_up := (gave_up s \<or> res \<noteq> 0)\<rparr>)))"
  using assms
proof (induction "\<lambda>i. a_unlock (ans i)" noOfRetries "retry s t" n arbitrary: s rule: retry_loop.induct)
  case (1 n s)
  have "n < m" using 1(2) by (rule retry_loop_pos)
  then have up: "[n..<m] = n # [Suc n..<m]" by (rule upt_conv_Cons)
  show ?case
  proof (cases "a_unlock (ans n) \<noteq> 0 \<and> retry s t < noOfRetries")
    case True
    let ?s = "goto t (At_reunlock line x reply) (s\<lparr>retry := (retry s)(t := retry s t + 1)\<rparr>)"
    have k: "retry s t + 1 = retry ?s t" by (simp add: goto_def)
    have rec: "retry_loop (\<lambda>i. a_unlock (ans i)) noOfRetries (retry ?s t) (Suc n) = (res, k', m)"
      using 1(2) True unfolding k [symmetric] by (simp add: retry_loop.simps [of _ _ "retry s t" n] Let_def)
    have "server_thread D csg (ans n) t s = Some (Inr ?s)"
      using True 1 by (simp add: server_thread_def thread_simps thread_unlock_def)
    moreover have "run_thread D csg t (map ans [Suc n..<m]) ?s = Some (Inr (goto t (At_send line x reply)
        (?s\<lparr>mtx := (if res = 0 then None else Some t), retry := (retry ?s)(t := k'), gave_up := (gave_up ?s \<or> res \<noteq> 0)\<rparr>)))"
      by (rule 1(1) [OF refl True k rec]) (use 1 in \<open>simp_all add: goto_def\<close>)
    ultimately show ?thesis by (simp add: up goto_def)
  next
    case False
    with 1(2) have "m = Suc n" "res = a_unlock (ans n)" "k' = (if res \<noteq> 0 then retry s t + 1 else retry s t)"
      by (auto simp: retry_loop.simps [of _ _ "retry s t" n] Let_def split: if_splits)
    with False 1 show ?thesis by (auto simp: server_thread_def thread_simps thread_unlock_def)
  qed
qed

lemma unlock_run:
  assumes "mutex_retry (\<lambda>i. a_unlock (ans i)) noOfRetries (retry s t) = (res, k', m)"
    and "t < length (conns s)" and "\<not> exited s" and "conns s ! t = At_unlock line x reply" and "mtx s = Some t"
    and "t < handed s"
  shows "run_thread D csg t (map ans [0..<m]) s = Some (Inr (goto t (At_send line x reply)
    (s\<lparr>mtx := (if res = 0 then None else Some t), retry := (retry s)(t := k'), gave_up := (gave_up s \<or> res \<noteq> 0)\<rparr>)))"
proof (cases "a_unlock (ans 0) = 0")
  case True
  with assms show ?thesis by (auto simp: mutex_retry_def server_thread_def thread_simps thread_unlock_def)
next
  case False
  with assms(1) have l: "retry_loop (\<lambda>i. a_unlock (ans i)) noOfRetries (retry s t) 1 = (res, k', m)"
    by (simp add: mutex_retry_def)
  let ?s = "goto t (At_reunlock line x reply) s"
  have "0 < m" using assms(1) by (rule mutex_retry_pos)
  then have "[0..<m] = 0 # [1..<m]" by (simp add: upt_conv_Cons)
  moreover have "server_thread D csg (ans 0) t s = Some (Inr ?s)"
    using False assms by (simp add: server_thread_def thread_simps thread_unlock_def)
  moreover have "retry ?s t = retry s t" by (simp add: goto_def)
  with reunlock_run [of ans ?s t 1 res k' m line x reply D csg] l assms(2,3,5,6)
  have "run_thread D csg t (map ans [1..<m]) ?s = Some (Inr (goto t (At_send line x reply)
      (?s\<lparr>mtx := (if res = 0 then None else Some t), retry := (retry s)(t := k'), gave_up := (gave_up s \<or> res \<noteq> 0)\<rparr>)))"
    by (simp add: goto_def)
  ultimately show ?thesis by (simp add: goto_def)
qed

subsection \<open>A mutex that is never released\<close>

lemma stuck_thread:
  assumes stuck: "stuck t lg s" and run: "\<not> terminate s" and st: "server_thread D csg a u s = Some (Inr s')"
  shows "stuck t lg s'"
proof -
  have u: "u < length (conns s)" and x: "\<not> exited s" using server_thread_live [OF st] by simp_all
  have m: "mtx s = Some t" and c: "\<not> critical (conns s ! u)" using stuck u by (simp_all add: stuck_def)
  have "\<exists>p. conns s' = (conns s)[u := p] \<and> \<not> critical p \<and> mtx s' = mtx s \<and> logged s' = logged s"
    using st u x run m c
    by (cases "conns s ! u")
       (auto simp: server_thread_def send_buffer_def retry_again_def goto_def thread_lock_ok res_bind_Inr_iff
         split: if_splits recv_result.splits)
  then obtain p where "conns s' = (conns s)[u := p]" "\<not> critical p" "mtx s' = mtx s" "logged s' = logged s" by blast
  moreover have "\<not> critical ((conns s)[u := p] ! v)" if "v < length (conns s)" for v
    using that stuck \<open>\<not> critical p\<close> by (cases "v = u") (simp_all add: stuck_def)
  ultimately show ?thesis using stuck by (simp add: stuck_def)
qed

interpretation lost: invariant_machine "stuck t lg" "net_step D csg" "\<lambda>s. \<not> terminate s \<longrightarrow> stuck t lg s" for D csg t lg
proof unfold_locales
  fix s s' assume inv: "\<not> terminate s \<longrightarrow> stuck t lg s" and "net_step D csg s s'"
  from this(2) show "\<not> terminate s' \<longrightarrow> stuck t lg s'"
  proof (cases rule: net_step.cases)
    case (serve a u)
    then have "terminate s' = terminate s"
      by (auto simp: server_thread_def thread_simps send_buffer_def res_bind_Inr_iff thread_lock_ok thread_unlock_ok
          split: if_splits tpos.splits recv_result.splits)
    with inv stuck_thread [OF _ _ serve] show ?thesis by blast
  next
    case connect
    with inv show ?thesis by (auto simp: stuck_def nth_append less_Suc_eq)
  next
    case hand_over
    with inv show ?thesis by (simp add: stuck_def)
  next
    case stop
    then show ?thesis by simp
  qed
qed simp

subsection \<open>Properties\<close>

text \<open>One connection, up to the point where it received \<open>a\<close>, on any file.\<close>

lemma reach_serve:
  "reach I (net_step D csg) s \<Longrightarrow> server_thread D csg a t s = Some (Inr s') \<Longrightarrow> reach I (net_step D csg) s'"
  by (blast intro: reach_step serve)

lemmas solo_simps = server_thread_def thread_simps lock_simps append_file_def read_back_def solo_def net_start_def
  works_def all_moved_def

lemma one_connection_reachable:
  "reach (\<lambda>s. s = net_start d) (net_step D csg) (solo At_check None d [])"
  "reach (\<lambda>s. s = net_start d) (net_step D csg) (solo (At_lock [97, LF]) None d [])"
proof -
  let ?R = "reach (\<lambda>s. s = net_start d) (net_step D csg)"
  let ?s = "(net_start d)\<lparr>conns := conns (net_start d) @ [At_start]\<rparr>"
  have "net_step D csg (net_start d) ?s" by (rule net_step.connect) (simp_all add: net_start_def)
  moreover have "?R (net_start d)" by (rule reach_init) simp
  ultimately have "?R ?s" by (rule reach_step [rotated])
  moreover have "net_step D csg ?s (?s\<lparr>handed := Suc (handed ?s)\<rparr>)"
    by (rule net_step.hand_over) (simp_all add: net_start_def)
  ultimately have "?R (?s\<lparr>handed := Suc (handed ?s)\<rparr>)" by (rule reach_step)
  then have "?R (solo At_start None d [])" by (simp add: solo_def net_start_def)
  then show c: "?R (solo At_check None d [])"
    by (rule reach_serve [where a = "works Closed" and t = 0]) (simp add: solo_simps)
  then have r: "?R (solo At_recv None d [])"
    by (rule reach_serve [where a = "works Closed" and t = 0]) (simp add: solo_simps)
  have "framed csg [97] = [97, LF]"
    using framed_line(3) [of "[97]" csg] by (simp add: stops_iff LF_def CR_def CRLF_def)
  then have "line_of csg [97] = Inr [97, LF]" by (subst line_of_framed) (simp_all add: SERVER_MSG_LEN_def)
  with r show "?R (solo (At_lock [97, LF]) None d [])"
    by (intro reach_serve [OF r, where a = "works (Got [97])" and t = 0]) (simp add: solo_simps SERVER_MSG_LEN_def)
qed

text \<open>The same connection at its unlock and at its reply.\<close>

lemma one_reply_reachable:
  fixes D :: "'d logdev"
  assumes "log_contents D (log_append D [97, LF] d) = [97, LF]"
  shows "reach (\<lambda>s. s = net_start d) (net_step D csg)
      (solo (At_unlock [97, LF] all_moved [97, LF]) (Some 0) (log_append D [97, LF] d) [(0, [97, LF])])"
    and "reach (\<lambda>s. s = net_start d) (net_step D csg)
      (solo (At_send [97, LF] all_moved [97, LF]) None (log_append D [97, LF] d) [(0, [97, LF])])"
proof -
  let ?l = "[97, LF]" and ?g = "[(0 :: nat, [97, LF])]" and ?d = "log_append D [97, LF] d" and ?x = all_moved
  let ?R = "reach (\<lambda>s. s = net_start d) (net_step D csg)"
  note go = reach_serve [where a = "works Closed" and t = 0]
  have "?R (solo (At_open ?l) (Some 0) d [])"
    by (rule go [OF one_connection_reachable(2)]) (simp add: solo_simps fun_upd_idem)
  then have "?R (solo (At_write ?l) (Some 0) d [])" by (rule go) (simp add: solo_simps)
  then have "?R (solo (At_read ?l SERVER_MSG_LEN) (Some 0) ?d ?g)"
    by (rule go) (simp add: solo_simps SERVER_MSG_LEN_def)
  then have "?R (solo (At_close ?l ?x ?l) (Some 0) ?d ?g)"
    by (rule go) (simp add: solo_simps assms SERVER_MSG_LEN_def)
  then show u: "?R (solo (At_unlock ?l ?x ?l) (Some 0) ?d ?g)"
    by (rule go) (simp add: solo_simps SERVER_MSG_LEN_def)
  then show "?R (solo (At_send ?l ?x ?l) None ?d ?g)" by (rule go) (simp add: solo_simps)
qed

lemma plain_reply: "log_contents plain_file (log_append plain_file [97, LF] []) = [97, LF]"
  by (simp add: plain_file_def)

text \<open>
  C6. The mutex protects the file: in every reachable state, for any file, any number of connections, any
  received data and any failing calls, at most one thread is between its lock and its unlock; it holds
  the mutex. The mutex is held only by such a thread, unless an unlock was given up. The only place
  where a thread can unlock a mutex it does not hold is the top of its loop, when it is asked to end.
\<close>

theorem server_mutual_exclusion:
  assumes "reach (\<lambda>s. s = net_start d0) (net_step D csg) s" and "t < length (conns s)" and "u < length (conns s)"
  shows "(critical (conns s ! t) \<longrightarrow> mtx s = Some t) \<and>
         (mtx s = Some t \<and> \<not> gave_up s \<longrightarrow> critical (conns s ! t)) \<and>
         (critical (conns s ! t) \<and> critical (conns s ! u) \<longrightarrow> t = u) \<and>
         (server_thread D csg a t s = Some (Inl ForeignUnlock) \<longrightarrow> terminate s \<and> conns s ! t = At_check)"
proof -
  from assms(1) have inv: "net_inv D d0 s" by (rule nm.reach_invar)
  note t = net_invD [OF inv assms(2)] and u = net_invD [OF inv assms(3)]
  from t(1) u(1) have "critical (conns s ! t) \<and> critical (conns s ! u) \<longrightarrow> t = u" by auto
  moreover have "terminate s \<and> conns s ! t = At_check" if "server_thread D csg a t s = Some (Inl ForeignUnlock)"
  proof (cases "critical (conns s ! t)")
    case True
    with t(1,5) that show ?thesis
      by (cases "conns s ! t") (auto simp: server_thread_def thread_unlock_def split: if_splits)
  next
    case False
    with that show ?thesis
      by (cases "conns s ! t")
         (auto simp: server_thread_def thread_lock_def thread_unlock_def send_buffer_def res_bind_Inl_iff
           split: if_splits recv_result.splits dest: line_of_fault c_string_fault)
  qed
  ultimately show ?thesis using t by blast
qed

theorem server_mutual_exclusion_witness:
  "\<exists>s. reach (\<lambda>s. s = net_start []) (net_step plain_file True) s \<and> critical (conns s ! 0) \<and> mtx s = Some 0"
proof -
  note r = one_reply_reachable(1) [OF plain_reply, of True]
  from server_mutual_exclusion [OF r, of 0 0] r show ?thesis
    by (intro exI conjI) (auto simp: solo_def net_start_def)
qed

text \<open>
  C5. A reply that was read back from the file ends the client's own transaction: when a thread is about
  to send it, there is a point of the history of appends at which the newest entry is what the thread
  wrote of its own line, if it wrote anything, and the reply is what reading the file exactly as it was
  then delivers. So no line of another client came between the append and the read, also when mutex or
  stream calls fail or the threads are asked to end. When the stream calls moved everything, the entry
  is the whole line and the reply the file from its start, cut at the buffer size. The file itself is
  always the result of the recorded history. The line that is sent back unlogged after a lock was
  given up is no such reply.
\<close>

theorem server_reply_snapshot:
  assumes "reach (\<lambda>s. s = net_start d0) (net_step D csg) s"
    and "t < length (conns s)" and "conns s ! t = At_send line x reply"
  shows "device s = replay D d0 (logged s) \<and>
         (\<exists>k \<le> length (logged s).
            (take (x_put x) line \<noteq> [] \<longrightarrow> 0 < k \<and> logged s ! (k - 1) = (t, take (x_put x) line)) \<and>
            reply = read_back (x_start x) (x_got x) (log_contents D (replay D d0 (take k (logged s))))) \<and>
         (whole line x \<longrightarrow> (\<exists>k < length (logged s). logged s ! k = (t, line) \<and>
            reply = take SERVER_MSG_LEN (log_contents D (replay D d0 (take (Suc k) (logged s))))))"
proof -
  from assms(1) have inv: "net_inv D d0 s" by (rule nm.reach_invar)
  from net_invD(2,3) [OF inv assms(2)] assms(3)
  have dev: "device s = replay D d0 (logged s)" and snap: "own_snapshot D d0 (logged s) t line x reply"
    by (simp_all add: conn_ok_def)
  from snap obtain k where k: "k \<le> length (logged s)" "own_newest (take k (logged s)) t (take (x_put x) line)"
    "reply = read_back (x_start x) (x_got x) (log_contents D (replay D d0 (take k (logged s))))"
    by (auto simp: own_snapshot_def)
  then have "0 < k \<and> logged s ! (k - 1) = (t, take (x_put x) line)" if "take (x_put x) line \<noteq> []"
    using that by (auto simp: own_newest_def last_conv_nth min_absorb2)
  with k own_snapshot_whole [OF snap] dev show ?thesis by blast
qed

theorem server_reply_snapshot_witness:
  "\<exists>s. reach (\<lambda>s. s = net_start []) (net_step plain_file True) s \<and> conns s = [At_send [97, LF] all_moved [97, LF]] \<and>
     logged s ! 0 = (0, [97, LF]) \<and> device s = replay plain_file [] (logged s)"
proof -
  note r = one_reply_reachable(2) [OF plain_reply, of True]
  from server_reply_snapshot [OF r, of 0] r show ?thesis
    by (intro exI conjI) (auto simp: solo_def net_start_def)
qed

text \<open>
  C18. No deadlock: in every reachable state in which the threads were not yet asked to end, the process
  has not exited and no unlock was given up, whatever the calls return, some connection thread can
  take a step if there is any connection.
\<close>

theorem server_no_deadlock:
  assumes "reach (\<lambda>s. s = net_start d0) (net_step D csg) s" and "\<not> terminate s" and "conns s \<noteq> []"
    and "\<not> exited s" and "\<not> gave_up s"
  shows "\<exists>t. server_thread D csg a t s \<noteq> None"
proof -
  from assms(1) have inv: "net_inv D d0 s" by (rule nm.reach_invar)
  have t: "0 < length (conns s)" using assms(3) by simp
  show ?thesis
  proof (cases "mtx s")
    case None
    have "conns s ! 0 \<noteq> Finished" using net_invD(2) [OF inv t] assms(5) by (simp add: conn_ok_def)
    with None t assms(4) have "server_thread D csg a 0 s \<noteq> None"
      by (cases "conns s ! 0") (simp_all add: server_thread_def thread_lock_def split: recv_result.split)
    then show ?thesis ..
  next
    case (Some u)
    with inv have u: "u < length (conns s)" by (simp add: net_inv_def)
    with net_invD(4) [OF inv u Some assms(5)] assms(4) have "server_thread D csg a u s \<noteq> None"
      by (cases "conns s ! u") (simp_all add: server_thread_def)
    then show ?thesis ..
  qed
qed

theorem server_no_deadlock_witness:
  "\<exists>t. server_thread plain_file True (works Closed) t (solo (At_lock [97, LF]) None [] []) \<noteq> None"
  using server_no_deadlock [OF one_connection_reachable(2) [of "[]" plain_file True], of "works Closed"]
  by (simp add: solo_def net_start_def)

text \<open>
  C19. No thread ends in defined behaviour: as long as no unlock was given up, no connection thread has
  ever ended, and in every reachable state in which the threads were asked to end, the next step of
  each thread at the top of its loop unlocks the mutex without holding it, which is undefined.
\<close>

theorem server_shutdown_undefined:
  assumes "reach (\<lambda>s. s = net_start d0) (net_step D csg) s" and "\<not> gave_up s" and "t < length (conns s)"
  shows "conns s ! t \<noteq> Finished \<and>
         (terminate s \<and> conns s ! t = At_check \<and> \<not> exited s \<longrightarrow>
            server_thread D csg a t s = Some (Inl ForeignUnlock))"
proof -
  from assms(1) have inv: "net_inv D d0 s" by (rule nm.reach_invar)
  note d = net_invD [OF inv assms(3)]
  have "mtx s \<noteq> Some t" if "conns s ! t = At_check" using d(4) assms(2) that by auto
  with d(2,6) assms(2,3) show ?thesis by (auto simp: conn_ok_def server_thread_def thread_unlock_def)
qed

theorem server_shutdown_undefined_witness:
  "\<exists>s. reach (\<lambda>s. s = net_start []) (net_step plain_file True) s \<and> conns s = [At_check] \<and>
     server_thread plain_file True (works Closed) 0 s = Some (Inl ForeignUnlock)"
proof -
  let ?s = "(solo At_check None [] [])\<lparr>terminate := True\<rparr>"
  have "net_step plain_file True (solo At_check None [] []) ?s"
    by (rule net_step.stop) (simp_all add: solo_def net_start_def)
  with one_connection_reachable(1) [of "[]" plain_file True]
  have r: "reach (\<lambda>s. s = net_start []) (net_step plain_file True) ?s" by (rule reach_step)
  from server_shutdown_undefined [OF r, of 0 "works Closed"] r show ?thesis
    by (intro exI [of _ ?s]) (simp add: solo_def net_start_def)
qed

text \<open>
  Sending: a string shorter than the buffer and without null bytes is sent unchanged. A reply that
  fills the buffer leaves no terminating null byte in it, and \<open>strlen\<close> reads past its end.
\<close>

lemma send_buffer_string:
  assumes "0 \<notin> set buf" and "length buf \<le> SERVER_MSG_LEN"
  shows "send_buffer t buf s =
         (if length buf < SERVER_MSG_LEN then Inr (goto t At_check (s\<lparr>sent := sent s @ [(t, buf)]\<rparr>))
          else Inl OutOfBounds)"
proof (cases "length buf < SERVER_MSG_LEN")
  case True
  with assms show ?thesis by (simp add: send_buffer_def c_string_received)
next
  case False
  with assms(2) have "received SERVER_MSG_LEN buf = buf" by (simp add: received_def)
  with assms False show ?thesis by (simp add: send_buffer_def c_string_def)
qed

text \<open>
  Closed and failed connections are served forever: when the peer has closed, a thread goes back to
  the top of its loop and, unless the threads are asked to end, to receiving again; nothing else
  changes and the socket is never closed. When \<open>recv\<close> fails the thread goes on as if an empty message
  had arrived and logs an empty line.
\<close>

lemma server_closed_and_error:
  assumes "t < length (conns s)" and "conns s ! t = At_recv" and "\<not> terminate s" and "\<not> exited s"
    and "a_recv a = Closed" and "a_recv b = RecvError"
  shows "server_thread D csg a t s = Some (Inr (goto t At_check s)) \<and>
         server_thread D csg a t (goto t At_check s) = Some (Inr s) \<and>
         server_thread D csg b t s = Some (Inr (goto t (At_lock [LF]) s))"
proof -
  have "line_of csg [] = Inr [LF]"
    using line_of_framed [of "[]" csg] by (simp add: SERVER_MSG_LEN_def framed_def)
  moreover have "(conns s)[t := At_recv] = conns s" using assms(1,2) by (metis list_update_id)
  ultimately show ?thesis using assms by (simp add: server_thread_def goto_def)
qed

text \<open>
  C20. The lock as the steps of a thread agrees with the loop as a function: when the mutex is free, a
  thread that is at its lock takes, over the results of the consecutive calls, exactly the steps of
  \<open>mutex_retry\<close>. It enters the critical section with the counter reset when the last call succeeded.
  When all calls failed it goes on without the file, and the next thing it does is to send the
  client's own line back, which was not logged. A thread that comes to its lock before its structure
  has the pointer to the mutex leaves defined behaviour there.
\<close>

theorem server_lock_retries:
  assumes "mutex_retry (\<lambda>i. a_lock (ans i)) noOfRetries (retry s t) = (res, k', m)"
    and "t < length (conns s)" and "\<not> exited s" and "conns s ! t = At_lock line" and "mtx s = None"
    and "0 \<notin> set line" and "length line < SERVER_MSG_LEN"
  shows "if t < handed s
         then \<exists>s'. run_thread D csg t (map ans [0..<m]) s = Some (Inr s') \<and>
           (res = 0 \<longrightarrow> s' = lock_taken t line s) \<and>
           (res \<noteq> 0 \<longrightarrow> s' = goto t (At_echo line) (s\<lparr>retry := (retry s)(t := k')\<rparr>) \<and>
              server_thread D csg b t s' = Some (Inr (goto t At_check (s'\<lparr>sent := sent s @ [(t, line)]\<rparr>))))
         else run_thread D csg t (map ans [0..<m]) s = Some (Inl UninitRead)"
proof (cases "t < handed s")
  case False
  have "0 < m" using assms(1) by (rule mutex_retry_pos)
  then have "[0..<m] = 0 # [1..<m]" by (simp add: upt_conv_Cons)
  with False assms(2-4) show ?thesis by (simp add: server_thread_def thread_lock_def)
next
  case True
  let ?r = "if res = 0 then lock_taken t line s else goto t (At_echo line) (s\<lparr>retry := (retry s)(t := k')\<rparr>)"
  have "run_thread D csg t (map ans [0..<m]) s = Some (Inr ?r)"
  proof (cases "a_lock (ans 0) = 0")
    case True
    with assms \<open>t < handed s\<close> show ?thesis by (auto simp: mutex_retry_def server_thread_def thread_lock_def)
  next
    case False
    with assms(1) have l: "retry_loop (\<lambda>i. a_lock (ans i)) noOfRetries (retry s t) 1 = (res, k', m)"
      by (simp add: mutex_retry_def)
    let ?s = "goto t (At_relock line) s"
    have "0 < m" using assms(1) by (rule mutex_retry_pos)
    then have "[0..<m] = 0 # [1..<m]" by (simp add: upt_conv_Cons)
    moreover have "server_thread D csg (ans 0) t s = Some (Inr ?s)"
      using False assms \<open>t < handed s\<close> by (simp add: server_thread_def thread_lock_def)
    moreover have "run_thread D csg t (map ans [1..<m]) ?s = Some (Inr
        (if res = 0 then lock_taken t line ?s else goto t (At_echo line) (?s\<lparr>retry := (retry ?s)(t := k')\<rparr>)))"
      by (rule relock_run) (use l assms \<open>t < handed s\<close> in \<open>simp_all add: goto_def\<close>)
    ultimately show ?thesis by (simp add: goto_def lock_taken_def)
  qed
  moreover have "server_thread D csg b t ?r = Some (Inr (goto t At_check (?r\<lparr>sent := sent s @ [(t, line)]\<rparr>)))"
    if "res \<noteq> 0"
    using that assms(2,3,6,7) by (simp add: server_thread_def send_buffer_string goto_def)
  ultimately show ?thesis using True by (simp add: exI [of _ ?r])
qed

theorem server_lock_retries_witness:
  "\<exists>m s'. run_thread plain_file True 0 (map (\<lambda>_. (works Closed)\<lparr>a_lock := 22\<rparr>) [0..<m]) (solo (At_lock [97, LF]) None [] []) =
     Some (Inr s') \<and> conns s' = [At_echo [97, LF]] \<and> logged s' = []"
proof -
  let ?ans = "\<lambda>_ :: nat. (works Closed)\<lparr>a_lock := 22\<rparr>" and ?s = "solo (At_lock [97, LF]) None [] [] :: byte list net"
  obtain res k' m where r: "mutex_retry (\<lambda>i. a_lock (?ans i)) noOfRetries (retry ?s 0) = (res, k', m)"
    by (metis prod_cases3)
  then have "res = 22" using mutex_retry_calls by fastforce
  with server_lock_retries [OF r, of "[97, LF]" plain_file True] show ?thesis
    by (intro exI [of _ m]) (auto simp: solo_def net_start_def goto_def SERVER_MSG_LEN_def)
qed

text \<open>
  C21. An unlock that is given up stops the server: when in a reachable state a thread is at its unlock
  and all its calls of \<open>pthread_mutex_unlock\<close> fail, it goes on to send the reply with the mutex
  still locked; and from there, until the threads are asked to end, in every continuation by any
  threads and new connections, the mutex stays locked and no line is ever logged again.
\<close>

theorem server_unlock_lost:
  assumes "reach (\<lambda>s. s = net_start d0) (net_step D csg) s" and "\<not> terminate s" and "\<not> exited s"
    and "t < length (conns s)" and "conns s ! t = At_unlock line x reply"
    and "mutex_retry (\<lambda>i. a_unlock (ans i)) noOfRetries (retry s t) = (res, k', m)" and "res \<noteq> 0"
  shows "\<exists>s'. run_thread D csg t (map ans [0..<m]) s = Some (Inr s') \<and> conns s' = (conns s)[t := At_send line x reply] \<and>
           mtx s' = Some t \<and>
           (\<forall>s''. reach (\<lambda>x. x = s') (net_step D csg) s'' \<longrightarrow> \<not> terminate s'' \<longrightarrow>
              mtx s'' = Some t \<and> logged s'' = logged s)"
proof -
  from assms(1) have inv: "net_inv D d0 s" by (rule nm.reach_invar)
  have m: "mtx s = Some t" using net_invD(1) [OF inv assms(4)] assms(5) by simp
  have h: "t < handed s" using net_invD(5) [OF inv assms(4)] assms(5) by simp
  let ?s = "goto t (At_send line x reply) (s\<lparr>mtx := Some t, retry := (retry s)(t := k'), gave_up := True\<rparr>)"
  have run: "run_thread D csg t (map ans [0..<m]) s = Some (Inr ?s)"
    using unlock_run [OF assms(6,4,3,5) m h] assms(7) m by simp
  have "\<not> critical ((conns s)[t := At_send line x reply] ! u)" if "u < length (conns s)" for u
    using net_invD(1) [OF inv that] m that by (cases "u = t") auto
  then have st: "stuck t (logged s) ?s" using m by (simp add: stuck_def goto_def)
  have "reach (stuck t (logged s)) (net_step D csg) s''" if "reach (\<lambda>x. x = ?s) (net_step D csg) s''" for s''
    using that by (induction rule: reach.induct) (auto intro: reach_init reach_step st)
  with lost.reach_invar have "stuck t (logged s) s''"
    if "reach (\<lambda>x. x = ?s) (net_step D csg) s''" "\<not> terminate s''" for s'' using that by blast
  with run show ?thesis by (intro exI [of _ ?s]) (auto simp: stuck_def goto_def)
qed

theorem server_unlock_lost_witness:
  "\<exists>m s'. run_thread plain_file True 0 (map (\<lambda>_. (works Closed)\<lparr>a_unlock := 1\<rparr>) [0..<m])
     (solo (At_unlock [97, LF] all_moved [97, LF]) (Some 0) (log_append plain_file [97, LF] []) [(0, [97, LF])]) = Some (Inr s') \<and>
     mtx s' = Some 0 \<and> conns s' = [At_send [97, LF] all_moved [97, LF]]"
proof -
  let ?ans = "\<lambda>_ :: nat. (works Closed)\<lparr>a_unlock := 1\<rparr>"
  let ?s = "solo (At_unlock [97, LF] all_moved [97, LF]) (Some 0) (log_append plain_file [97, LF] []) [(0, [97, LF])]"
  obtain res k' m where r: "mutex_retry (\<lambda>i. a_unlock (?ans i)) noOfRetries (retry ?s 0) = (res, k', m)"
    by (metis prod_cases3)
  then have "res = 1" using mutex_retry_calls by fastforce
  with server_unlock_lost [OF one_reply_reachable(1) [OF plain_reply, of True] _ _ _ _ r, of "[97, LF]" all_moved "[97, LF]"]
  show ?thesis by (intro exI [of _ m]) (auto simp: solo_def net_start_def)
qed

text \<open>
  A file that cannot be opened ends the process with the mutex held: the line is not logged and no
  thread takes another step.
\<close>

lemma server_fopen_failure:
  assumes "t < length (conns s)" and "\<not> exited s" and "conns s ! t = At_open line" and "\<not> a_fopen a"
  shows "server_thread D csg a t s = Some (Inr (s\<lparr>exited := True\<rparr>)) \<and>
         (\<forall>b u. server_thread D csg b u (s\<lparr>exited := True\<rparr>) = None)"
  using assms by (simp add: server_thread_def)

end
