(* ===== verification/Bounded_Log.thy ===== *)
theory Bounded_Log
  imports Aesd_Prelude
begin

section \<open>The interface of a bounded log\<close>

text \<open>
  What the driver relies on from the circular buffer: a container that keeps the newest
  \<open>limit\<close> elements in order of arrival. The contract is a locale over the operations and the
  abstraction to a list; its lemmas lift the contract from one addition to any sequence of them.
\<close>

definition push_bounded :: "nat \<Rightarrow> 'e list \<Rightarrow> 'e \<Rightarrow> 'e list" where
  "push_bounded limit xs x = drop (Suc (length xs) - limit) (xs @ [x])"

definition newest :: "nat \<Rightarrow> 'e list \<Rightarrow> 'e list" where
  "newest limit xs = drop (length xs - limit) xs"

primrec add_all :: "('b \<Rightarrow> 'e \<Rightarrow> 'b result) \<Rightarrow> 'b \<Rightarrow> 'e list \<Rightarrow> 'b result" where
  "add_all add b [] = Inr b"
| "add_all add b (e # es) = res_bind (add b e) (\<lambda>b'. add_all add b' es)"

lemma push_bounded_room: "length xs < limit \<Longrightarrow> push_bounded limit xs x = xs @ [x]"
  by (simp add: push_bounded_def)

lemma push_bounded_full: "length xs = limit \<Longrightarrow> 0 < limit \<Longrightarrow> push_bounded limit xs x = tl xs @ [x]"
  by (simp add: push_bounded_def drop_Suc)

lemma length_push_bounded:
  "length xs \<le> limit \<Longrightarrow> 0 < limit \<Longrightarrow> length (push_bounded limit xs x) = min (Suc (length xs)) limit"
  by (auto simp: push_bounded_def)

lemma push_bounded_newest:
  "length xs \<le> limit \<Longrightarrow> push_bounded limit xs x = newest limit (xs @ [x])"
  by (simp add: push_bounded_def newest_def)

lemma newest_id [simp]: "length xs \<le> limit \<Longrightarrow> newest limit xs = xs"
  by (simp add: newest_def)

lemma length_newest [simp]: "length (newest limit xs) = min (length xs) limit"
  by (auto simp: newest_def)

lemma newest_append_newest: "newest limit (newest limit xs @ ys) = newest limit (xs @ ys)"
proof (cases "length xs \<le> limit")
  case False
  then have "length (newest limit xs @ ys) - limit = length ys" by simp
  moreover have "length (xs @ ys) - limit = (length xs - limit) + length ys"
    using False by simp
  ultimately show ?thesis
    using False by (simp add: newest_def add.commute)
qed simp

lemma map_newest: "map f (newest limit xs) = newest limit (map f xs)"
  by (simp add: newest_def drop_map)

lemma map_push_bounded: "map f (push_bounded limit xs x) = push_bounded limit (map f xs) (f x)"
  by (simp only: push_bounded_def drop_map [symmetric] map_append list.map length_map)

lemma set_newest_subset: "set (newest limit xs) \<subseteq> set xs"
  by (simp add: newest_def set_drop_subset)

lemma last_newest: "0 < limit \<Longrightarrow> xs \<noteq> [] \<Longrightarrow> last (newest limit xs) = last xs"
  by (simp add: newest_def)

locale bounded_log =
  fixes emp :: 'b
    and add :: "'b \<Rightarrow> 'e \<Rightarrow> 'b result"
    and contents :: "'b \<Rightarrow> 'e list"
    and invar :: "'b \<Rightarrow> bool"
    and limit :: nat
  assumes limit_pos: "0 < limit"
    and invar_emp: "invar emp"
    and contents_emp: "contents emp = []"
    and contents_bound: "invar b \<Longrightarrow> length (contents b) \<le> limit"
    and add_spec: "invar b \<Longrightarrow>
      \<exists>b'. add b e = Inr b' \<and> invar b' \<and> contents b' = push_bounded limit (contents b) e"
begin

lemma add_all_spec:
  "invar b \<Longrightarrow>
     \<exists>b'. add_all add b es = Inr b' \<and> invar b' \<and> contents b' = newest limit (contents b @ es)"
proof (induction es arbitrary: b)
  case Nil
  then show ?case by (simp add: contents_bound)
next
  case (Cons e es)
  from add_spec [OF Cons.prems] obtain b1 where b1: "add b e = Inr b1" "invar b1"
    "contents b1 = push_bounded limit (contents b) e" by blast
  from Cons.IH [OF b1(2)] obtain b2 where b2: "add_all add b1 es = Inr b2" "invar b2"
    "contents b2 = newest limit (contents b1 @ es)" by blast
  have "contents b2 = newest limit (contents b @ e # es)"
    using b1(3) b2(3) contents_bound [OF Cons.prems]
    by (simp add: push_bounded_newest newest_append_newest)
  with b1 b2 show ?case by auto
qed

lemma add_all_from_emp:
  "\<exists>b'. add_all add emp es = Inr b' \<and> invar b' \<and> contents b' = newest limit es"
  using add_all_spec [OF invar_emp] by (simp add: contents_emp)

lemma add_all_order:
  assumes "add_all add emp es = Inr b" and "i < length (contents b)"
  shows "contents b ! i = es ! (length es - length (contents b) + i)"
proof -
  from add_all_from_emp [of es] assms(1) have c: "contents b = newest limit es" by auto
  have eq: "length es - min (length es) limit = length es - limit" by simp
  with assms(2) c show ?thesis by (auto simp: newest_def)
qed

end

end
