(* ===== verification/Circular_Buffer.thy ===== *)
theory Circular_Buffer
  imports Bounded_Log
begin

section \<open>The circular buffer of write commands\<close>

text \<open>
  Models \<^verbatim>\<open>aesd-char-driver/aesd-circular-buffer.h\<close> and
  \<^verbatim>\<open>aesd-char-driver/aesd-circular-buffer.c\<close>: a ring of ten entries, each the address and the
  size of one completed write command. The integer widths are those of the source: the offsets are
  \<^verbatim>\<open>uint8_t\<close>, sizes and positions are \<^verbatim>\<open>size_t\<close> (64 bits), and the counters of the search are
  \<^verbatim>\<open>unsigned int\<close> (32 bits), so the running total of the search is truncated to 32 bits as the
  compiled code truncates it. A pointer into the entry array is the index of the entry.
\<close>

subsection \<open>Data\<close>

definition AESDCHAR_MAX_WRITE_OPERATIONS_SUPPORTED :: u32 where
  "AESDCHAR_MAX_WRITE_OPERATIONS_SUPPORTED = 10"

record aesd_buffer_entry =
  buffptr :: addr
  esize :: u64

record aesd_circular_buffer =
  entry :: "aesd_buffer_entry list"
  in_offs :: u8
  out_offs :: u8
  full :: bool

subsection \<open>Operations\<close>

text \<open>
  The search loop. \<open>rtn\<close> is the value \<open>*entry_offset_byte_rtn\<close> holds when the loop is entered;
  the result pairs the returned entry (its index, \<open>None\<close> for \<open>NULL\<close>) with the final value of
  \<open>*entry_offset_byte_rtn\<close>.
\<close>

function find_entry_loop ::
    "aesd_circular_buffer \<Rightarrow> u64 \<Rightarrow> u64 \<Rightarrow> u32 \<Rightarrow> u32 \<Rightarrow> u32 \<Rightarrow> (nat option \<times> u64) result" where
  "find_entry_loop buffer char_offset rtn entry_size entry_counter total_char_size =
     (if entry_counter < entry_size then
        (let prev_char_size = total_char_size;
             ix = unat (entry_counter mod AESDCHAR_MAX_WRITE_OPERATIONS_SUPPORTED)
         in case arr_read (entry buffer) ix of
              Inl f \<Rightarrow> Inl f
            | Inr e \<Rightarrow>
                (let total_char_size' = ucast (ucast total_char_size + esize e)
                 in if char_offset < ucast total_char_size'
                    then Inr (Some ix, char_offset - ucast prev_char_size)
                    else find_entry_loop buffer char_offset rtn entry_size
                           (entry_counter + 1) total_char_size'))
      else Inr (None, rtn))"
  by pat_completeness auto
termination
  by (relation "measure (\<lambda>(b, c, r, n, i, t). unat n - unat i)")
     (auto simp: word_nat word_less_nat_alt)

text \<open>
  \<open>buffer\<close> is \<open>None\<close> for a null pointer. The initialiser \<open>entry_counter = buffer->out_offs\<close>
  runs before the null check of the source, so a null pointer is a fault here.
\<close>

definition aesd_circular_buffer_find_entry_offset_for_fpos ::
    "aesd_circular_buffer option \<Rightarrow> u64 \<Rightarrow> (nat option \<times> u64) result" where
  "aesd_circular_buffer_find_entry_offset_for_fpos buffer char_offset =
     (case buffer of
        None \<Rightarrow> Inl NullDeref
      | Some b \<Rightarrow>
          (let entry_counter = ucast (out_offs b);
               entry_offset_byte_rtn = - 1;
               entry_size = (if full b
                             then AESDCHAR_MAX_WRITE_OPERATIONS_SUPPORTED + ucast (in_offs b)
                             else ucast (in_offs b))
           in find_entry_loop b char_offset entry_offset_byte_rtn entry_size entry_counter 0))"

definition aesd_circular_buffer_add_entry ::
    "aesd_circular_buffer \<Rightarrow> aesd_buffer_entry \<Rightarrow> aesd_circular_buffer result" where
  "aesd_circular_buffer_add_entry buffer add_entry =
     res_bind (arr_write (entry buffer) (unat (in_offs buffer)) add_entry) (\<lambda>es.
       let b = buffer\<lparr>entry := es\<rparr>;
           b = (if full b
                then b\<lparr>out_offs := ucast ((ucast (out_offs b) + 1 :: u32)
                                     mod AESDCHAR_MAX_WRITE_OPERATIONS_SUPPORTED)\<rparr>
                else b)
       in Inr (if AESDCHAR_MAX_WRITE_OPERATIONS_SUPPORTED = ucast (in_offs b) + 1
               then b\<lparr>full := True, in_offs := 0\<rparr>
               else b\<lparr>in_offs := in_offs b + 1\<rparr>))"

definition aesd_circular_buffer_ref_buff :: "aesd_circular_buffer \<Rightarrow> addr result" where
  "aesd_circular_buffer_ref_buff buffer =
     res_bind (arr_read (entry buffer) (unat (in_offs buffer))) (\<lambda>e. Inr (buffptr e))"

definition aesd_circular_buffer_read_entry ::
    "aesd_circular_buffer option \<Rightarrow> u64 \<Rightarrow> nat option result" where
  "aesd_circular_buffer_read_entry buffer offset_byte =
     res_bind (aesd_circular_buffer_find_entry_offset_for_fpos buffer offset_byte)
       (\<lambda>(e, entry_offset_byte). Inr e)"

text \<open>\<open>memset(buffer, 0, sizeof *buffer)\<close>: ten null entries, both offsets 0, not full.\<close>

definition aesd_circular_buffer_init :: aesd_circular_buffer where
  "aesd_circular_buffer_init =
     \<lparr>entry = replicate (unat AESDCHAR_MAX_WRITE_OPERATIONS_SUPPORTED) \<lparr>buffptr = NULL, esize = 0\<rparr>,
      in_offs = 0, out_offs = 0, full = False\<rparr>"

text \<open>
  The iteration macro: \<open>index\<close> runs from 0 while it is below the capacity, and the body sees the
  entry at \<open>index\<close>.
\<close>

function foreach_from ::
    "(aesd_buffer_entry \<Rightarrow> 's \<Rightarrow> 's result) \<Rightarrow> aesd_circular_buffer \<Rightarrow> u8 \<Rightarrow> 's \<Rightarrow> 's result" where
  "foreach_from body buffer index s =
     (if ucast index < AESDCHAR_MAX_WRITE_OPERATIONS_SUPPORTED then
        (case arr_read (entry buffer) (unat index) of
           Inl f \<Rightarrow> Inl f
         | Inr e \<Rightarrow>
             (case body e s of
                Inl f \<Rightarrow> Inl f
              | Inr s' \<Rightarrow> foreach_from body buffer (index + 1) s'))
      else Inr s)"
  by pat_completeness auto
termination
proof (relation "measure (\<lambda>(f, b, i, s). 10 - unat i)", goal_cases)
  case (2 body buffer index s e s')
  then have "index < (10 :: u8)"
    by (simp add: AESDCHAR_MAX_WRITE_OPERATIONS_SUPPORTED_def word_less_nat_alt)
  then show ?case by (simp add: word_nat word_less_nat_alt)
qed simp

definition AESD_CIRCULAR_BUFFER_FOREACH ::
    "(aesd_buffer_entry \<Rightarrow> 's \<Rightarrow> 's result) \<Rightarrow> aesd_circular_buffer \<Rightarrow> 's \<Rightarrow> 's result" where
  "AESD_CIRCULAR_BUFFER_FOREACH body buffer s = foreach_from body buffer 0 s"

subsection \<open>Abstraction and invariant\<close>

abbreviation cap :: nat where
  "cap \<equiv> 10"

text \<open>
  The invariant between operations: the offsets stay inside the ten slots; the ring fills from
  slot 0, and once full it stays full with both offsets equal.
\<close>

definition cb_inv :: "aesd_circular_buffer \<Rightarrow> bool" where
  "cb_inv b \<longleftrightarrow>
     length (entry b) = cap \<and> unat (in_offs b) < cap \<and> unat (out_offs b) < cap \<and>
     (if full b then in_offs b = out_offs b else out_offs b = 0)"

text \<open>The stored commands, oldest first.\<close>

definition cb_contents :: "aesd_circular_buffer \<Rightarrow> aesd_buffer_entry list" where
  "cb_contents b =
     (if full b
      then drop (unat (out_offs b)) (entry b) @ take (unat (out_offs b)) (entry b)
      else take (unat (in_offs b)) (entry b))"

text \<open>
  Reference definition of the search over the sizes of a list of blocks: which block holds
  position \<open>n\<close> of their concatenation, and where in the block.
\<close>

fun locate :: "nat list \<Rightarrow> nat \<Rightarrow> (nat \<times> nat) option" where
  "locate [] n = None"
| "locate (s # ss) n =
     (if n < s then Some (0, n)
      else map_option (\<lambda>(i, k). (Suc i, k)) (locate ss (n - s)))"

text \<open>All stored commands joined end to end, for the contents \<open>mem\<close> of each command's memory.\<close>

definition stored_bytes :: "(addr \<Rightarrow> byte list) \<Rightarrow> aesd_circular_buffer \<Rightarrow> byte list" where
  "stored_bytes mem b = concat (map (\<lambda>e. mem (buffptr e)) (cb_contents b))"

definition entry_sizes :: "aesd_circular_buffer \<Rightarrow> nat list" where
  "entry_sizes b = map (\<lambda>e. unat (esize e)) (cb_contents b)"

text \<open>What the search returns for a reference result: an index into the ring and an offset.\<close>

definition located :: "nat \<Rightarrow> u64 \<Rightarrow> (nat \<times> nat) option \<Rightarrow> nat option \<times> u64" where
  "located start rtn r =
     (case r of None \<Rightarrow> (None, rtn) | Some (i, k) \<Rightarrow> (Some ((start + i) mod cap), of_nat k))"

text \<open>The iteration macro's reference: the body folded over a list of entries.\<close>

primrec fold_entries :: "('e \<Rightarrow> 's \<Rightarrow> 's result) \<Rightarrow> 'e list \<Rightarrow> 's \<Rightarrow> 's result" where
  "fold_entries body [] s = Inr s"
| "fold_entries body (e # es) s = res_bind (body e s) (fold_entries body es)"

text \<open>Concrete rings the witnesses evaluate.\<close>

definition sample_ring :: aesd_circular_buffer where
  "sample_ring = aesd_circular_buffer_init
     \<lparr>entry := [\<lparr>buffptr = 100, esize = 2\<rparr>, \<lparr>buffptr = 200, esize = 3\<rparr>]
        @ replicate 8 \<lparr>buffptr = NULL, esize = 0\<rparr>, in_offs := 2\<rparr>"

definition sample_mem :: "addr \<Rightarrow> byte list" where
  "sample_mem p = (if p = 100 then [97, 10] else if p = 200 then [98, 99, 10] else [])"

declare find_entry_loop.simps [simp del]
declare foreach_from.simps [simp del]

lemmas cap_def = AESDCHAR_MAX_WRITE_OPERATIONS_SUPPORTED_def

subsection \<open>The ring as a list\<close>

lemma length_cb_contents:
  "cb_inv b \<Longrightarrow> length (cb_contents b) = (if full b then cap else unat (in_offs b))"
  by (auto simp: cb_inv_def cb_contents_def)

lemma cb_contents_bound: "cb_inv b \<Longrightarrow> length (cb_contents b) \<le> cap"
  by (auto simp: length_cb_contents) (simp add: cb_inv_def)

lemma ring_slice:
  assumes "length xs = n" and "k < n"
  shows "map (\<lambda>j. xs ! (j mod n)) [k ..< n + k] = drop k xs @ take k xs"
proof (rule nth_equalityI)
  fix i assume i: "i < length (map (\<lambda>j. xs ! (j mod n)) [k ..< n + k])"
  show "map (\<lambda>j. xs ! (j mod n)) [k ..< n + k] ! i = (drop k xs @ take k xs) ! i"
  proof (cases "k + i < n")
    case True
    then have "i < n - k" by simp
    with True i assms show ?thesis by (simp add: nth_append)
  next
    case False
    with i assms have "(k + i) mod n = k + i - n" by (simp add: mod_if)
    moreover have "\<not> i < n - k" using False by simp
    ultimately show ?thesis using i assms by (simp add: nth_append add.commute)
  qed
qed (use assms in simp)

lemma prefix_slice:
  "k \<le> n \<Longrightarrow> length xs = n \<Longrightarrow> map (\<lambda>j. xs ! (j mod n)) [0 ..< k] = take k xs"
  by (auto intro!: nth_equalityI)

lemma cb_inv_init: "cb_inv aesd_circular_buffer_init"
  by (simp add: cb_inv_def aesd_circular_buffer_init_def cap_def)

lemma cb_contents_init: "cb_contents aesd_circular_buffer_init = []"
  by (simp add: cb_contents_def aesd_circular_buffer_init_def)

subsection \<open>Adding an entry\<close>

lemma add_entry_not_full:
  assumes inv: "cb_inv b" and nf: "\<not> full b"
  shows "\<exists>b'. aesd_circular_buffer_add_entry b e = Inr b' \<and> cb_inv b' \<and>
           cb_contents b' = cb_contents b @ [e]"
proof -
  let ?k = "unat (in_offs b)"
  from inv have k: "?k < cap" "length (entry b) = cap" by (auto simp: cb_inv_def)
  have nxt: "unat (ucast (in_offs b) + 1 :: u32) = Suc ?k"
    using k by (simp add: word_nat)
  have tk: "take (Suc ?k) ((entry b)[?k := e]) = take ?k (entry b) @ [e]"
    using k by (simp add: take_Suc_conv_app_nth)
  show ?thesis
  proof (cases "?k = 9")
    case True
    then have wrap: "AESDCHAR_MAX_WRITE_OPERATIONS_SUPPORTED = ucast (in_offs b) + 1"
      using nxt by (simp add: cap_def word_unat_eq_iff)
    have "(entry b)[?k := e] = take ?k (entry b) @ [e]"
      using tk True k by simp
    with wrap k nf inv True show ?thesis
      by (simp add: aesd_circular_buffer_add_entry_def cb_inv_def cb_contents_def Let_def)
  next
    case False
    then have nowrap: "AESDCHAR_MAX_WRITE_OPERATIONS_SUPPORTED \<noteq> ucast (in_offs b) + 1"
      using nxt k by (simp add: cap_def word_unat_eq_iff)
    have inc: "unat (in_offs b + 1) = Suc ?k" using k by (simp add: word_nat)
    from nowrap inc tk k nf inv False show ?thesis
      by (simp add: aesd_circular_buffer_add_entry_def cb_inv_def cb_contents_def Let_def)
  qed
qed

lemma add_entry_full:
  assumes inv: "cb_inv b" and fl: "full b"
  shows "\<exists>b'. aesd_circular_buffer_add_entry b e = Inr b' \<and> cb_inv b' \<and> full b' \<and>
           cb_contents b' = tl (cb_contents b) @ [e]"
proof -
  let ?k = "unat (out_offs b)"
  from inv fl have k: "?k < cap" "length (entry b) = cap" "in_offs b = out_offs b"
    by (auto simp: cb_inv_def)
  have nxt: "unat (ucast (out_offs b) + 1 :: u32) = Suc ?k"
    using k by (simp add: word_nat)
  have upd: "(entry b)[?k := e] = take ?k (entry b) @ e # drop (Suc ?k) (entry b)"
    using k by (simp add: upd_conv_take_nth_drop)
  have hd: "drop ?k (entry b) = entry b ! ?k # drop (Suc ?k) (entry b)"
    using k by (simp add: Cons_nth_drop_Suc)
  have outs: "unat (ucast ((ucast (out_offs b) + 1 :: u32)
      mod AESDCHAR_MAX_WRITE_OPERATIONS_SUPPORTED) :: u8) = Suc ?k mod cap"
    using nxt by (simp add: cap_def unat_mod_distrib unat_ucast_down)
  show ?thesis
  proof (cases "?k = 9")
    case True
    then have wrap: "AESDCHAR_MAX_WRITE_OPERATIONS_SUPPORTED = ucast (out_offs b) + 1"
      using nxt by (simp add: cap_def word_unat_eq_iff)
    have z: "ucast ((ucast (out_offs b) + 1 :: u32)
        mod AESDCHAR_MAX_WRITE_OPERATIONS_SUPPORTED) = (0 :: u8)"
      using outs True by (simp add: word_unat_eq_iff)
    with wrap k fl True upd hd show ?thesis
      by (simp add: aesd_circular_buffer_add_entry_def cb_inv_def cb_contents_def Let_def)
  next
    case False
    then have nowrap: "AESDCHAR_MAX_WRITE_OPERATIONS_SUPPORTED \<noteq> ucast (out_offs b) + 1"
      using nxt k by (simp add: cap_def word_unat_eq_iff)
    have inc: "unat (out_offs b + 1) = Suc ?k" using k by (simp add: word_nat)
    have o': "ucast ((ucast (out_offs b) + 1 :: u32)
        mod AESDCHAR_MAX_WRITE_OPERATIONS_SUPPORTED) = out_offs b + 1"
      using outs inc False k by (simp add: word_unat_eq_iff)
    from nowrap inc o' upd hd k fl False show ?thesis
      by (simp add: aesd_circular_buffer_add_entry_def cb_inv_def cb_contents_def Let_def)
  qed
qed

lemma add_entry_slots:
  assumes "cb_inv b" and "aesd_circular_buffer_add_entry b e = Inr b'" and "\<not> full b'"
  shows "unat (in_offs b') = Suc (unat (in_offs b))" and "entry b' = (entry b)[unat (in_offs b) := e]"
    and "\<not> full b"
proof -
  from assms(1) have k: "unat (in_offs b) < cap" "length (entry b) = cap" by (auto simp: cb_inv_def)
  then have inc: "unat (in_offs b + 1) = Suc (unat (in_offs b))" by (simp add: word_nat)
  from assms k inc
  show "unat (in_offs b') = Suc (unat (in_offs b))" "entry b' = (entry b)[unat (in_offs b) := e]"
    "\<not> full b"
    by (auto simp: aesd_circular_buffer_add_entry_def Let_def split: if_splits)
qed

lemma add_entry_refines:
  assumes "cb_inv b"
  shows "\<exists>b'. aesd_circular_buffer_add_entry b e = Inr b' \<and> cb_inv b' \<and>
           cb_contents b' = push_bounded cap (cb_contents b) e"
proof (cases "full b")
  case True
  with assms have "length (cb_contents b) = cap" by (simp add: length_cb_contents)
  with add_entry_full [OF assms True, of e] show ?thesis by (auto simp: push_bounded_full)
next
  case False
  with assms have "length (cb_contents b) < cap"
    by (simp add: length_cb_contents) (simp add: cb_inv_def)
  with add_entry_not_full [OF assms False, of e] show ?thesis by (auto simp: push_bounded_room)
qed

interpretation ring: bounded_log aesd_circular_buffer_init aesd_circular_buffer_add_entry
  cb_contents cb_inv cap
  by unfold_locales
     (simp_all add: cb_inv_init cb_contents_init cb_contents_bound add_entry_refines)

subsection \<open>The reference search\<close>

lemma locate_None_iff: "locate ss n = None \<longleftrightarrow> sum_list ss \<le> n"
  by (induction ss n rule: locate.induct) auto

lemma locate_Some_bounds: "locate ss n = Some (i, k) \<Longrightarrow> i < length ss \<and> k < ss ! i \<and> k \<le> n"
  by (induction ss n arbitrary: i k rule: locate.induct) (fastforce split: if_splits)+

lemma locate_Some_prefix: "locate ss n = Some (i, k) \<Longrightarrow> n = sum_list (take i ss) + k"
  by (induction ss n arbitrary: i k rule: locate.induct) (fastforce split: if_splits)+

lemma locate_concat:
  "locate (map length xss) n = Some (i, k) \<Longrightarrow> concat xss ! n = xss ! i ! k"
proof (induction xss arbitrary: n i)
  case (Cons xs xss)
  show ?case
  proof (cases "n < length xs")
    case True
    with Cons.prems show ?thesis by (simp add: nth_append)
  next
    case False
    with Cons.prems obtain j where "locate (map length xss) (n - length xs) = Some (j, k)"
      and "i = Suc j" by auto
    with Cons.IH False show ?thesis by (simp add: nth_append)
  qed
qed simp

subsection \<open>The search of the code\<close>

lemma unat_char_size:
  assumes "unat t + unat z < 2 ^ 32"
  shows "unat (ucast (ucast (t :: u32) + (z :: u64)) :: u32) = unat t + unat z"
proof -
  have "unat (ucast t + z) = unat t + unat z"
    using assms by (simp add: word_nat)
  with assms show ?thesis by (simp add: unat_ucast_down)
qed

lemma find_entry_loop_locate:
  assumes "length (entry b) = cap" and "t \<le> unat off"
    and "t + sum_list (map (\<lambda>j. unat (esize (entry b ! (j mod cap)))) [unat c ..< unat n]) < 2 ^ 32"
    and "unat tw = t"
  shows "find_entry_loop b off rtn n c tw =
           Inr (located (unat c) rtn
             (locate (map (\<lambda>j. unat (esize (entry b ! (j mod cap)))) [unat c ..< unat n])
                (unat off - t)))"
  using assms
proof (induction b off rtn n c tw arbitrary: t rule: find_entry_loop.induct)
  case (1 b off rtn n c tw)
  let ?sz = "\<lambda>j. unat (esize (entry b ! (j mod cap)))"
  let ?ss = "\<lambda>k. map ?sz [k ..< unat n]"
  have ix: "unat (c mod AESDCHAR_MAX_WRITE_OPERATIONS_SUPPORTED) = unat c mod cap"
    by (simp add: cap_def unat_mod_distrib)
  show ?case
  proof (cases "c < n")
    case False
    then have "unat n \<le> unat c" by (simp add: word_less_nat_alt)
    with False show ?thesis by (simp add: find_entry_loop.simps located_def)
  next
    case True
    then have lt: "unat c < unat n" by (simp add: word_less_nat_alt)
    then have ss: "?ss (unat c) = ?sz (unat c) # ?ss (Suc (unat c))"
      by (simp add: upt_conv_Cons)
    let ?e = "entry b ! (unat c mod cap)"
    let ?t' = "ucast (ucast tw + esize ?e) :: u32"
    have t': "unat ?t' = t + ?sz (unat c)"
      using "1.prems"(3,4) ss by (simp add: unat_char_size)
    have rd: "arr_read (entry b) (unat c mod cap) = Inr ?e"
      using "1.prems"(1) by simp
    have step: "find_entry_loop b off rtn n c tw =
      (if off < ucast ?t' then Inr (Some (unat c mod cap), off - ucast tw)
       else find_entry_loop b off rtn n (c + 1) ?t')"
      using True rd by (subst find_entry_loop.simps) (simp add: ix Let_def)
    show ?thesis
    proof (cases "off < ucast ?t'")
      case hit: True
      then have "unat off - t < ?sz (unat c)"
        using t' "1.prems"(2) by (simp add: word_less_nat_alt)
      moreover have "off - ucast tw = of_nat (unat off - t)"
        using "1.prems"(2,4) by (intro word_eq_of_natI) (simp add: word_nat)
      ultimately show ?thesis using hit by (simp add: step ss located_def)
    next
      case miss: False
      then have ge: "t + ?sz (unat c) \<le> unat off"
        using t' by (simp add: word_less_nat_alt)
      have suc: "unat (c + 1) = Suc (unat c)" using True by (rule unat_inc)
      have "find_entry_loop b off rtn n (c + 1) ?t' =
        Inr (located (unat (c + 1)) rtn (locate (?ss (unat (c + 1))) (unat off - (t + ?sz (unat c)))))"
        using True rd miss "1.prems"(1,3) ge ss t'
        by (intro "1.IH" [OF True refl refl, of ?e]) (simp_all add: ix suc)
      with miss ge show ?thesis
        by (auto simp: step ss suc located_def split: option.splits)
    qed
  qed
qed

lemma entry_sizes_ring:
  assumes "cb_inv b"
  shows "entry_sizes b =
           map (\<lambda>j. unat (esize (entry b ! (j mod cap))))
             [unat (out_offs b) ..< (if full b then cap + unat (out_offs b) else unat (in_offs b))]"
proof -
  have "cb_contents b = map (\<lambda>j. entry b ! (j mod cap))
      [unat (out_offs b) ..< (if full b then cap + unat (out_offs b) else unat (in_offs b))]"
    using assms by (auto simp: cb_contents_def cb_inv_def ring_slice prefix_slice)
  then show ?thesis by (simp add: entry_sizes_def)
qed

lemma find_entry_locate:
  assumes inv: "cb_inv b" and small: "sum_list (entry_sizes b) < 2 ^ 32"
  shows "aesd_circular_buffer_find_entry_offset_for_fpos (Some b) off =
           Inr (located (unat (out_offs b)) (- 1) (locate (entry_sizes b) (unat off)))"
proof -
  let ?n = "if full b then AESDCHAR_MAX_WRITE_OPERATIONS_SUPPORTED + ucast (in_offs b)
            else ucast (in_offs b) :: u32"
  have n: "unat ?n = (if full b then cap + unat (out_offs b) else unat (in_offs b))"
    using inv by (simp add: cap_def cb_inv_def word_nat)
  have "find_entry_loop b off (- 1) ?n (ucast (out_offs b)) 0 =
      Inr (located (unat (ucast (out_offs b) :: u32)) (- 1)
        (locate (map (\<lambda>j. unat (esize (entry b ! (j mod cap))))
            [unat (ucast (out_offs b) :: u32) ..< unat ?n]) (unat off - 0)))"
    using inv small entry_sizes_ring [OF inv]
    by (intro find_entry_loop_locate) (simp_all only: n, simp_all add: cb_inv_def)
  then show ?thesis
    unfolding aesd_circular_buffer_find_entry_offset_for_fpos_def
    by (simp add: Let_def n entry_sizes_ring [OF inv])
qed

lemma cb_contents_nth:
  assumes "cb_inv b" and "i < length (cb_contents b)"
  shows "cb_contents b ! i = entry b ! ((unat (out_offs b) + i) mod cap)"
proof (cases "full b")
  case True
  with assms have "cb_contents b = map (\<lambda>j. entry b ! (j mod cap))
      [unat (out_offs b) ..< cap + unat (out_offs b)]"
    by (simp add: cb_contents_def cb_inv_def ring_slice)
  with assms True show ?thesis by (simp add: length_cb_contents)
next
  case False
  with assms have "i < unat (in_offs b)" "unat (in_offs b) < cap" "out_offs b = 0"
    by (auto simp: length_cb_contents cb_inv_def)
  with False show ?thesis by (simp add: cb_contents_def)
qed

lemma located_in_range:
  assumes "cb_inv b" and "locate (entry_sizes b) n = Some (i, k)"
  shows "i < length (cb_contents b)"
    and "entry b ! ((unat (out_offs b) + i) mod cap) = cb_contents b ! i"
    and "k < unat (esize (cb_contents b ! i))"
    and "(unat (out_offs b) + i) mod cap < length (entry b)"
proof -
  from locate_Some_bounds [OF assms(2)]
  show i: "i < length (cb_contents b)" by (simp add: entry_sizes_def)
  show "entry b ! ((unat (out_offs b) + i) mod cap) = cb_contents b ! i"
    using cb_contents_nth [OF assms(1) i] by simp
  show "k < unat (esize (cb_contents b ! i))"
    using locate_Some_bounds [OF assms(2)] i by (simp add: entry_sizes_def)
  show "(unat (out_offs b) + i) mod cap < length (entry b)"
    using assms(1) by (simp add: cb_inv_def)
qed

subsection \<open>The iteration macro\<close>

lemma foreach_from_fold:
  assumes "length (entry b) = cap" and "unat i \<le> cap"
  shows "foreach_from body b i s = fold_entries body (drop (unat i) (entry b)) s"
  using assms
proof (induction body b i s rule: foreach_from.induct)
  case (1 body b i s)
  show ?case
  proof (cases "unat i < cap")
    case True
    then have g: "ucast i < AESDCHAR_MAX_WRITE_OPERATIONS_SUPPORTED"
      by (simp add: cap_def word_less_nat_alt)
    have suc: "unat (i + 1) = Suc (unat i)" using True by (simp add: word_nat)
    have rd: "arr_read (entry b) (unat i) = Inr (entry b ! unat i)"
      using True "1.prems"(1) by simp
    have dr: "drop (unat i) (entry b) = entry b ! unat i # drop (Suc (unat i)) (entry b)"
      using True "1.prems"(1) by (simp add: Cons_nth_drop_Suc)
    show ?thesis
    proof (cases "body (entry b ! unat i) s")
      case (Inl f)
      with g rd dr show ?thesis by (simp add: foreach_from.simps)
    next
      case (Inr s')
      with "1.IH" [OF g rd Inr] "1.prems" True suc
      have "foreach_from body b (i + 1) s' = fold_entries body (drop (Suc (unat i)) (entry b)) s'"
        by simp
      with Inr g rd dr show ?thesis by (simp add: foreach_from.simps)
    qed
  next
    case False
    with "1.prems" have "\<not> ucast i < AESDCHAR_MAX_WRITE_OPERATIONS_SUPPORTED"
      and "drop (unat i) (entry b) = []"
      by (simp_all add: cap_def word_less_nat_alt)
    then show ?thesis by (simp add: foreach_from.simps)
  qed
qed

lemma FOREACH_fold:
  "length (entry b) = cap \<Longrightarrow> AESD_CIRCULAR_BUFFER_FOREACH body b s = fold_entries body (entry b) s"
  by (simp add: AESD_CIRCULAR_BUFFER_FOREACH_def foreach_from_fold)

subsection \<open>Properties\<close>

lemma entry_sizes_mem:
  "\<forall>e \<in> set (cb_contents b). length (mem (buffptr e)) = unat (esize e) \<Longrightarrow>
     entry_sizes b = map length (map (\<lambda>e. mem (buffptr e)) (cb_contents b))"
  by (simp add: entry_sizes_def)

text \<open>
  C9. The search finds every stored position: in a well-formed ring whose commands total less than
  4 GiB, the search for position \<open>off\<close> of the concatenated commands returns the entry and the
  offset in it that hold exactly that byte, and returns \<open>NULL\<close> (leaving \<open>(size_t) -1\<close> in the
  offset) just when the position is past the end. It never faults.
\<close>

theorem find_fpos_correct:
  assumes "cb_inv b"
    and "\<forall>e \<in> set (cb_contents b). length (mem (buffptr e)) = unat (esize e)"
    and "length (stored_bytes mem b) < 2 ^ 32"
  shows "if unat off < length (stored_bytes mem b)
         then \<exists>ix k. aesd_circular_buffer_find_entry_offset_for_fpos (Some b) off = Inr (Some ix, k)
                \<and> ix < length (entry b) \<and> entry b ! ix \<in> set (cb_contents b)
                \<and> unat k < unat (esize (entry b ! ix))
                \<and> mem (buffptr (entry b ! ix)) ! unat k = stored_bytes mem b ! unat off
         else aesd_circular_buffer_find_entry_offset_for_fpos (Some b) off = Inr (None, - 1)"
proof -
  let ?blocks = "map (\<lambda>e. mem (buffptr e)) (cb_contents b)"
  have sz: "entry_sizes b = map length ?blocks" using assms(2) by (rule entry_sizes_mem)
  have len: "sum_list (entry_sizes b) = length (stored_bytes mem b)"
    unfolding sz stored_bytes_def by (rule sum_list_append_concat)
  have find: "aesd_circular_buffer_find_entry_offset_for_fpos (Some b) off =
      Inr (located (unat (out_offs b)) (- 1) (locate (entry_sizes b) (unat off)))"
    using assms(1,3) len by (simp add: find_entry_locate)
  show ?thesis
  proof (cases "locate (entry_sizes b) (unat off)")
    case None
    with len have "\<not> unat off < length (stored_bytes mem b)" by (simp add: locate_None_iff)
    with find None show ?thesis by (simp add: located_def)
  next
    case (Some r)
    then obtain i k where loc: "locate (entry_sizes b) (unat off) = Some (i, k)" by (cases r) auto
    then have lt: "unat off < length (stored_bytes mem b)"
      using len locate_None_iff [of "entry_sizes b" "unat off"] by simp
    note rng = located_in_range [OF assms(1) loc]
    have "k < 2 ^ 64" using rng(3) unat_less_64 [of "esize (cb_contents b ! i)"] by linarith
    then have k: "unat (of_nat k :: u64) = k" by (simp add: word_nat)
    have "concat ?blocks ! unat off = ?blocks ! i ! k"
      using loc unfolding sz by (rule locate_concat)
    then have "stored_bytes mem b ! unat off = mem (buffptr (cb_contents b ! i)) ! k"
      using rng(1) by (simp add: stored_bytes_def)
    with find loc lt rng k show ?thesis by (auto simp: located_def)
  qed
qed

lemma sample_ring_facts:
  "cb_inv sample_ring"
  "\<forall>e \<in> set (cb_contents sample_ring). length (sample_mem (buffptr e)) = unat (esize e)"
  "stored_bytes sample_mem sample_ring = [97, 10, 98, 99, 10]"
  by (simp_all add: sample_ring_def aesd_circular_buffer_init_def cb_inv_def cb_contents_def
      stored_bytes_def sample_mem_def)

theorem find_fpos_correct_witness:
  "\<exists>ix k. aesd_circular_buffer_find_entry_offset_for_fpos (Some sample_ring) 3 = Inr (Some ix, k)
     \<and> sample_mem (buffptr (entry sample_ring ! ix)) ! unat k = 99"
  using find_fpos_correct [OF sample_ring_facts(1,2), of 3] sample_ring_facts(3)
  by auto

text \<open>
  C10. The ring keeps exactly the newest ten commands in order: adding any sequence of entries to
  a freshly initialised ring never faults, keeps the invariant, and leaves the last ten entries of
  the sequence, oldest first.
\<close>

theorem ring_keeps_newest:
  "\<exists>b. add_all aesd_circular_buffer_add_entry aesd_circular_buffer_init es = Inr b \<and> cb_inv b \<and>
     cb_contents b = newest cap es"
  by (rule ring.add_all_from_emp)

lemma ref_buff_oldest:
  assumes "cb_inv b" and "full b"
  shows "aesd_circular_buffer_ref_buff b = Inr (buffptr (hd (cb_contents b)))"
proof -
  from assms have "drop (unat (out_offs b)) (entry b) \<noteq> []" "in_offs b = out_offs b"
    "unat (out_offs b) < length (entry b)"
    by (auto simp: cb_inv_def)
  with assms(2) show ?thesis
    by (simp add: aesd_circular_buffer_ref_buff_def cb_contents_def hd_drop_conv_nth)
qed

text \<open>
  Evicting is safe to free first: in a full ring, \<open>aesd_circular_buffer_ref_buff\<close> returns the
  memory of the oldest command, and the next \<open>aesd_circular_buffer_add_entry\<close> drops exactly that
  command and keeps the other nine.
\<close>

lemma ref_buff_is_evicted:
  assumes "cb_inv b" and "full b"
  shows "aesd_circular_buffer_ref_buff b = Inr (buffptr (hd (cb_contents b))) \<and>
         (\<exists>b'. aesd_circular_buffer_add_entry b e = Inr b' \<and> full b' \<and>
            cb_contents b' = tl (cb_contents b) @ [e])"
  using ref_buff_oldest [OF assms] add_entry_full [OF assms, of e] by auto

text \<open>
  The 32-bit running total loses large commands: in a ring holding one command of size \<open>z\<close>,
  a position is found exactly when it is below \<open>z\<close> modulo \<open>2 ^ 32\<close>, so a command of
  4 GiB or more has stored bytes that the search reports as absent.
\<close>

lemma find_truncates_total:
  assumes "entry b ! 0 = \<lparr>buffptr = p, esize = z\<rparr>" and "cb_inv b" and "\<not> full b"
    and "in_offs b = 1"
  shows "aesd_circular_buffer_find_entry_offset_for_fpos (Some b) off =
           Inr (if unat off < unat z mod 2 ^ 32 then (Some 0, off) else (None, - 1))"
proof -
  from assms(2,3) have b: "length (entry b) = cap" "out_offs b = 0" by (auto simp: cb_inv_def)
  have m0: "unat ((0 :: u32) mod AESDCHAR_MAX_WRITE_OPERATIONS_SUPPORTED) = 0"
    by (simp add: cap_def)
  have t: "unat (ucast (ucast z :: u32) :: u64) = unat z mod 2 ^ 32"
    by (simp add: unsigned_ucast_eq unat_mod_distrib take_bit_eq_mod)
  have "find_entry_loop b off (- 1) 1 0 0 =
      Inr (if off < ucast (ucast z :: u32) then (Some 0, off) else (None, - 1))"
    using b assms(1) by (simp add: find_entry_loop.simps [of b off "- 1" 1] m0 Let_def)
  with t b assms(3,4) show ?thesis
    by (simp add: aesd_circular_buffer_find_entry_offset_for_fpos_def Let_def word_less_nat_alt)
qed

end
