(* ===== verification/Kernel_Heap.thy ===== *)
theory Kernel_Heap
  imports Circular_Buffer
begin

section \<open>Kernel memory and the kernel services the driver calls\<close>

text \<open>
  The driver's memory: a store of allocated blocks by base address, holding either bytes or the
  ring structure. An address that is not in the store is free, so a load through a dangling
  pointer, a load or store outside a block and a free of something not allocated are faults.

  The kernel's own functions are not part of the repository. They are a parameter \<open>kapi\<close> of the
  driver's definitions, with their documented behaviour as the named predicates \<open>kmalloc_ok\<close>,
  \<open>copy_from_user_ok\<close> and \<open>copy_to_user_ok\<close>.
\<close>

subsection \<open>Blocks\<close>

datatype kobj = Bytes "byte list" | Ring aesd_circular_buffer

type_synonym heap = "addr \<rightharpoonup> kobj"
type_synonym umem = "addr \<rightharpoonup> byte"

definition load_bytes :: "heap \<Rightarrow> addr \<Rightarrow> nat \<Rightarrow> nat \<Rightarrow> byte list result" where
  "load_bytes h p off n =
     (if n = 0 then Inr []
      else if p = NULL then Inl NullDeref
      else case h p of
             None \<Rightarrow> Inl UseAfterFree
           | Some (Ring _) \<Rightarrow> Inl OutOfBounds
           | Some (Bytes bs) \<Rightarrow>
               if off + n \<le> length bs then Inr (take n (drop off bs)) else Inl OutOfBounds)"

definition store_bytes :: "heap \<Rightarrow> addr \<Rightarrow> nat \<Rightarrow> byte list \<Rightarrow> heap result" where
  "store_bytes h p off vs =
     (if vs = [] then Inr h
      else if p = NULL then Inl NullDeref
      else case h p of
             None \<Rightarrow> Inl UseAfterFree
           | Some (Ring _) \<Rightarrow> Inl OutOfBounds
           | Some (Bytes bs) \<Rightarrow>
               if off + length vs \<le> length bs
               then Inr (h(p \<mapsto> Bytes (take off bs @ vs @ drop (off + length vs) bs)))
               else Inl OutOfBounds)"

definition load_ring :: "heap \<Rightarrow> addr \<Rightarrow> aesd_circular_buffer result" where
  "load_ring h p =
     (if p = NULL then Inl NullDeref
      else case h p of
             None \<Rightarrow> Inl UseAfterFree
           | Some (Bytes _) \<Rightarrow> Inl OutOfBounds
           | Some (Ring b) \<Rightarrow> Inr b)"

text \<open>\<open>kfree\<close>: a null pointer is ignored, anything else must be an allocated block.\<close>

definition kfree :: "addr \<Rightarrow> heap \<Rightarrow> heap result" where
  "kfree p h =
     (if p = NULL then Inr h
      else if h p = None then Inl InvalidFree
      else Inr (h(p := None)))"

subsection \<open>Kernel services\<close>

text \<open>
  \<^item> \<open>kmalloc n h\<close>: the address and the initial contents of a new block, \<open>None\<close> for \<open>NULL\<close>;
  \<^item> \<open>copy_from_user m p n\<close>: the \<open>n\<close> bytes left in the destination and the number of bytes that
    could not be copied;
  \<^item> \<open>copy_to_user m p bs\<close>: user memory afterwards and the number of bytes not copied;
  \<^item> \<open>MAJOR\<close>, \<open>MKDEV\<close>: the parts of a device number.
\<close>

record kapi =
  kmalloc :: "u64 \<Rightarrow> heap \<Rightarrow> (addr \<times> byte list) option"
  copy_from_user :: "umem \<Rightarrow> addr \<Rightarrow> u64 \<Rightarrow> byte list \<times> u64"
  copy_to_user :: "umem \<Rightarrow> addr \<Rightarrow> byte list \<Rightarrow> umem \<times> u64"
  MAJOR :: "u32 \<Rightarrow> s32"
  MKDEV :: "s32 \<Rightarrow> s32 \<Rightarrow> u32"

text \<open>The largest block \<open>kmalloc\<close> hands out, with the 4 KiB pages of the targets.\<close>

definition KMALLOC_MAX_SIZE :: nat where
  "KMALLOC_MAX_SIZE = 2 ^ 22"

definition user_data :: "umem \<Rightarrow> addr \<Rightarrow> byte list \<Rightarrow> bool" where
  "user_data m p bs \<longleftrightarrow> (\<forall>i < length bs. m (p + of_nat i) = Some (bs ! i))"

definition kmalloc_ok :: "kapi \<Rightarrow> bool" where
  "kmalloc_ok k \<longleftrightarrow>
     (\<forall>n h p bs. kmalloc k n h = Some (p, bs) \<longrightarrow>
        p \<noteq> NULL \<and> h p = None \<and> length bs = unat n \<and> unat n \<le> KMALLOC_MAX_SIZE)"

definition copy_from_user_ok :: "kapi \<Rightarrow> bool" where
  "copy_from_user_ok k \<longleftrightarrow>
     (\<forall>m p n bs left. copy_from_user k m p n = (bs, left) \<longrightarrow>
        length bs = unat n \<and> (left = 0 \<longrightarrow> user_data m p bs))"

definition copy_to_user_ok :: "kapi \<Rightarrow> bool" where
  "copy_to_user_ok k \<longleftrightarrow>
     (\<forall>m p bs m' left. copy_to_user k m p bs = (m', left) \<longrightarrow>
        (left = 0 \<longrightarrow> user_data m' p bs) \<and>
        (\<forall>q. (\<forall>i < length bs. q \<noteq> p + of_nat i) \<longrightarrow> m' q = m q))"

definition kernel_ok :: "kapi \<Rightarrow> bool" where
  "kernel_ok k \<longleftrightarrow> kmalloc_ok k \<and> copy_from_user_ok k \<and> copy_to_user_ok k"

text \<open>
  One kernel that satisfies the contract: the allocator takes the first free address among the
  first few thousand multiples of 64 and hands out zeroed blocks, and user copies stop at the
  first unmapped byte, padding with zeros. The witnesses run the driver on it.
\<close>

fun first_free :: "nat \<Rightarrow> addr \<Rightarrow> heap \<Rightarrow> addr option" where
  "first_free 0 p h = None"
| "first_free (Suc n) p h = (if p \<noteq> NULL \<and> h p = None then Some p else first_free n (p + 64) h)"

fun copied :: "umem \<Rightarrow> addr \<Rightarrow> nat \<Rightarrow> byte list" where
  "copied m p 0 = []"
| "copied m p (Suc n) = (case m p of None \<Rightarrow> [] | Some b \<Rightarrow> b # copied m (p + 1) n)"

fun copy_out :: "umem \<Rightarrow> addr \<Rightarrow> byte list \<Rightarrow> umem" where
  "copy_out m p [] = m"
| "copy_out m p (b # bs) = copy_out (m(p \<mapsto> b)) (p + 1) bs"

definition demo_kernel :: kapi where
  "demo_kernel =
     \<lparr>kmalloc = (\<lambda>n h. if unat n \<le> KMALLOC_MAX_SIZE
                        then map_option (\<lambda>p. (p, replicate (unat n) 0)) (first_free 64 64 h)
                        else None),
      copy_from_user = (\<lambda>m p n. let bs = copied m p (unat n)
                                in (bs @ replicate (unat n - length bs) 0, n - of_nat (length bs))),
      copy_to_user = (\<lambda>m p bs. if length bs < 2 ^ 64 then (copy_out m p bs, 0) else (m, 1)),
      MAJOR = (\<lambda>d. drop_bit 20 d),
      MKDEV = (\<lambda>ma mi. push_bit 20 ma + mi)\<rparr>"

subsection \<open>Loads, stores and frees\<close>

lemma load_bytes_ok:
  "h p = Some (Bytes bs) \<Longrightarrow> p \<noteq> NULL \<Longrightarrow> off + n \<le> length bs \<Longrightarrow>
     load_bytes h p off n = Inr (take n (drop off bs))"
  by (simp add: load_bytes_def)

lemma load_bytes_nth:
  "h p = Some (Bytes bs) \<Longrightarrow> p \<noteq> NULL \<Longrightarrow> off < length bs \<Longrightarrow> load_bytes h p off 1 = Inr [bs ! off]"
  by (simp add: load_bytes_def take_Suc_conv_app_nth hd_drop_conv_nth take_Suc)

lemma load_bytes_0 [simp]: "load_bytes h p off 0 = Inr []"
  by (simp add: load_bytes_def)

lemma store_bytes_Nil [simp]: "store_bytes h p off [] = Inr h"
  by (simp add: store_bytes_def)

lemma store_bytes_ok:
  "h p = Some (Bytes bs) \<Longrightarrow> p \<noteq> NULL \<Longrightarrow> off + length vs \<le> length bs \<Longrightarrow>
     store_bytes h p off vs = Inr (h(p \<mapsto> Bytes (take off bs @ vs @ drop (off + length vs) bs)))"
  by (auto simp: store_bytes_def map_upd_triv)

lemma load_ring_ok: "h p = Some (Ring b) \<Longrightarrow> p \<noteq> NULL \<Longrightarrow> load_ring h p = Inr b"
  by (simp add: load_ring_def)

lemma kfree_ok: "h p = Some x \<Longrightarrow> p \<noteq> NULL \<Longrightarrow> kfree p h = Inr (h(p := None))"
  by (simp add: kfree_def)

lemma kfree_NULL [simp]: "kfree NULL h = Inr h"
  by (simp add: kfree_def)

lemma kmalloc_okD:
  "kmalloc_ok k \<Longrightarrow> kmalloc k n h = Some (p, bs) \<Longrightarrow> p \<noteq> NULL \<and> h p = None \<and> length bs = unat n \<and>
     unat n \<le> KMALLOC_MAX_SIZE"
  by (auto simp: kmalloc_ok_def)

lemma copy_from_user_length:
  "copy_from_user_ok k \<Longrightarrow> copy_from_user k m p n = (bs, left) \<Longrightarrow> length bs = unat n"
  by (auto simp: copy_from_user_ok_def)

subsection \<open>The demonstration kernel keeps the contract\<close>

lemma first_free_Some: "first_free n p h = Some q \<Longrightarrow> q \<noteq> NULL \<and> h q = None"
  by (induction n p h rule: first_free.induct) (auto split: if_splits)

text \<open>Evaluation of the demonstration kernel on numerals.\<close>

lemma first_free_numeral [simp]:
  "first_free (numeral v) p h =
     (if p \<noteq> NULL \<and> h p = None then Some p else first_free (pred_numeral v) (p + 64) h)"
  by (simp add: numeral_eq_Suc)

lemma copied_numeral [simp]:
  "copied m p (numeral v) =
     (case m p of None \<Rightarrow> [] | Some b \<Rightarrow> b # copied m (p + 1) (pred_numeral v))"
  by (simp add: numeral_eq_Suc)

lemma length_copied: "length (copied m p n) \<le> n"
  by (induction m p n rule: copied.induct) (auto split: option.splits)

lemma copied_user_data: "length (copied m p n) = n \<Longrightarrow> user_data m p (copied m p n)"
proof (induction n arbitrary: p)
  case (Suc n)
  then obtain b where b: "m p = Some b" "length (copied m (p + 1) n) = n"
    by (auto split: option.splits)
  with Suc.IH have "user_data m (p + 1) (copied m (p + 1) n)" by blast
  with b show ?case
    by (auto simp: user_data_def less_Suc_eq_0_disj nth_Cons add.assoc)
qed (simp add: user_data_def)

lemma of_nat_u64_neq_0: "0 < n \<Longrightarrow> n < 2 ^ 64 \<Longrightarrow> (of_nat n :: u64) \<noteq> 0"
  using unat_of_nat_64 [of n] by auto

lemma copy_out_frame:
  "(\<forall>i < length bs. q \<noteq> p + of_nat i) \<Longrightarrow> copy_out m p bs q = m q"
proof (induction bs arbitrary: m p)
  case (Cons b bs)
  have "q \<noteq> p" using Cons.prems by force
  moreover have "\<forall>i < length bs. q \<noteq> (p + 1) + of_nat i"
    using Cons.prems by (auto simp: add.assoc dest: spec [where x = "Suc i" for i])
  ultimately show ?case by (simp add: Cons.IH)
qed simp

lemma copy_out_user_data: "length bs < 2 ^ 64 \<Longrightarrow> user_data (copy_out m p bs) p bs"
proof (induction bs arbitrary: m p)
  case (Cons b bs)
  have ne: "p \<noteq> (p + 1) + of_nat i" if "i < length bs" for i
  proof
    assume "p = (p + 1) + of_nat i"
    then have "of_nat (Suc i) = (0 :: u64)" by (simp add: add.assoc)
    moreover have "(of_nat (Suc i) :: u64) \<noteq> 0"
      by (rule of_nat_u64_neq_0) (use that Cons.prems in simp_all)
    ultimately show False by simp
  qed
  then have hd: "copy_out (m(p \<mapsto> b)) (p + 1) bs p = Some b"
    by (subst copy_out_frame) auto
  have "user_data (copy_out (m(p \<mapsto> b)) (p + 1) bs) (p + 1) bs"
    using Cons.prems by (intro Cons.IH) simp
  with hd show ?case
    by (auto simp: user_data_def less_Suc_eq_0_disj nth_Cons add.assoc)
qed (simp add: user_data_def)

lemma demo_kernel_ok: "kernel_ok demo_kernel"
  unfolding kernel_ok_def
proof (intro conjI)
  show "kmalloc_ok demo_kernel"
    by (auto simp: kmalloc_ok_def demo_kernel_def dest: first_free_Some split: if_splits)
  show "copy_to_user_ok demo_kernel"
    by (auto simp: copy_to_user_ok_def demo_kernel_def copy_out_user_data copy_out_frame
        split: if_splits)
  show "copy_from_user_ok demo_kernel"
    unfolding copy_from_user_ok_def
  proof (intro allI impI)
    fix m p n bs left
    assume "copy_from_user demo_kernel m p n = (bs, left)"
    then have bs: "bs = copied m p (unat n) @ replicate (unat n - length (copied m p (unat n))) 0"
      and left: "left = n - of_nat (length (copied m p (unat n)))"
      by (auto simp: demo_kernel_def Let_def)
    note le = length_copied [of m p "unat n"]
    have "user_data m p bs" if "left = 0"
    proof -
      from that left have "n = of_nat (length (copied m p (unat n)))" by simp
      then have "unat n = length (copied m p (unat n))"
        using le unat_less_64 [of n] by (metis le_less_trans unat_of_nat_64)
      with bs copied_user_data [of m p "unat n"] show ?thesis by simp
    qed
    with bs le show "length bs = unat n \<and> (left = 0 \<longrightarrow> user_data m p bs)" by simp
  qed
qed

end
