(* ===== verification/Char_Driver.thy ===== *)
theory Char_Driver
  imports Kernel_Heap
begin

section \<open>The character driver\<close>

text \<open>
  Models \<^verbatim>\<open>aesd-char-driver/aesdchar.h\<close> and \<^verbatim>\<open>aesd-char-driver/main.c\<close>: the device structure,
  the file operations, and module start-up and shut-down. The state is the global
  \<open>aesd_device\<close>, the function-static \<open>full_user_entry\<close> of \<open>aesd_write\<close>, the kernel heap, the
  registration of the device numbers and the kernel log.

  Each operation takes the kernel services \<open>k\<close> that answer during this call; a call that takes
  the device lock also takes \<open>intr\<close>, whether \<open>mutex_lock_interruptible\<close> was interrupted. The
  result of a file operation is its return value, the new file position, user memory and the new
  state. \<open>ssize_t\<close> and \<open>loff_t\<close> are 64-bit words read with \<open>sint\<close>.
\<close>

subsection \<open>Constants and state\<close>

definition ENOMEM :: s64 where "ENOMEM = 12"
definition EFAULT :: s64 where "EFAULT = 14"
definition EINVAL :: s64 where "EINVAL = 22"

text \<open>The kernel-internal code that makes an interrupted call restart.\<close>

definition ERESTARTSYS :: s64 where "ERESTARTSYS = 512"

record aesd_dev =
  pbuffer :: addr
  lock :: bool
  buff_size :: s64
  cdev_added :: "u32 option"

datatype kmsg =
    Msg string
  | ReadMsg u64 s64
  | WriteMsg u64 s64
  | BufferMsg string "byte list" u64
  | LastChar byte
  | ElemMsg nat
  | ElemEmpty nat
  | CdevError s32

record drv =
  aesd_device :: aesd_dev
  full_user_entry :: aesd_buffer_entry
  kheap :: heap
  aesd_major :: s32
  region :: "u32 option"
  klog :: "kmsg list"

text \<open>\<open>private_data\<close> is null until \<open>aesd_open\<close> points it at the device.\<close>

record kfile =
  f_pos :: s64
  private_data :: bool

definition printk :: "kmsg \<Rightarrow> drv \<Rightarrow> drv" where
  "printk m st = st\<lparr>klog := klog st @ [m]\<rparr>"

definition set_lock :: "bool \<Rightarrow> drv \<Rightarrow> drv" where
  "set_lock l st = st\<lparr>aesd_device := (aesd_device st)\<lparr>lock := l\<rparr>\<rparr>"

definition set_heap :: "heap \<Rightarrow> drv \<Rightarrow> drv" where
  "set_heap h st = st\<lparr>kheap := h\<rparr>"

subsection \<open>Debug output\<close>

definition aesd_buffer_print ::
    "kapi \<Rightarrow> string \<Rightarrow> addr \<Rightarrow> nat \<Rightarrow> u64 \<Rightarrow> drv \<Rightarrow> drv result" where
  "aesd_buffer_print k prefix buff off sz st =
     (case kmalloc k (sz + 1) (kheap st) of
        None \<Rightarrow> Inr st
      | Some (tmp, junk) \<Rightarrow>
          (let h = (kheap st)(tmp \<mapsto> Bytes junk) in
           res_bind (load_bytes h buff off (unat sz)) (\<lambda>bs.
           res_bind (store_bytes h tmp 0 bs) (\<lambda>h.
           res_bind (store_bytes h tmp (unat sz) [0]) (\<lambda>h.
           let st = printk (BufferMsg prefix (takeWhile (\<lambda>c. c \<noteq> 0) bs) sz) (set_heap h st) in
           res_bind (kfree tmp h) (\<lambda>h. Inr (set_heap h st)))))))"

fun show_entries :: "kapi \<Rightarrow> aesd_circular_buffer \<Rightarrow> nat \<Rightarrow> nat \<Rightarrow> nat \<Rightarrow> drv \<Rightarrow> drv result" where
  "show_entries k buffer 0 i buffer_iterator st = Inr st"
| "show_entries k buffer (Suc todo) i buffer_iterator st =
     res_bind (arr_read (entry buffer) buffer_iterator) (\<lambda>e.
     res_bind (if buffptr e \<noteq> NULL
               then aesd_buffer_print k '''' (buffptr e) 0 (esize e) (printk (ElemMsg i) st)
               else Inr (printk (ElemEmpty i) st)) (\<lambda>st.
     show_entries k buffer todo (Suc i) ((buffer_iterator + 1) mod cap) st))"

definition aesd_show_circular_buffer :: "kapi \<Rightarrow> aesd_circular_buffer \<Rightarrow> drv \<Rightarrow> drv result" where
  "aesd_show_circular_buffer k buffer st =
     show_entries k buffer cap 0 (unat (out_offs buffer))
       (printk (Msg ''Circular buffer (oldest to newest):'') st)"

subsection \<open>Open and release\<close>

definition aesd_open :: "kfile \<Rightarrow> drv \<Rightarrow> s32 \<times> kfile \<times> drv" where
  "aesd_open filp st = (0, filp\<lparr>private_data := True\<rparr>, printk (Msg ''open'') st)"

definition aesd_release :: "kapi \<Rightarrow> kfile \<Rightarrow> drv \<Rightarrow> (s32 \<times> drv) result" where
  "aesd_release k filp st =
     (if \<not> private_data filp then Inl NullDeref
      else res_bind (load_ring (kheap st) (pbuffer (aesd_device st))) (\<lambda>b.
           res_bind (aesd_show_circular_buffer k b (printk (Msg ''release'') st)) (\<lambda>st.
           Inr (0, st))))"

subsection \<open>Read\<close>

text \<open>The argument \<open>dev->pbuffer\<close> of the search: \<open>None\<close> for a null pointer.\<close>

definition ring_arg :: "drv \<Rightarrow> aesd_circular_buffer option result" where
  "ring_arg st =
     (if pbuffer (aesd_device st) = NULL then Inr None
      else res_bind (load_ring (kheap st) (pbuffer (aesd_device st))) (\<lambda>b. Inr (Some b)))"

text \<open>The part of \<open>aesd_read\<close> that runs when the search returned an entry.\<close>

definition read_found ::
    "kapi \<Rightarrow> addr \<Rightarrow> u64 \<Rightarrow> s64 \<Rightarrow> umem \<Rightarrow> aesd_buffer_entry \<Rightarrow> u64 \<Rightarrow> drv \<Rightarrow>
       (s64 \<times> s64 \<times> umem \<times> drv) result" where
  "read_found k buff count pos um e entry_offset st =
     (let n = esize e - entry_offset in
      case kmalloc k n (kheap st) of
        None \<Rightarrow> Inr (- EFAULT, pos, um, st)
      | Some (p, junk) \<Rightarrow>
          (let h = (kheap st)(p \<mapsto> Bytes junk) in
           res_bind (load_bytes h (buffptr e) (unat entry_offset) (unat n)) (\<lambda>bs.
           res_bind (store_bytes h p 0 bs) (\<lambda>h.
           res_bind (aesd_buffer_print k ''Offset found in buffer'' (buffptr e) 0 (esize e)
                       (set_heap h st)) (\<lambda>st.
           res_bind (aesd_buffer_print k ''String to be returned to the user'' p 0 n st) (\<lambda>st.
           res_bind (load_bytes (kheap st) p 0 (unat n)) (\<lambda>out.
           let (um', left) = copy_to_user k um buff out in
           if left \<noteq> 0 then Inr (- EFAULT, pos, um', st)
           else Inr (if count > n then n else count, pos + n, um', st))))))))"

definition aesd_read ::
    "kapi \<Rightarrow> bool \<Rightarrow> kfile \<Rightarrow> addr \<Rightarrow> u64 \<Rightarrow> s64 \<Rightarrow> umem \<Rightarrow> drv \<Rightarrow> (s64 \<times> s64 \<times> umem \<times> drv) result" where
  "aesd_read k intr filp buff count pos um st =
     (if \<not> private_data filp then Inl NullDeref
      else let st = printk (ReadMsg count pos) st in
      if intr then Inr (- ERESTARTSYS, pos, um, st)
      else let st = set_lock True st in
        res_bind (ring_arg st) (\<lambda>ring.
        res_bind (aesd_circular_buffer_find_entry_offset_for_fpos ring pos) (\<lambda>(found, entry_offset).
        res_bind (case found of
                    None \<Rightarrow> Inr (0, pos, um, printk (Msg ''Offset was not found'') st)
                  | Some ix \<Rightarrow>
                      res_bind (case ring of None \<Rightarrow> Inl NullDeref
                                | Some b \<Rightarrow> arr_read (entry b) ix) (\<lambda>e.
                      read_found k buff count pos um e entry_offset st))
          (\<lambda>(retval, pos, um, st). Inr (retval, pos, um, set_lock False st)))))"

subsection \<open>Write\<close>

definition no_entry :: aesd_buffer_entry where
  "no_entry = \<lparr>buffptr = NULL, esize = 0\<rparr>"

text \<open>The part of \<open>aesd_write\<close> that runs when the accumulated command ends in a newline.\<close>

definition write_command :: "kapi \<Rightarrow> drv \<Rightarrow> drv result" where
  "write_command k st =
     (let dev = aesd_device st; fe = full_user_entry st in
      res_bind (load_ring (kheap st) (pbuffer dev)) (\<lambda>b.
      res_bind (if full b
                then res_bind (aesd_circular_buffer_ref_buff b) (\<lambda>p. kfree p (kheap st))
                else Inr (kheap st)) (\<lambda>h.
      res_bind (aesd_buffer_print k ''Completed write command'' (buffptr fe) 0 (esize fe)
                  (set_heap h st)) (\<lambda>st.
      res_bind (aesd_circular_buffer_add_entry b fe) (\<lambda>b'.
      Inr (st\<lparr>kheap := (kheap st)(pbuffer dev \<mapsto> Ring b'),
              aesd_device := (aesd_device st)\<lparr>buff_size := buff_size dev + esize fe\<rparr>,
              full_user_entry := no_entry\<rparr>))))))"

text \<open>
  The part of \<open>aesd_write\<close> that runs after the user's bytes were copied behind the pending ones
  into the new block \<open>tmp_user_buffer\<close>.
\<close>

definition write_copied :: "kapi \<Rightarrow> addr \<Rightarrow> u64 \<Rightarrow> s64 \<Rightarrow> drv \<Rightarrow> (s64 \<times> s64 \<times> drv) result" where
  "write_copied k tmp_user_buffer count pos st =
     (let fe = full_user_entry st in
      res_bind (aesd_buffer_print k ''Received from the user'' tmp_user_buffer (unat (esize fe)) count st)
        (\<lambda>st.
      res_bind (load_bytes (kheap st) tmp_user_buffer (unat (esize fe + count - 1)) 1) (\<lambda>c.
      let st = printk (LastChar (hd c)) st in
      res_bind (kfree (buffptr fe) (kheap st)) (\<lambda>h.
      let fe = \<lparr>buffptr = tmp_user_buffer, esize = esize fe + count\<rparr>;
          st = (set_heap h st)\<lparr>full_user_entry := fe\<rparr> in
      res_bind (load_bytes (kheap st) (buffptr fe) (unat (esize fe - 1)) 1) (\<lambda>c.
      res_bind (if hd c = LF_byte then write_command k st else Inr st) (\<lambda>st.
      Inr (count, pos + count, st)))))))"

definition aesd_write ::
    "kapi \<Rightarrow> bool \<Rightarrow> kfile \<Rightarrow> addr \<Rightarrow> u64 \<Rightarrow> s64 \<Rightarrow> umem \<Rightarrow> drv \<Rightarrow> (s64 \<times> s64 \<times> drv) result" where
  "aesd_write k intr filp buff count pos um st =
     (if \<not> private_data filp then Inl NullDeref
      else let st = printk (WriteMsg count pos) st in
      if intr then Inr (- ERESTARTSYS, pos, st)
      else let st = set_lock True st; fe = full_user_entry st in
        res_bind
          (case kmalloc k (count + esize fe) (kheap st) of
             None \<Rightarrow> Inr (- ENOMEM, pos, st)
           | Some (tmp_user_buffer, junk) \<Rightarrow>
               (let h = (kheap st)(tmp_user_buffer \<mapsto> Bytes junk) in
                res_bind (load_bytes h (buffptr fe) 0 (unat (esize fe))) (\<lambda>old.
                res_bind (store_bytes h tmp_user_buffer 0 old) (\<lambda>h.
                let (bs, left) = copy_from_user k um buff count in
                res_bind (store_bytes h tmp_user_buffer (unat (esize fe)) bs) (\<lambda>h.
                if left \<noteq> 0
                then res_bind (kfree tmp_user_buffer h) (\<lambda>h. Inr (- EFAULT, pos, set_heap h st))
                else write_copied k tmp_user_buffer count pos (set_heap h st))))))
          (\<lambda>(retval, pos, st). Inr (retval, pos, set_lock False st)))"

subsection \<open>Seek\<close>

text \<open>\<open>loff_t\<close> addition wraps, as the kernel is compiled.\<close>

definition aesd_lseek :: "kfile \<Rightarrow> s64 \<Rightarrow> s32 \<Rightarrow> drv \<Rightarrow> (s64 \<times> kfile) result" where
  "aesd_lseek pfile off whence st =
     (if whence = 0 \<or> whence = 1 \<or> whence = 2 then
        (if whence = 2 \<and> \<not> private_data pfile then Inl NullDeref
         else let new_fpos = (if whence = 0 then off
                              else if whence = 1 then f_pos pfile + off
                              else buff_size (aesd_device st))
              in if sint new_fpos < 0 then Inr (- EINVAL, pfile)
                 else Inr (new_fpos, pfile\<lparr>f_pos := new_fpos\<rparr>))
      else Inr (- EINVAL, pfile))"

subsection \<open>Module start-up and shut-down\<close>

definition aesd_minor :: s32 where
  "aesd_minor = 0"

text \<open>\<open>err\<close> is what \<open>cdev_add\<close> returned.\<close>

definition aesd_setup_cdev :: "kapi \<Rightarrow> s32 \<Rightarrow> drv \<Rightarrow> s32 \<times> drv" where
  "aesd_setup_cdev k err st =
     (let devno = MKDEV k (aesd_major st) aesd_minor in
      if err \<noteq> 0 then (err, printk (CdevError err) st)
      else (err, st\<lparr>aesd_device := (aesd_device st)\<lparr>cdev_added := Some devno\<rparr>\<rparr>))"

text \<open>
  \<open>alloc\<close> is what \<open>alloc_chrdev_region\<close> returned: its result and the device number it stored
  (0 when it failed). The structure is ten entries of two words and three bytes, padded.
\<close>

definition sizeof_circular_buffer :: u64 where
  "sizeof_circular_buffer = 168"

definition aesd_init_module :: "kapi \<Rightarrow> s32 \<times> u32 \<Rightarrow> s32 \<Rightarrow> drv \<Rightarrow> s32 \<times> drv" where
  "aesd_init_module k alloc cdev_res st =
     (let (result, dev) = alloc; st = st\<lparr>aesd_major := MAJOR k dev\<rparr> in
      if sint result < 0 then (result, printk (Msg ''Can't get major'') st)
      else
        (let st = st\<lparr>region := Some dev,
                    aesd_device := \<lparr>pbuffer = NULL, lock = False, buff_size = 0, cdev_added = None\<rparr>\<rparr> in
         case kmalloc k sizeof_circular_buffer (kheap st) of
           None \<Rightarrow> (ucast (- ENOMEM), st\<lparr>region := None\<rparr>)
         | Some (p, junk) \<Rightarrow>
             (let st = st\<lparr>aesd_device := (aesd_device st)\<lparr>pbuffer := p\<rparr>,
                         kheap := (kheap st)(p \<mapsto> Ring aesd_circular_buffer_init)\<rparr>;
                  (result, st) = aesd_setup_cdev k cdev_res st
              in if result \<noteq> 0 then (result, st\<lparr>region := None\<rparr>) else (0, st))))"

definition free_entry :: "aesd_buffer_entry \<Rightarrow> heap \<Rightarrow> heap result" where
  "free_entry e h = (if buffptr e \<noteq> NULL then kfree (buffptr e) h else Inr h)"

definition aesd_cleanup_module :: "drv \<Rightarrow> drv result" where
  "aesd_cleanup_module st =
     (let st = st\<lparr>aesd_device := (aesd_device st)\<lparr>cdev_added := None\<rparr>\<rparr> in
      res_bind (load_ring (kheap st) (pbuffer (aesd_device st))) (\<lambda>b.
      res_bind (AESD_CIRCULAR_BUFFER_FOREACH free_entry b (kheap st)) (\<lambda>h.
      res_bind (kfree (pbuffer (aesd_device st)) h) (\<lambda>h.
      Inr (st\<lparr>kheap := h, region := None\<rparr>)))))"

end
