(* ===== verification/Char_Driver_Inv.thy ===== *)
theory Char_Driver_Inv
  imports Char_Driver
begin

section \<open>The driver's invariant and its abstract state\<close>

text \<open>
  The invariant between calls ties the ring to the heap: every stored command owns its own live
  block, whose length is the recorded size, the pending command owns another, and the slots not
  yet used are null. The abstract state of the driver is the list of stored commands, oldest
  first, and the pending bytes.
\<close>

definition bytes_at :: "heap \<Rightarrow> addr \<Rightarrow> byte list" where
  "bytes_at h p = (case h p of Some (Bytes bs) \<Rightarrow> bs | _ \<Rightarrow> [])"

text \<open>An entry that owns a live, non-empty block of the recorded size.\<close>

definition owns :: "heap \<Rightarrow> aesd_buffer_entry \<Rightarrow> bool" where
  "owns h e \<longleftrightarrow>
     buffptr e \<noteq> NULL \<and>
     (case h (buffptr e) of
        Some (Bytes bs) \<Rightarrow> bs \<noteq> [] \<and> length bs = unat (esize e) \<and> length bs \<le> KMALLOC_MAX_SIZE
      | _ \<Rightarrow> False)"

definition ring_inv :: "heap \<Rightarrow> aesd_circular_buffer \<Rightarrow> bool" where
  "ring_inv h b \<longleftrightarrow>
     cb_inv b \<and> (\<forall>e \<in> set (cb_contents b). owns h e) \<and> distinct (map buffptr (cb_contents b)) \<and>
     (\<not> full b \<longrightarrow> drop (unat (in_offs b)) (entry b) = replicate (cap - unat (in_offs b)) no_entry)"

definition pending_inv :: "heap \<Rightarrow> aesd_circular_buffer \<Rightarrow> aesd_buffer_entry \<Rightarrow> bool" where
  "pending_inv h b fe \<longleftrightarrow>
     fe = no_entry \<or> owns h fe \<and> buffptr fe \<notin> buffptr ` set (cb_contents b)"

definition drv_core :: "drv \<Rightarrow> bool" where
  "drv_core st \<longleftrightarrow>
     pbuffer (aesd_device st) \<noteq> NULL \<and>
     (case kheap st (pbuffer (aesd_device st)) of
        Some (Ring b) \<Rightarrow> ring_inv (kheap st) b \<and> pending_inv (kheap st) b (full_user_entry st)
      | _ \<Rightarrow> False)"

text \<open>Between calls the lock is free as well.\<close>

definition drv_inv :: "drv \<Rightarrow> bool" where
  "drv_inv st \<longleftrightarrow> drv_core st \<and> \<not> lock (aesd_device st)"

definition ring_of :: "drv \<Rightarrow> aesd_circular_buffer" where
  "ring_of st =
     (case kheap st (pbuffer (aesd_device st)) of
        Some (Ring b) \<Rightarrow> b | _ \<Rightarrow> aesd_circular_buffer_init)"

definition history :: "drv \<Rightarrow> byte list list" where
  "history st = map (\<lambda>e. bytes_at (kheap st) (buffptr e)) (cb_contents (ring_of st))"

definition pending :: "drv \<Rightarrow> byte list" where
  "pending st =
     (if full_user_entry st = no_entry then []
      else bytes_at (kheap st) (buffptr (full_user_entry st)))"

text \<open>
  The abstract write: the bytes join the pending command, which becomes the newest of at most ten
  stored commands when its last byte is a newline.
\<close>

definition spec_write :: "byte list \<Rightarrow> byte list list \<times> byte list \<Rightarrow> byte list list \<times> byte list" where
  "spec_write bs s =
     (let cmd = snd s @ bs in
      if cmd \<noteq> [] \<and> last cmd = LF_byte then (push_bounded cap (fst s) cmd, []) else (fst s, cmd))"

text \<open>The largest count the virtual file system passes to a driver.\<close>

definition MAX_RW_COUNT :: nat where
  "MAX_RW_COUNT = 2147479552"

text \<open>The heap after the eviction and the update of the ring structure.\<close>

definition evicted_heap :: "heap \<Rightarrow> aesd_circular_buffer \<Rightarrow> heap" where
  "evicted_heap h b = (if full b then h(buffptr (hd (cb_contents b)) := None) else h)"

subsection \<open>Frame lemmas\<close>

lemma set_lock_simps [simp]:
  "kheap (set_lock l st) = kheap st" "full_user_entry (set_lock l st) = full_user_entry st"
  "pbuffer (aesd_device (set_lock l st)) = pbuffer (aesd_device st)"
  "buff_size (aesd_device (set_lock l st)) = buff_size (aesd_device st)"
  "lock (aesd_device (set_lock l st)) = l" "klog (set_lock l st) = klog st"
  by (simp_all add: set_lock_def)

lemma printk_simps [simp]:
  "kheap (printk m st) = kheap st" "full_user_entry (printk m st) = full_user_entry st"
  "aesd_device (printk m st) = aesd_device st"
  by (simp_all add: printk_def)

lemma set_heap_simps [simp]:
  "kheap (set_heap h st) = h" "full_user_entry (set_heap h st) = full_user_entry st"
  "aesd_device (set_heap h st) = aesd_device st"
  by (simp_all add: set_heap_def)

lemma ownsE:
  assumes "owns h e"
  obtains bs where "buffptr e \<noteq> NULL" "h (buffptr e) = Some (Bytes bs)" "bs \<noteq> []"
    "length bs = unat (esize e)" "length bs \<le> KMALLOC_MAX_SIZE" "bytes_at h (buffptr e) = bs"
  using assms by (auto simp: owns_def bytes_at_def split: option.splits kobj.splits)

lemma ownsI:
  "buffptr e \<noteq> NULL \<Longrightarrow> h (buffptr e) = Some (Bytes bs) \<Longrightarrow> bs \<noteq> [] \<Longrightarrow> length bs = unat (esize e) \<Longrightarrow>
     length bs \<le> KMALLOC_MAX_SIZE \<Longrightarrow> owns h e"
  by (simp add: owns_def)

lemma owns_cong: "h (buffptr e) = h' (buffptr e) \<Longrightarrow> owns h e = owns h' e"
  by (simp add: owns_def)

lemma drv_coreE:
  assumes "drv_core st"
  obtains b where "pbuffer (aesd_device st) \<noteq> NULL"
    "kheap st (pbuffer (aesd_device st)) = Some (Ring b)" "ring_of st = b"
    "ring_inv (kheap st) b" "pending_inv (kheap st) b (full_user_entry st)"
  using assms by (auto simp: drv_core_def ring_of_def split: option.splits kobj.splits)

lemma drv_coreI:
  "pbuffer (aesd_device st) \<noteq> NULL \<Longrightarrow> kheap st (pbuffer (aesd_device st)) = Some (Ring b) \<Longrightarrow>
     ring_inv (kheap st) b \<Longrightarrow> pending_inv (kheap st) b (full_user_entry st) \<Longrightarrow> drv_core st"
  by (simp add: drv_core_def)

lemma ring_of_Some: "kheap st (pbuffer (aesd_device st)) = Some (Ring b) \<Longrightarrow> ring_of st = b"
  by (simp add: ring_of_def)

text \<open>The invariant and the abstract state only look at the device, the pending entry and the heap.\<close>

lemma drv_core_cong:
  "pbuffer (aesd_device st) = pbuffer (aesd_device st') \<Longrightarrow>
     full_user_entry st = full_user_entry st' \<Longrightarrow> kheap st = kheap st' \<Longrightarrow> drv_core st = drv_core st'"
  by (simp add: drv_core_def split: option.split kobj.split)

lemma abs_cong:
  assumes "pbuffer (aesd_device st) = pbuffer (aesd_device st')"
    and "full_user_entry st = full_user_entry st'" and "kheap st = kheap st'"
  shows "history st = history st'" and "pending st = pending st'"
  using assms by (simp_all add: history_def pending_def ring_of_def)

lemma core_abs_set_lock [simp]:
  "drv_core (set_lock l st) = drv_core st" "history (set_lock l st) = history st"
  "pending (set_lock l st) = pending st" "ring_of (set_lock l st) = ring_of st"
  by (simp_all add: drv_core_cong [of "set_lock l st" st] abs_cong [of "set_lock l st" st] ring_of_def)

lemma core_abs_printk [simp]:
  "drv_core (printk m st) = drv_core st" "history (printk m st) = history st"
  "pending (printk m st) = pending st" "ring_of (printk m st) = ring_of st"
  by (simp_all add: drv_core_cong [of "printk m st" st] abs_cong [of "printk m st" st] ring_of_def)

lemma ring_inv_heap_cong:
  assumes "\<forall>e \<in> set (cb_contents b). h (buffptr e) = h' (buffptr e)"
  shows "ring_inv h b = ring_inv h' b"
  using assms owns_cong [of h _ h'] by (auto simp: ring_inv_def)

text \<open>Adding a block at a free address changes nothing the invariant looks at.\<close>

lemma core_abs_alloc:
  assumes core: "drv_core st" and free: "kheap st q = None"
  shows "drv_core (set_heap ((kheap st)(q \<mapsto> x)) st)"
    and "history (set_heap ((kheap st)(q \<mapsto> x)) st) = history st"
    and "pending (set_heap ((kheap st)(q \<mapsto> x)) st) = pending st"
    and "ring_of (set_heap ((kheap st)(q \<mapsto> x)) st) = ring_of st"
proof -
  let ?h = "(kheap st)(q \<mapsto> x)"
  from core obtain b where p: "pbuffer (aesd_device st) \<noteq> NULL"
    "kheap st (pbuffer (aesd_device st)) = Some (Ring b)" "ring_of st = b"
    and r: "ring_inv (kheap st) b" and pend: "pending_inv (kheap st) b (full_user_entry st)"
    by (rule drv_coreE)
  from p free have pq: "pbuffer (aesd_device st) \<noteq> q" by auto
  have eq: "buffptr e \<noteq> q" if "owns (kheap st) e" for e
    using that free by (auto elim: ownsE)
  have ownq: "owns ?h e" if "owns (kheap st) e" for e
    using that eq [OF that] owns_cong [of "kheap st" e ?h] by simp
  have cong: "\<forall>e \<in> set (cb_contents b). kheap st (buffptr e) = ?h (buffptr e)"
    using r eq by (auto simp: ring_inv_def)
  have r': "ring_inv ?h b" by (rule iffD1 [OF ring_inv_heap_cong [OF cong] r])
  have pend': "pending_inv ?h b (full_user_entry st)"
    using pend ownq by (auto simp: pending_inv_def)
  show "drv_core (set_heap ?h st)"
    using p pq r' pend' by (intro drv_coreI [of _ b]) simp_all
  show ring: "ring_of (set_heap ?h st) = ring_of st"
    using p pq by (simp add: ring_of_def)
  show "history (set_heap ?h st) = history st"
    unfolding history_def ring using cong p(3) by (auto simp: bytes_at_def)
  have "q \<noteq> buffptr (full_user_entry st)" if "full_user_entry st \<noteq> no_entry"
    using that pend eq by (auto simp: pending_inv_def)
  then show "pending (set_heap ?h st) = pending st"
    by (auto simp: pending_def bytes_at_def)
qed

lemma free_addr_unused:
  assumes core: "drv_core st" and free: "kheap st q = None"
  shows "q \<notin> buffptr ` set (cb_contents (ring_of st))" and "q \<noteq> pbuffer (aesd_device st)"
proof -
  from core obtain b where p: "kheap st (pbuffer (aesd_device st)) = Some (Ring b)" "ring_of st = b"
    and r: "ring_inv (kheap st) b" by (rule drv_coreE)
  from p(1) free show "q \<noteq> pbuffer (aesd_device st)" by auto
  show "q \<notin> buffptr ` set (cb_contents (ring_of st))"
    using r free p(2) by (fastforce simp: ring_inv_def owns_def)
qed

subsection \<open>Debug output leaves the driver unchanged\<close>

lemma buffer_print_ok:
  assumes k: "kmalloc_ok k" and h: "kheap st buff = Some (Bytes bs)" "buff \<noteq> NULL"
    and rng: "off + unat sz \<le> length bs" and sz: "unat sz < 2 ^ 63"
  shows "\<exists>l. aesd_buffer_print k pre buff off sz st = Inr (st\<lparr>klog := l\<rparr>)"
proof (cases "kmalloc k (sz + 1) (kheap st)")
  case None
  then show ?thesis by (intro exI [of _ "klog st"]) (simp add: aesd_buffer_print_def)
next
  case (Some a)
  then obtain tmp junk where km: "kmalloc k (sz + 1) (kheap st) = Some (tmp, junk)"
    by (cases a) auto
  have sz1: "unat (sz + 1) = Suc (unat sz)" using sz by (simp add: word_nat)
  from kmalloc_okD [OF k km] sz1 have tmp: "tmp \<noteq> NULL" "kheap st tmp = None"
    "length junk = Suc (unat sz)" by auto
  from h tmp have ne: "tmp \<noteq> buff" by auto
  let ?h = "(kheap st)(tmp \<mapsto> Bytes junk)"
  let ?bs = "take (unat sz) (drop off bs)"
  have ld: "load_bytes ?h buff off (unat sz) = Inr ?bs"
    using h ne rng by (intro load_bytes_ok) auto
  have len: "length ?bs = unat sz" using rng by simp
  let ?v = "take 0 junk @ ?bs @ drop (0 + length ?bs) junk"
  have st1: "store_bytes ?h tmp 0 ?bs = Inr (?h(tmp \<mapsto> Bytes ?v))"
    using tmp len by (intro store_bytes_ok) auto
  define v where "v = ?v"
  define h2 where "h2 = ?h(tmp \<mapsto> Bytes ?v)"
  have v: "h2 = (kheap st)(tmp \<mapsto> Bytes v)" "length v = Suc (unat sz)"
    using tmp len by (simp_all add: h2_def v_def)
  have "store_bytes h2 tmp (unat sz) [0] =
      Inr (h2(tmp \<mapsto> Bytes (take (unat sz) v @ [0] @ drop (unat sz + length [0 :: byte]) v)))"
    using tmp v by (intro store_bytes_ok) auto
  moreover have "(kheap st)(tmp := None) = kheap st" using tmp by auto
  ultimately show ?thesis
    using km ld st1 [folded h2_def] tmp v
    by (simp add: aesd_buffer_print_def Let_def kfree_def set_heap_def printk_def) blast
qed

subsection \<open>Completing a command\<close>

lemma ring_addr_ne:
  assumes "owns h e" and "h p = Some (Ring b)"
  shows "buffptr e \<noteq> p"
  using assms by (auto elim: ownsE)

lemma set_push_bounded:
  "e \<in> set (push_bounded n xs x) \<Longrightarrow> e \<in> set xs \<or> e = x"
  using set_drop_subset [of "Suc (length xs) - n" "xs @ [x]"] by (auto simp: push_bounded_def)

lemma kept_addr:
  assumes r: "ring_inv h b" and fe: "owns h fe" "buffptr fe \<notin> buffptr ` set (cb_contents b)"
    and e: "e \<in> set (push_bounded cap (cb_contents b) fe)"
  shows "evicted_heap h b (buffptr e) = h (buffptr e)" and "owns h e"
proof -
  from r have inv: "cb_inv b" and own: "\<forall>e \<in> set (cb_contents b). owns h e"
    and dist: "distinct (map buffptr (cb_contents b))" by (auto simp: ring_inv_def)
  from set_push_bounded [OF e] own fe show "owns h e" by auto
  show "evicted_heap h b (buffptr e) = h (buffptr e)"
  proof (cases "full b")
    case True
    with inv have len: "length (cb_contents b) = cap" by (simp add: length_cb_contents)
    then obtain x xs where c: "cb_contents b = x # xs" by (cases "cb_contents b") auto
    with e len have "e \<in> set xs \<or> e = fe" by (auto simp: push_bounded_full)
    moreover have "buffptr x \<notin> buffptr ` set xs" "buffptr fe \<noteq> buffptr x"
      using dist fe(2) c by auto
    ultimately have "buffptr e \<noteq> buffptr x" by (metis imageI)
    with c True show ?thesis by (simp add: evicted_heap_def)
  qed (simp add: evicted_heap_def)
qed

lemma ring_inv_push:
  assumes r: "ring_inv h b" and fe: "owns h fe" "buffptr fe \<notin> buffptr ` set (cb_contents b)"
    and p: "h p = Some (Ring b)"
    and add: "aesd_circular_buffer_add_entry b fe = Inr b'" "cb_inv b'"
      "cb_contents b' = push_bounded cap (cb_contents b) fe"
  shows "ring_inv ((evicted_heap h b)(p \<mapsto> Ring b')) b'"
    and "\<forall>e \<in> set (cb_contents b'). ((evicted_heap h b)(p \<mapsto> Ring b')) (buffptr e) = h (buffptr e)"
proof -
  let ?h = "(evicted_heap h b)(p \<mapsto> Ring b')"
  have kept: "?h (buffptr e) = h (buffptr e)" "owns h e" if "e \<in> set (cb_contents b')" for e
  proof -
    from kept_addr [OF r fe] that add(3)
    have k: "evicted_heap h b (buffptr e) = h (buffptr e)" and o: "owns h e" by auto
    from o p have "buffptr e \<noteq> p" by (rule ring_addr_ne)
    with k show "?h (buffptr e) = h (buffptr e)" by simp
    show "owns h e" by (rule o)
  qed
  then show "\<forall>e \<in> set (cb_contents b'). ?h (buffptr e) = h (buffptr e)" by blast
  from kept have own: "\<forall>e \<in> set (cb_contents b'). owns ?h e" using owns_cong by metis
  have "distinct (map buffptr (cb_contents b @ [fe]))"
    using r fe(2) by (auto simp: ring_inv_def)
  then have dist: "distinct (map buffptr (cb_contents b'))"
    unfolding add(3) push_bounded_def drop_map [symmetric] by (rule distinct_drop)
  have slots: "drop (unat (in_offs b')) (entry b') = replicate (cap - unat (in_offs b')) no_entry"
    if "\<not> full b'"
  proof -
    from r have inv: "cb_inv b" by (simp add: ring_inv_def)
    note s = add_entry_slots [OF inv add(1) that]
    have "drop (unat (in_offs b)) (entry b) = replicate (cap - unat (in_offs b)) no_entry"
      using r s(3) by (simp add: ring_inv_def)
    then have "drop (Suc (unat (in_offs b))) (entry b) = tl (replicate (cap - unat (in_offs b)) no_entry)"
      by (metis drop_Suc tl_drop)
    with s show ?thesis by simp
  qed
  from add(2) own dist slots show "ring_inv ?h b'" by (simp add: ring_inv_def)
qed

lemma write_command_ok:
  assumes k: "kmalloc_ok k" and p: "kheap st (pbuffer (aesd_device st)) = Some (Ring b)"
    "pbuffer (aesd_device st) \<noteq> NULL"
    and r: "ring_inv (kheap st) b"
    and fe: "owns (kheap st) (full_user_entry st)"
      "buffptr (full_user_entry st) \<notin> buffptr ` set (cb_contents b)"
  shows "\<exists>b' l. write_command k st =
      Inr (st\<lparr>klog := l,
              kheap := (evicted_heap (kheap st) b)(pbuffer (aesd_device st) \<mapsto> Ring b'),
              aesd_device := (aesd_device st)
                \<lparr>buff_size := buff_size (aesd_device st) + esize (full_user_entry st)\<rparr>,
              full_user_entry := no_entry\<rparr>) \<and>
      aesd_circular_buffer_add_entry b (full_user_entry st) = Inr b' \<and> cb_inv b' \<and>
      cb_contents b' = push_bounded cap (cb_contents b) (full_user_entry st)"
proof -
  let ?fe = "full_user_entry st" and ?h = "kheap st"
  from r have inv: "cb_inv b" and own: "\<forall>e \<in> set (cb_contents b). owns ?h e"
    by (auto simp: ring_inv_def)
  have ev: "(if full b then res_bind (aesd_circular_buffer_ref_buff b) (\<lambda>p. kfree p ?h) else Inr ?h) =
      Inr (evicted_heap ?h b)"
  proof (cases "full b")
    case True
    with inv have "cb_contents b \<noteq> []" by (auto simp: length_cb_contents simp flip: length_greater_0_conv)
    with own have "owns ?h (hd (cb_contents b))" by simp
    then have "kfree (buffptr (hd (cb_contents b))) ?h = Inr (?h(buffptr (hd (cb_contents b)) := None))"
      by (auto elim!: ownsE intro: kfree_ok)
    with True ref_buff_oldest [OF inv True] show ?thesis by (simp add: evicted_heap_def)
  qed (simp add: evicted_heap_def)
  from fe(1) obtain bs where bs: "buffptr ?fe \<noteq> NULL" "?h (buffptr ?fe) = Some (Bytes bs)"
    "length bs = unat (esize ?fe)" "length bs \<le> KMALLOC_MAX_SIZE" by (rule ownsE)
  have "?fe \<in> set (push_bounded cap (cb_contents b) ?fe)"
    using cb_contents_bound [OF inv] by (simp add: push_bounded_def)
  then have "evicted_heap ?h b (buffptr ?fe) = Some (Bytes bs)"
    using kept_addr(1) [OF r fe] bs(2) by simp
  then obtain l where pr: "aesd_buffer_print k ''Completed write command'' (buffptr ?fe) 0 (esize ?fe)
      (set_heap (evicted_heap ?h b) st) = Inr ((set_heap (evicted_heap ?h b) st)\<lparr>klog := l\<rparr>)"
    using buffer_print_ok [OF k, of "set_heap (evicted_heap ?h b) st" "buffptr ?fe" bs 0 "esize ?fe"]
      bs by (auto simp: KMALLOC_MAX_SIZE_def)
  from add_entry_refines [OF inv, of ?fe] obtain b' where
    b': "aesd_circular_buffer_add_entry b ?fe = Inr b'" "cb_inv b'"
      "cb_contents b' = push_bounded cap (cb_contents b) ?fe" by blast
  with ev pr p show ?thesis
    by (auto simp: write_command_def Let_def load_ring_ok set_heap_def intro!: exI [of _ b'] exI [of _ l])
qed

text \<open>Bytes of the pending entry, and the heap once its block is freed.\<close>

lemma pending_bytes:
  assumes "pending_inv (kheap st) b (full_user_entry st)"
  shows "length (pending st) = unat (esize (full_user_entry st))"
    and "length (pending st) \<le> KMALLOC_MAX_SIZE"
    and "q \<noteq> buffptr (full_user_entry st) \<Longrightarrow>
      load_bytes ((kheap st)(q \<mapsto> x)) (buffptr (full_user_entry st)) 0 (unat (esize (full_user_entry st)))
        = Inr (pending st)"
proof -
  consider "full_user_entry st = no_entry" | "full_user_entry st \<noteq> no_entry" "owns (kheap st) (full_user_entry st)"
    using assms by (auto simp: pending_inv_def)
  then have "length (pending st) = unat (esize (full_user_entry st)) \<and>
    length (pending st) \<le> KMALLOC_MAX_SIZE \<and> (q \<noteq> buffptr (full_user_entry st) \<longrightarrow>
      load_bytes ((kheap st)(q \<mapsto> x)) (buffptr (full_user_entry st)) 0 (unat (esize (full_user_entry st)))
        = Inr (pending st))"
  proof cases
    case 1
    then show ?thesis by (simp add: pending_def no_entry_def)
  next
    case 2
    from 2(2) show ?thesis
      by (rule ownsE) (use 2(1) in \<open>auto simp: pending_def load_bytes_def\<close>)
  qed
  then show "length (pending st) = unat (esize (full_user_entry st))"
    and "length (pending st) \<le> KMALLOC_MAX_SIZE"
    and "q \<noteq> buffptr (full_user_entry st) \<Longrightarrow>
      load_bytes ((kheap st)(q \<mapsto> x)) (buffptr (full_user_entry st)) 0 (unat (esize (full_user_entry st)))
        = Inr (pending st)" by blast+
qed

lemma free_pending:
  assumes r: "ring_inv h b" and p: "pending_inv h b fe"
  shows "\<exists>h1. kfree (buffptr fe) h = Inr h1 \<and> (\<forall>q. q \<noteq> buffptr fe \<longrightarrow> h1 q = h q) \<and>
           (fe = no_entry \<longrightarrow> h1 = h) \<and> (fe \<noteq> no_entry \<longrightarrow> h1 (buffptr fe) = None) \<and>
           (\<forall>e \<in> set (cb_contents b). h1 (buffptr e) = h (buffptr e)) \<and> ring_inv h1 b"
proof -
  obtain h1 where h1: "kfree (buffptr fe) h = Inr h1" "\<forall>q. q \<noteq> buffptr fe \<longrightarrow> h1 q = h q"
    "fe = no_entry \<longrightarrow> h1 = h" "fe \<noteq> no_entry \<longrightarrow> h1 (buffptr fe) = None"
  proof (cases "fe = no_entry")
    case True
    then show ?thesis using that [of h] by (simp add: no_entry_def)
  next
    case False
    with p have "owns h fe" by (simp add: pending_inv_def)
    then have "kfree (buffptr fe) h = Inr (h(buffptr fe := None))"
      by (auto elim!: ownsE intro: kfree_ok)
    then show ?thesis using that [of "h(buffptr fe := None)"] False by simp
  qed
  have "\<forall>e \<in> set (cb_contents b). h1 (buffptr e) = h (buffptr e)"
    using h1(2,3) p unfolding pending_inv_def by (metis imageI)
  with ring_inv_heap_cong [of b h1 h] r h1 show ?thesis by auto
qed

subsection \<open>The whole write\<close>

lemma write_copied_ok:
  assumes k: "kmalloc_ok k" and core: "drv_core st"
    and tmp: "kheap st tmp = Some (Bytes cmd)" "tmp \<noteq> NULL"
      "tmp \<notin> buffptr ` set (cb_contents (ring_of st))" "tmp \<noteq> buffptr (full_user_entry st)"
    and cmd: "length cmd = unat (esize (full_user_entry st)) + unat count" "cmd \<noteq> []"
      "length cmd \<le> KMALLOC_MAX_SIZE"
  shows "\<exists>st'. write_copied k tmp count pos st = Inr (count, pos + count, st') \<and> drv_core st' \<and>
           (history st', pending st') =
             (if last cmd = LF_byte then (push_bounded cap (history st) cmd, []) else (history st, cmd)) \<and>
           buff_size (aesd_device st') =
             (if last cmd = LF_byte then buff_size (aesd_device st) + of_nat (length cmd)
              else buff_size (aesd_device st)) \<and>
           pbuffer (aesd_device st') = pbuffer (aesd_device st)"
proof -
  let ?fe = "full_user_entry st" and ?h = "kheap st" and ?p = "pbuffer (aesd_device st)"
  from core obtain b where p: "?p \<noteq> NULL" "?h ?p = Some (Ring b)" "ring_of st = b"
    and r: "ring_inv ?h b" and pend: "pending_inv ?h b ?fe" by (rule drv_coreE)
  let ?fe' = "\<lparr>buffptr = tmp, esize = esize ?fe + count\<rparr>"
  have sum: "unat (esize ?fe + count) = length cmd"
    using cmd by (simp add: word_nat KMALLOC_MAX_SIZE_def)
  have lastix: "unat (esize ?fe + count - 1) = length cmd - 1"
    using sum cmd(2) by (metis length_greater_0_conv unat_dec)
  have lastc: "cmd ! (length cmd - 1) = last cmd" using cmd by (simp add: last_conv_nth)
  obtain l where pr: "aesd_buffer_print k ''Received from the user'' tmp (unat (esize ?fe)) count st =
      Inr (st\<lparr>klog := l\<rparr>)"
    using buffer_print_ok [OF k tmp(1,2), of "unat (esize ?fe)" count] cmd
    by (auto simp: KMALLOC_MAX_SIZE_def)
  from free_pending [OF r pend] obtain h1 where h1: "kfree (buffptr ?fe) ?h = Inr h1"
    "\<forall>q. q \<noteq> buffptr ?fe \<longrightarrow> h1 q = ?h q"
    "\<forall>e \<in> set (cb_contents b). h1 (buffptr e) = ?h (buffptr e)" "ring_inv h1 b" by blast
  have h1tmp: "h1 tmp = Some (Bytes cmd)" using h1(2) tmp by simp
  have ld: "load_bytes ?h tmp (length cmd - 1) 1 = Inr [last cmd]"
    "load_bytes h1 tmp (length cmd - 1) 1 = Inr [last cmd]"
    using load_bytes_nth tmp(1,2) h1tmp cmd(2) lastc by force+
  have pne: "?p \<noteq> buffptr ?fe"
    using pend p(1,2) by (auto simp: pending_inv_def no_entry_def elim!: ownsE)
  with h1(2) p have h1p: "h1 ?p = Some (Ring b)" by simp
  have own': "owns h1 ?fe'" using tmp h1tmp cmd sum by (intro ownsI [of _ _ cmd]) auto
  have new': "buffptr ?fe' \<notin> buffptr ` set (cb_contents b)" using tmp(3) p(3) by simp
  define st1 where "st1 = (set_heap h1 (printk (LastChar (last cmd)) (st\<lparr>klog := l\<rparr>)))\<lparr>full_user_entry := ?fe'\<rparr>"
  have st1: "kheap st1 = h1" "full_user_entry st1 = ?fe'" "aesd_device st1 = aesd_device st"
    by (simp_all add: st1_def)
  have step: "write_copied k tmp count pos st =
      res_bind (if last cmd = LF_byte then write_command k st1 else Inr st1) (\<lambda>st. Inr (count, pos + count, st))"
    using pr ld h1(1) lastix by (simp add: write_copied_def Let_def st1_def)
  have hist: "history st = map (\<lambda>e. bytes_at h1 (buffptr e)) (cb_contents b)"
    using p h1(3) by (auto simp: history_def bytes_at_def)
  show ?thesis
  proof (cases "last cmd = LF_byte")
    case False
    have "drv_core st1"
      using p(1) h1p h1(4) own' new' by (intro drv_coreI [of _ b]) (auto simp: st1 pending_inv_def)
    moreover have "history st1 = history st"
      using h1p hist by (simp add: history_def ring_of_def st1)
    moreover have "pending st1 = cmd"
      using tmp h1tmp by (auto simp: pending_def st1 bytes_at_def no_entry_def)
    ultimately show ?thesis using step False st1 by simp
  next
    case True
    obtain b' l' where wc: "write_command k st1 =
        Inr (st1\<lparr>klog := l', kheap := (evicted_heap h1 b)(?p \<mapsto> Ring b'),
          aesd_device := (aesd_device st)\<lparr>buff_size := buff_size (aesd_device st) + esize ?fe'\<rparr>,
          full_user_entry := no_entry\<rparr>)"
      and b': "aesd_circular_buffer_add_entry b ?fe' = Inr b'" "cb_inv b'"
        "cb_contents b' = push_bounded cap (cb_contents b) ?fe'"
      using write_command_ok [OF k, of st1 b] h1p p(1) h1(4) own' new' by (auto simp: st1)
    note rp = ring_inv_push [OF h1(4) own' new' h1p b']
    let ?st' = "st1\<lparr>klog := l', kheap := (evicted_heap h1 b)(?p \<mapsto> Ring b'),
          aesd_device := (aesd_device st)\<lparr>buff_size := buff_size (aesd_device st) + esize ?fe'\<rparr>,
          full_user_entry := no_entry\<rparr>"
    have "history ?st' = map (\<lambda>e. bytes_at h1 (buffptr e)) (cb_contents b')"
      using rp(2) by (auto simp: history_def ring_of_def bytes_at_def)
    also have "\<dots> = push_bounded cap (history st) cmd"
      unfolding b'(3) map_push_bounded hist using h1tmp by (simp add: bytes_at_def)
    finally have "history ?st' = push_bounded cap (history st) cmd" .
    moreover have "drv_core ?st'"
      using p rp(1) by (intro drv_coreI [of _ b']) (simp_all add: pending_inv_def)
    moreover have "esize ?fe' = of_nat (length cmd)" using sum by (intro word_eq_of_natI) simp
    ultimately show ?thesis using step True wc by (simp add: pending_def)
  qed
qed

text \<open>The copying part of a write: the new block ends up holding the pending bytes and the new ones.\<close>

lemma write_block_ok:
  assumes km: "kmalloc_ok k" "kmalloc k (count + esize (full_user_entry st)) (kheap st) = Some (tmp, junk)"
    and pend: "pending_inv (kheap st) b (full_user_entry st)"
    and bs: "length bs = unat count" and cnt: "unat count \<le> MAX_RW_COUNT"
  shows "\<exists>h. res_bind (load_bytes ((kheap st)(tmp \<mapsto> Bytes junk)) (buffptr (full_user_entry st)) 0
                 (unat (esize (full_user_entry st)))) (\<lambda>old.
             store_bytes ((kheap st)(tmp \<mapsto> Bytes junk)) tmp 0 old) = Inr h \<and>
           store_bytes h tmp (unat (esize (full_user_entry st))) bs =
             Inr ((kheap st)(tmp \<mapsto> Bytes (pending st @ bs)))"
    and "length (pending st @ bs) \<le> KMALLOC_MAX_SIZE"
    and "length (pending st @ bs) = unat (esize (full_user_entry st)) + unat count"
    and "tmp \<noteq> NULL" and "kheap st tmp = None" and "tmp \<noteq> buffptr (full_user_entry st)"
proof -
  let ?fe = "full_user_entry st" and ?h = "(kheap st)(tmp \<mapsto> Bytes junk)"
  note tmp = kmalloc_okD [OF km]
  note pb = pending_bytes [OF pend]
  have sum: "unat (count + esize ?fe) = unat count + unat (esize ?fe)"
    using cnt pb(1,2) by (intro unat_add_small) (simp add: MAX_RW_COUNT_def KMALLOC_MAX_SIZE_def)
  show ne: "tmp \<noteq> buffptr ?fe"
    using tmp pend by (auto simp: pending_inv_def no_entry_def elim: ownsE)
  show "tmp \<noteq> NULL" "kheap st tmp = None" using tmp by auto
  show "length (pending st @ bs) \<le> KMALLOC_MAX_SIZE" using tmp sum pb bs by simp
  show len: "length (pending st @ bs) = unat (esize ?fe) + unat count" using pb bs by simp
  have ld: "load_bytes ?h (buffptr ?fe) 0 (unat (esize ?fe)) = Inr (pending st)"
    using pb(3) ne by blast
  let ?v = "take 0 junk @ pending st @ drop (0 + length (pending st)) junk"
  have s1: "store_bytes ?h tmp 0 (pending st) = Inr (?h(tmp \<mapsto> Bytes ?v))"
    using tmp sum pb by (intro store_bytes_ok) auto
  have s2: "store_bytes (?h(tmp \<mapsto> Bytes ?v)) tmp (unat (esize ?fe)) bs =
      Inr ((?h(tmp \<mapsto> Bytes ?v))
        (tmp \<mapsto> Bytes (take (unat (esize ?fe)) ?v @ bs @ drop (unat (esize ?fe) + length bs) ?v)))"
    using tmp sum pb bs by (intro store_bytes_ok) auto
  have "take (unat (esize ?fe)) ?v @ bs @ drop (unat (esize ?fe) + length bs) ?v = pending st @ bs"
    using tmp sum pb bs by simp
  with s1 s2 ld show "\<exists>h. res_bind (load_bytes ?h (buffptr ?fe) 0 (unat (esize ?fe))) (\<lambda>old.
             store_bytes ?h tmp 0 old) = Inr h \<and>
           store_bytes h tmp (unat (esize ?fe)) bs = Inr ((kheap st)(tmp \<mapsto> Bytes (pending st @ bs)))"
    by simp
qed

lemma aesd_write_steps:
  assumes core: "drv_core st" and k: "kernel_ok k" and o: "private_data filp"
    and cnt: "unat count \<le> MAX_RW_COUNT"
    and km: "kmalloc k (count + esize (full_user_entry st)) (kheap st) = Some (tmp, junk)"
    and cp: "copy_from_user k um buff count = (bs, left)"
  shows "aesd_write k False filp buff count pos um st =
      res_bind
        (if left \<noteq> 0
         then Inr (- EFAULT, pos, set_lock True (printk (WriteMsg count pos) st))
         else write_copied k tmp count pos
           (set_heap ((kheap st)(tmp \<mapsto> Bytes (pending st @ bs)))
              (set_lock True (printk (WriteMsg count pos) st))))
        (\<lambda>(retval, pos, st). Inr (retval, pos, set_lock False st))"
proof -
  from k have km_ok: "kmalloc_ok k" and cp_ok: "copy_from_user_ok k" by (auto simp: kernel_ok_def)
  have len: "length bs = unat count" using cp_ok cp by (rule copy_from_user_length)
  from core obtain b where pend: "pending_inv (kheap st) b (full_user_entry st)" by (rule drv_coreE)
  from write_block_ok [OF km_ok km pend len cnt] obtain h old where
    ld: "load_bytes ((kheap st)(tmp \<mapsto> Bytes junk)) (buffptr (full_user_entry st)) 0
      (unat (esize (full_user_entry st))) = Inr old"
    and s1: "store_bytes ((kheap st)(tmp \<mapsto> Bytes junk)) tmp 0 old = Inr h"
    and s2: "store_bytes h tmp (unat (esize (full_user_entry st))) bs =
      Inr ((kheap st)(tmp \<mapsto> Bytes (pending st @ bs)))"
    and tmp: "tmp \<noteq> NULL" "kheap st tmp = None"
    by (auto simp: res_bind_Inr_iff)
  have fr: "kfree tmp ((kheap st)(tmp \<mapsto> Bytes (pending st @ bs))) = Inr (kheap st)"
    using tmp by (simp add: kfree_def fun_upd_idem)
  have sh: "set_heap (kheap st) (set_lock True (printk (WriteMsg count pos) st)) =
      set_lock True (printk (WriteMsg count pos) st)"
    by (simp add: set_heap_def set_lock_def printk_def)
  from ld s1 s2 fr sh km cp o show ?thesis
    by (simp add: aesd_write_def Let_def)
qed

end
