(* ===== verification/Driver_Write.thy ===== *)
theory Driver_Write
  imports Char_Driver_Inv
begin

section \<open>Properties of start-up and of write\<close>

text \<open>
  \<open>aesd_init_module\<close> establishes the driver's invariant, and \<open>aesd_write\<close> keeps it while it
  performs the abstract write; every failing path leaves the device as it was. The one input that
  makes \<open>aesd_write\<close> leave defined behaviour, a zero-length write with nothing pending, is
  characterised exactly.
\<close>

text \<open>The module before it is loaded, and a loaded module on the demonstration kernel.\<close>

definition unloaded :: drv where
  "unloaded = \<lparr>aesd_device = \<lparr>pbuffer = NULL, lock = False, buff_size = 0, cdev_added = None\<rparr>,
     full_user_entry = no_entry, kheap = Map.empty, aesd_major = 0, region = None, klog = []\<rparr>"

definition loaded :: drv where
  "loaded = snd (aesd_init_module demo_kernel (0, 0xFA00000) 0 unloaded)"

definition opened :: kfile where
  "opened = \<lparr>f_pos = 0, private_data = True\<rparr>"

definition demo_user :: umem where
  "demo_user = [1000 \<mapsto> 97, 1001 \<mapsto> 98, 1002 \<mapsto> 10]"

subsection \<open>Start-up\<close>

lemma drv_core_fresh:
  assumes "pbuffer (aesd_device st) \<noteq> NULL"
    and "kheap st (pbuffer (aesd_device st)) = Some (Ring aesd_circular_buffer_init)"
    and "full_user_entry st = no_entry"
  shows "drv_core st" and "history st = []" and "pending st = []"
proof -
  have "ring_inv (kheap st) aesd_circular_buffer_init"
    by (simp add: ring_inv_def cb_inv_init cb_contents_init)
       (simp add: aesd_circular_buffer_init_def cap_def no_entry_def)
  with assms show "drv_core st"
    by (intro drv_coreI) (auto simp: pending_inv_def)
  show "history st = []" "pending st = []"
    using assms by (simp_all add: history_def pending_def ring_of_def cb_contents_init)
qed

lemma init_module_ok:
  assumes k: "kernel_ok k" and e: "full_user_entry st = no_entry"
    and i: "aesd_init_module k (res, dev) cdev_res st = (0, st')"
  shows "drv_inv st' \<and> history st' = [] \<and> pending st' = [] \<and> region st' = Some dev \<and>
         cdev_added (aesd_device st') = Some (MKDEV k (MAJOR k dev) 0)"
proof -
  have "\<not> sint res < 0" using i by (auto simp: aesd_init_module_def Let_def split: if_splits)
  moreover obtain p junk where km: "kmalloc k sizeof_circular_buffer (kheap st) = Some (p, junk)"
    using i calculation
    by (cases "kmalloc k sizeof_circular_buffer (kheap st)") (auto simp: aesd_init_module_def Let_def ENOMEM_def)
  moreover have "cdev_res = 0"
    using i calculation by (auto simp: aesd_init_module_def aesd_setup_cdev_def Let_def split: if_splits)
  ultimately have r: "region st' = Some dev" "\<not> lock (aesd_device st')"
    "cdev_added (aesd_device st') = Some (MKDEV k (MAJOR k dev) 0)"
    "pbuffer (aesd_device st') = p" "full_user_entry st' = no_entry"
    "kheap st' p = Some (Ring aesd_circular_buffer_init)"
    using i e by (auto simp: aesd_init_module_def aesd_setup_cdev_def aesd_minor_def Let_def)
  have "p \<noteq> NULL" using k kmalloc_okD [OF _ km] by (simp add: kernel_ok_def)
  with drv_core_fresh [of st'] r show ?thesis by (simp add: drv_inv_def)
qed

text \<open>
  C14. Loading the module: when \<open>aesd_init_module\<close> returns 0 the device numbers are registered,
  the device is added, and the driver is in a state that satisfies its invariant with no stored
  and no pending bytes. On every other path the device numbers are released again, and the heap is
  unchanged unless \<open>cdev_add\<close> was the call that failed, in which case exactly the ring's block
  stays allocated.
\<close>

theorem init_module_spec:
  assumes "kernel_ok k" and "full_user_entry st = no_entry" and "region st = None"
    and "aesd_init_module k (res, dev) cdev_res st = (ret, st')"
  shows "if ret = 0
         then drv_inv st' \<and> history st' = [] \<and> pending st' = [] \<and> region st' = Some dev \<and>
              cdev_added (aesd_device st') = Some (MKDEV k (MAJOR k dev) 0)
         else region st' = None \<and>
              (kheap st' = kheap st \<or>
               (cdev_res \<noteq> 0 \<and> (\<exists>p. kheap st p = None \<and>
                  kheap st' = (kheap st)(p \<mapsto> Ring aesd_circular_buffer_init))))"
proof (cases "ret = 0")
  case True
  with init_module_ok [OF assms(1,2), of res dev cdev_res st'] assms(4) show ?thesis by simp
next
  case False
  have k: "kmalloc_ok k" using assms(1) by (simp add: kernel_ok_def)
  have "region st' = None \<and> (kheap st' = kheap st \<or>
     cdev_res \<noteq> 0 \<and> (\<exists>p. kheap st p = None \<and> kheap st' = (kheap st)(p \<mapsto> Ring aesd_circular_buffer_init)))"
  proof (cases "kmalloc k sizeof_circular_buffer (kheap st)")
    case None
    with assms(3,4) show ?thesis
      by (auto simp: aesd_init_module_def Let_def printk_def split: if_splits)
  next
    case (Some x)
    then obtain p junk where km: "kmalloc k sizeof_circular_buffer (kheap st) = Some (p, junk)"
      by (cases x) auto
    with kmalloc_okD [OF k km] assms(3,4) False show ?thesis
      by (auto simp: aesd_init_module_def aesd_setup_cdev_def Let_def printk_def split: if_splits)
  qed
  with False show ?thesis by simp
qed

lemma loaded_result: "aesd_init_module demo_kernel (0, 0xFA00000) 0 unloaded = (0, loaded)"
  by (simp add: loaded_def aesd_init_module_def aesd_setup_cdev_def demo_kernel_def unloaded_def
      Let_def KMALLOC_MAX_SIZE_def sizeof_circular_buffer_def)

theorem init_module_spec_witness:
  "kernel_ok demo_kernel \<and> drv_inv loaded \<and> history loaded = [] \<and> region loaded = Some 0xFA00000"
proof -
  have u: "full_user_entry unloaded = no_entry" "region unloaded = None"
    by (simp_all add: unloaded_def)
  from init_module_spec [OF demo_kernel_ok u loaded_result] demo_kernel_ok show ?thesis by simp
qed

lemma loaded_facts:
  "full_user_entry loaded = no_entry" "kheap loaded = [64 \<mapsto> Ring aesd_circular_buffer_init]"
  "pbuffer (aesd_device loaded) = 64" "\<not> lock (aesd_device loaded)"
  by (simp_all add: loaded_def aesd_init_module_def aesd_setup_cdev_def demo_kernel_def unloaded_def
      Let_def KMALLOC_MAX_SIZE_def sizeof_circular_buffer_def)

lemma loaded_inv: "drv_inv loaded" "history loaded = []" "pending loaded = []"
  using drv_core_fresh [of loaded] loaded_facts by (simp_all add: drv_inv_def)

subsection \<open>Write\<close>

lemma write_success:
  assumes inv: "drv_inv st" and k: "kernel_ok k" and o: "private_data filp"
    and ne: "0 < unat count \<or> pending st \<noteq> []" and cnt: "unat count \<le> MAX_RW_COUNT"
    and km: "kmalloc k (count + esize (full_user_entry st)) (kheap st) = Some (tmp, junk)"
    and cp: "copy_from_user k um buff count = (bs, 0)"
  shows "\<exists>st'. aesd_write k False filp buff count pos um st = Inr (count, pos + count, st') \<and>
           drv_inv st' \<and> (history st', pending st') = spec_write bs (history st, pending st) \<and>
           buff_size (aesd_device st') = buff_size (aesd_device st) +
             (if last (pending st @ bs) = LF_byte then of_nat (length (pending st @ bs)) else 0) \<and>
           pbuffer (aesd_device st') = pbuffer (aesd_device st)"
proof -
  from k have km_ok: "kmalloc_ok k" and cp_ok: "copy_from_user_ok k" by (auto simp: kernel_ok_def)
  have len: "length bs = unat count" using cp_ok cp by (rule copy_from_user_length)
  from inv have core: "drv_core st" by (simp add: drv_inv_def)
  then obtain b where pend: "pending_inv (kheap st) b (full_user_entry st)" by (rule drv_coreE)
  note blk = write_block_ok [OF km_ok km pend len cnt]
  let ?cmd = "pending st @ bs"
  let ?st0 = "set_lock True (printk (WriteMsg count pos) st)"
  let ?st1 = "set_heap ((kheap st)(tmp \<mapsto> Bytes ?cmd)) ?st0"
  have core0: "drv_core ?st0" "kheap ?st0 tmp = None" using core blk(5) by simp_all
  note al = core_abs_alloc [OF core0, of "Bytes ?cmd"] free_addr_unused [OF core0]
  have ne': "?cmd \<noteq> []" using ne len by auto
  from write_copied_ok [OF km_ok, of ?st1 tmp ?cmd count pos] obtain st' where
    wc: "write_copied k tmp count pos ?st1 = Inr (count, pos + count, st')" "drv_core st'"
      "(history st', pending st') =
        (if last ?cmd = LF_byte then (push_bounded cap (history st) ?cmd, []) else (history st, ?cmd))"
      "buff_size (aesd_device st') =
        (if last ?cmd = LF_byte then buff_size (aesd_device st) + of_nat (length ?cmd)
         else buff_size (aesd_device st))"
      "pbuffer (aesd_device st') = pbuffer (aesd_device st)"
    using al blk(2-4,6) ne' by auto
  have "aesd_write k False filp buff count pos um st = Inr (count, pos + count, set_lock False st')"
    using aesd_write_steps [OF core k o cnt km cp, of pos] wc(1) by simp
  with wc ne' show ?thesis by (auto simp: drv_inv_def spec_write_def)
qed

text \<open>
  C2. Write implements the abstract write: a call that gets the lock, its memory and the user's
  bytes returns the full count, advances the position by it, releases the lock, keeps the
  invariant, and changes the stored and pending commands exactly as the specification says. The
  bytes are the caller's: they are what user memory holds at \<open>buff\<close>.
\<close>

theorem aesd_write_refines:
  assumes "drv_inv st" and "kernel_ok k" and "private_data filp"
    and "0 < unat count \<or> pending st \<noteq> []" and "unat count \<le> MAX_RW_COUNT"
    and "kmalloc k (count + esize (full_user_entry st)) (kheap st) \<noteq> None"
    and "copy_from_user k um buff count = (bs, 0)"
  shows "\<exists>st'. aesd_write k False filp buff count pos um st = Inr (count, pos + count, st') \<and>
           drv_inv st' \<and> (history st', pending st') = spec_write bs (history st, pending st) \<and>
           length bs = unat count \<and> user_data um buff bs"
proof -
  from assms(6) obtain tmp junk where
    km: "kmalloc k (count + esize (full_user_entry st)) (kheap st) = Some (tmp, junk)" by auto
  have "length bs = unat count" "user_data um buff bs"
    using assms(2,7) by (auto simp: kernel_ok_def copy_from_user_ok_def)
  with write_success [OF assms(1-5) km assms(7), of pos] show ?thesis by auto
qed

lemma demo_write_input:
  "copy_from_user demo_kernel demo_user 1000 3 = ([97, 98, 10], 0)"
  "kmalloc demo_kernel (3 + esize (full_user_entry loaded)) (kheap loaded) \<noteq> None"
  "private_data opened"
  by (simp_all add: demo_kernel_def demo_user_def KMALLOC_MAX_SIZE_def loaded_facts no_entry_def
      opened_def)

theorem aesd_write_refines_witness:
  "\<exists>st'. aesd_write demo_kernel False opened 1000 3 0 demo_user loaded = Inr (3, 3, st') \<and>
     drv_inv st' \<and> history st' = [[97, 98, 10]] \<and> pending st' = []"
proof -
  have c: "0 < unat (3 :: u64) \<or> pending loaded \<noteq> []" "unat (3 :: u64) \<le> MAX_RW_COUNT"
    by (simp_all add: MAX_RW_COUNT_def)
  from aesd_write_refines [OF loaded_inv(1) demo_kernel_ok demo_write_input(3) c
      demo_write_input(2) demo_write_input(1), of 0]
  show ?thesis by (auto simp: loaded_inv spec_write_def push_bounded_def)
qed

lemma write_no_memory:
  assumes "drv_inv st" and "private_data filp"
    and "kmalloc k (count + esize (full_user_entry st)) (kheap st) = None"
  shows "aesd_write k False filp buff count pos um st =
    Inr (- ENOMEM, pos, set_lock False (set_lock True (printk (WriteMsg count pos) st)))"
  using assms by (simp add: aesd_write_def Let_def)

lemma unlock_lock:
  "\<not> lock (aesd_device st) \<Longrightarrow> aesd_device (set_lock False (set_lock True st)) = aesd_device st"
  by (simp add: set_lock_def)

lemma zero_write_faults:
  assumes core: "drv_core st" and k: "kernel_ok k" and o: "private_data filp" and e: "pending st = []"
    and km: "kmalloc k (0 + esize (full_user_entry st)) (kheap st) = Some (tmp, junk)"
    and cp: "copy_from_user k um buff 0 = (bs, 0)"
  shows "aesd_write k False filp buff 0 pos um st = Inl OutOfBounds"
proof -
  from k have km_ok: "kmalloc_ok k" and cp_ok: "copy_from_user_ok k" by (auto simp: kernel_ok_def)
  have cnt: "unat (0 :: u64) \<le> MAX_RW_COUNT" by simp
  note steps = aesd_write_steps [OF core k o cnt km cp, of pos]
  from core obtain b where pend: "pending_inv (kheap st) b (full_user_entry st)" by (rule drv_coreE)
  with e have fe: "full_user_entry st = no_entry"
    by (auto simp: pending_inv_def pending_def owns_def bytes_at_def split: option.splits kobj.splits if_splits)
  from copy_from_user_length [OF cp_ok cp] have bs: "bs = []" by simp
  let ?st = "set_heap ((kheap st)(tmp \<mapsto> Bytes [])) (set_lock True (printk (WriteMsg 0 pos) st))"
  from kmalloc_okD [OF km_ok km] have tmp: "tmp \<noteq> NULL" "kheap ?st tmp = Some (Bytes [])" by auto
  from buffer_print_ok [OF km_ok tmp(2,1), of 0 0] obtain l where
    "aesd_buffer_print k ''Received from the user'' tmp 0 0 ?st = Inr (?st\<lparr>klog := l\<rparr>)" by auto
  with tmp fe have "write_copied k tmp 0 pos ?st = Inl OutOfBounds"
    by (simp add: write_copied_def Let_def no_entry_def load_bytes_def)
  with steps e bs show ?thesis by simp
qed

text \<open>Every outcome of a write, with the condition for each.\<close>

lemma aesd_write_outcome:
  assumes inv: "drv_inv st" and k: "kernel_ok k" and o: "private_data filp"
    and cnt: "unat count \<le> MAX_RW_COUNT"
  obtains
    (failed) ret st' where "aesd_write k intr filp buff count pos um st = Inr (ret, pos, st')"
      "ret \<in> {- ERESTARTSYS, - ENOMEM, - EFAULT}" "kheap st' = kheap st"
      "full_user_entry st' = full_user_entry st" "aesd_device st' = aesd_device st" "drv_inv st'"
      "intr \<or> kmalloc k (count + esize (full_user_entry st)) (kheap st) = None \<or>
         snd (copy_from_user k um buff count) \<noteq> 0"
  | (written) st' where "aesd_write k intr filp buff count pos um st = Inr (count, pos + count, st')"
      "drv_inv st'" "count \<noteq> 0 \<or> pending st \<noteq> []"
      "(history st', pending st') = spec_write (fst (copy_from_user k um buff count)) (history st, pending st)"
  | (fault) "aesd_write k intr filp buff count pos um st = Inl OutOfBounds"
      "\<not> intr" "kmalloc k (count + esize (full_user_entry st)) (kheap st) \<noteq> None"
      "snd (copy_from_user k um buff count) = 0" "count = 0" "pending st = []"
proof -
  from inv have core: "drv_core st" and ul: "\<not> lock (aesd_device st)" by (simp_all add: drv_inv_def)
  let ?st0 = "printk (WriteMsg count pos) st"
  let ?st1 = "set_lock False (set_lock True ?st0)"
  have frame: "kheap ?st1 = kheap st" "full_user_entry ?st1 = full_user_entry st"
    "aesd_device ?st1 = aesd_device st" "drv_inv ?st1"
    using unlock_lock [of ?st0] ul inv by (simp_all add: drv_inv_def)
  consider (intr) "intr"
    | (nomem) "\<not> intr" "kmalloc k (count + esize (full_user_entry st)) (kheap st) = None"
    | (mem) tmp junk bs left where "\<not> intr"
        "kmalloc k (count + esize (full_user_entry st)) (kheap st) = Some (tmp, junk)"
        "copy_from_user k um buff count = (bs, left)"
    by (cases "kmalloc k (count + esize (full_user_entry st)) (kheap st)"; cases "copy_from_user k um buff count") auto
  then show thesis
  proof cases
    case intr
    show thesis
      by (rule failed [of "- ERESTARTSYS" ?st0])
         (use intr o inv in \<open>simp_all add: aesd_write_def Let_def drv_inv_def\<close>)
  next
    case nomem
    show thesis
      by (rule failed [of "- ENOMEM" ?st1]) (use nomem write_no_memory [OF inv o] frame in simp_all)
  next
    case mem
    note steps = aesd_write_steps [OF core k o cnt mem(2,3), of pos]
    consider (efault) "left \<noteq> 0" | (data) "left = 0" "0 < unat count \<or> pending st \<noteq> []"
      | (zero) "left = 0" "count = 0" "pending st = []" by (auto simp: unat_gt_0)
    then show thesis
    proof cases
      case efault
      show thesis
        by (rule failed [of "- EFAULT" ?st1]) (use steps mem efault frame in simp_all)
    next
      case data
      from write_success [OF inv k o data(2) cnt mem(2), of um buff bs pos] data mem obtain st' where
        w: "aesd_write k False filp buff count pos um st = Inr (count, pos + count, st')" "drv_inv st'"
        "(history st', pending st') = spec_write bs (history st, pending st)" by auto
      show thesis by (rule written [of st']) (use w data mem in \<open>auto simp: unat_gt_0\<close>)
    next
      case zero
      show thesis
        by (rule fault) (use zero mem zero_write_faults [OF core k o zero(3)] in auto)
    qed
  qed
qed

text \<open>
  C12. A failed write changes nothing: whenever \<open>aesd_write\<close> returns a negative value it is one of
  the three documented errors, the file position, the heap, the pending command and the device are
  what they were (so nothing leaked and the lock is free), and the invariant still holds.
\<close>

theorem aesd_write_failure_frame:
  assumes inv: "drv_inv st" and k: "kernel_ok k" and o: "private_data filp"
    and cnt: "unat count \<le> MAX_RW_COUNT"
    and res: "aesd_write k intr filp buff count pos um st = Inr (ret, pos', st')" "sint ret < 0"
  shows "ret \<in> {- ERESTARTSYS, - ENOMEM, - EFAULT} \<and> pos' = pos \<and> kheap st' = kheap st \<and>
         full_user_entry st' = full_user_entry st \<and> aesd_device st' = aesd_device st \<and> drv_inv st'"
proof -
  have pos_cnt: "\<not> sint count < 0"
    using cnt sint_nonneg_of_small [of count] by (simp add: MAX_RW_COUNT_def)
  show ?thesis
    by (rule aesd_write_outcome [OF inv k o cnt, of intr buff pos um]) (use res pos_cnt in auto)
qed

theorem aesd_write_failure_frame_witness:
  "\<exists>st'. aesd_write demo_kernel False opened 1000 4 7 demo_user loaded = Inr (- EFAULT, 7, st') \<and>
     kheap st' = kheap loaded \<and> drv_inv st'"
proof -
  have cp: "copy_from_user demo_kernel demo_user 1000 4 = ([97, 98, 10, 0], 1)"
    by (simp add: demo_kernel_def demo_user_def)
  have km: "\<exists>tmp junk. kmalloc demo_kernel (4 + esize (full_user_entry loaded)) (kheap loaded) = Some (tmp, junk)"
    by (simp add: demo_kernel_def KMALLOC_MAX_SIZE_def loaded_facts no_entry_def)
  have c: "unat (4 :: u64) \<le> MAX_RW_COUNT" by (simp add: MAX_RW_COUNT_def)
  have core: "drv_core loaded" using loaded_inv(1) by (simp add: drv_inv_def)
  from km obtain st' where
    w: "aesd_write demo_kernel False opened 1000 4 7 demo_user loaded = Inr (- EFAULT, 7, st')"
    using aesd_write_steps [OF core demo_kernel_ok demo_write_input(3) c _ cp, of _ _ 7] by auto
  have "sint (- EFAULT) < 0" by (simp add: EFAULT_def)
  from aesd_write_failure_frame [OF loaded_inv(1) demo_kernel_ok demo_write_input(3) c w this] w
  show ?thesis by blast
qed

text \<open>
  C13. Exactly one input is unsafe: from a state that satisfies the invariant, \<open>aesd_write\<close> leaves
  defined behaviour just when an uninterrupted zero-length write finds no pending bytes, gets its
  (empty) block and copies nothing; it then reads the byte before the block. Every other call
  returns.
\<close>

theorem aesd_write_safe_iff:
  assumes inv: "drv_inv st" and k: "kernel_ok k" and o: "private_data filp"
    and cnt: "unat count \<le> MAX_RW_COUNT"
  shows "is_ok (aesd_write k intr filp buff count pos um st) \<longleftrightarrow>
         intr \<or> kmalloc k (count + esize (full_user_entry st)) (kheap st) = None \<or>
         snd (copy_from_user k um buff count) \<noteq> 0 \<or> count \<noteq> 0 \<or> pending st \<noteq> []"
  by (rule aesd_write_outcome [OF inv k o cnt, of intr buff pos um]) auto

theorem aesd_write_safe_iff_witness:
  "\<not> is_ok (aesd_write demo_kernel False opened 1000 0 0 demo_user loaded) \<and>
   is_ok (aesd_write demo_kernel False opened 1000 3 0 demo_user loaded)"
proof -
  have c: "unat (0 :: u64) \<le> MAX_RW_COUNT" "unat (3 :: u64) \<le> MAX_RW_COUNT"
    by (simp_all add: MAX_RW_COUNT_def)
  have "kmalloc demo_kernel (0 + esize (full_user_entry loaded)) (kheap loaded) \<noteq> None"
    "snd (copy_from_user demo_kernel demo_user 1000 0) = 0"
    by (simp_all add: demo_kernel_def KMALLOC_MAX_SIZE_def loaded_facts no_entry_def)
  with aesd_write_safe_iff [OF loaded_inv(1) demo_kernel_ok demo_write_input(3) c(1), of False 1000 0 demo_user]
    aesd_write_safe_iff [OF loaded_inv(1) demo_kernel_ok demo_write_input(3) c(2), of False 1000 0 demo_user]
  show ?thesis by (simp add: loaded_inv)
qed

end
