(* ===== verification/Driver_Read.thy ===== *)
theory Driver_Read
  imports Driver_Write
begin

section \<open>Properties of read\<close>

text \<open>
  \<open>aesd_read\<close> answers from one stored command per call: the rest of the command at the position.
  The theorems say what is returned and what user memory receives, and make exact the ways in
  which the code departs from the contract of a read call: the copy to the user and the advance of
  the position ignore \<open>count\<close>, and the intermediate block is never freed.
\<close>

text \<open>The rest of the command that holds position \<open>n\<close>.\<close>

definition spec_read :: "byte list list \<Rightarrow> nat \<Rightarrow> byte list" where
  "spec_read hist n =
     (case locate (map length hist) n of None \<Rightarrow> [] | Some (i, k) \<Rightarrow> drop k (hist ! i))"

text \<open>A device after one command was written on the demonstration kernel.\<close>

definition one_command :: drv where
  "one_command = loaded
     \<lparr>kheap := [64 \<mapsto> Ring (aesd_circular_buffer_init
        \<lparr>entry := \<lparr>buffptr = 128, esize = 3\<rparr> # replicate 9 no_entry, in_offs := 1\<rparr>),
        128 \<mapsto> Bytes [97, 98, 10]],
      aesd_device := (aesd_device loaded)\<lparr>buff_size := 3\<rparr>\<rparr>"

subsection \<open>The specification\<close>

lemma spec_read_Nil_iff:
  assumes "\<forall>c \<in> set hist. c \<noteq> []"
  shows "spec_read hist n = [] \<longleftrightarrow> length (concat hist) \<le> n"
proof (cases "locate (map length hist) n")
  case None
  then have "length (concat hist) \<le> n" by (simp add: locate_None_iff sum_list_append_concat)
  with None show ?thesis by (simp add: spec_read_def)
next
  case (Some r)
  then obtain i k where l: "locate (map length hist) n = Some (i, k)" by (cases r) auto
  from locate_Some_bounds [OF l] have "i < length hist" "k < length (hist ! i)" by auto
  moreover have "\<not> length (concat hist) \<le> n"
    using l locate_None_iff [of "map length hist" n] by (simp add: sum_list_append_concat)
  ultimately show ?thesis using l by (simp add: spec_read_def)
qed

text \<open>What is returned continues the stored bytes at the position.\<close>

lemma spec_read_prefix:
  "\<exists>rest. drop n (concat hist) = spec_read hist n @ rest"
proof (induction hist arbitrary: n)
  case Nil
  then show ?case by (simp add: spec_read_def)
next
  case (Cons c hist)
  show ?case
  proof (cases "n < length c")
    case True
    then show ?thesis by (simp add: spec_read_def)
  next
    case False
    then have "spec_read (c # hist) n = spec_read hist (n - length c)"
      by (auto simp: spec_read_def split: option.splits)
    with False Cons.IH [of "n - length c"] show ?thesis by simp
  qed
qed

subsection \<open>One read\<close>

lemma history_sizes:
  assumes "drv_core st"
  shows "entry_sizes (ring_of st) = map length (history st)"
    and "sum_list (entry_sizes (ring_of st)) < 2 ^ 32"
    and "\<forall>c \<in> set (history st). c \<noteq> []"
    and "\<forall>c \<in> set (history st). length c \<le> KMALLOC_MAX_SIZE"
proof -
  from assms obtain b where b: "ring_of st = b" "ring_inv (kheap st) b" by (rule drv_coreE)
  then have own: "\<forall>e \<in> set (cb_contents b). owns (kheap st) e" and inv: "cb_inv b"
    by (auto simp: ring_inv_def)
  have len: "length (bytes_at (kheap st) (buffptr e)) = unat (esize e)"
    "bytes_at (kheap st) (buffptr e) \<noteq> []" "unat (esize e) \<le> KMALLOC_MAX_SIZE"
    if "e \<in> set (cb_contents b)" for e
    using own that by (auto elim!: ownsE)
  show "entry_sizes (ring_of st) = map length (history st)"
    using len(1) b(1) by (simp add: entry_sizes_def history_def)
  show "\<forall>c \<in> set (history st). c \<noteq> []" "\<forall>c \<in> set (history st). length c \<le> KMALLOC_MAX_SIZE"
    using len b(1) by (auto simp: history_def)
  have "sum_list (entry_sizes b) \<le> length (cb_contents b) * KMALLOC_MAX_SIZE"
    using len(3) sum_list_mono [of "cb_contents b" "\<lambda>e. unat (esize e)" "\<lambda>_. KMALLOC_MAX_SIZE"]
    by (simp add: entry_sizes_def sum_list_triv)
  also have "\<dots> \<le> cap * KMALLOC_MAX_SIZE" using cb_contents_bound [OF inv] by simp
  also have "\<dots> < 2 ^ 32" by (simp add: KMALLOC_MAX_SIZE_def)
  finally show "sum_list (entry_sizes (ring_of st)) < 2 ^ 32" using b(1) by simp
qed

lemma spec_read_length:
  assumes "drv_core st"
  shows "unat (of_nat (length (spec_read (history st) n)) :: u64) = length (spec_read (history st) n)"
proof -
  have "length (spec_read (history st) n) \<le> KMALLOC_MAX_SIZE"
  proof (cases "locate (map length (history st)) n")
    case (Some r)
    then obtain i k where l: "locate (map length (history st)) n = Some (i, k)" by (cases r) auto
    then have "history st ! i \<in> set (history st)" using locate_Some_bounds [OF l] by auto
    with history_sizes(4) [OF assms] have "length (history st ! i) \<le> KMALLOC_MAX_SIZE" by blast
    with l show ?thesis by (simp add: spec_read_def)
  qed (simp add: spec_read_def)
  then show ?thesis by (intro unat_of_nat_64) (simp add: KMALLOC_MAX_SIZE_def)
qed

lemma read_found_ok:
  assumes k: "kmalloc_ok k" and own: "owns (kheap st) e" and off: "unat off < unat (esize e)"
    and km: "kmalloc k (esize e - off) (kheap st) = Some (p, junk)"
    and cp: "copy_to_user k um buff (drop (unat off) (bytes_at (kheap st) (buffptr e))) = (um', left)"
  shows "\<exists>l. read_found k buff count pos um e off st = Inr
     (let s = (set_heap ((kheap st)(p \<mapsto> Bytes (drop (unat off) (bytes_at (kheap st) (buffptr e))))) st)
                \<lparr>klog := l\<rparr>
      in if left \<noteq> 0 then (- EFAULT, pos, um', s)
         else (if count > esize e - off then esize e - off else count, pos + (esize e - off), um', s))"
proof -
  let ?n = "esize e - off"
  from own obtain bs where bs: "buffptr e \<noteq> NULL" "kheap st (buffptr e) = Some (Bytes bs)"
    "length bs = unat (esize e)" "length bs \<le> KMALLOC_MAX_SIZE" "bytes_at (kheap st) (buffptr e) = bs"
    by (rule ownsE)
  let ?out = "drop (unat off) bs"
  have n: "unat ?n = length ?out" using off bs by (simp add: word_nat)
  from kmalloc_okD [OF k km] n have p: "p \<noteq> NULL" "kheap st p = None" "length junk = length ?out"
    by auto
  then have pe: "buffptr e \<noteq> p" using bs by auto
  let ?h = "(kheap st)(p \<mapsto> Bytes junk)" and ?h2 = "(kheap st)(p \<mapsto> Bytes ?out)"
  have ld: "load_bytes ?h (buffptr e) (unat off) (unat ?n) = Inr ?out"
    using bs pe n off by (subst load_bytes_ok [of _ _ bs]) auto
  have "store_bytes ?h p 0 ?out = Inr (?h(p \<mapsto> Bytes (take 0 junk @ ?out @ drop (0 + length ?out) junk)))"
    using p by (intro store_bytes_ok) auto
  then have sto: "store_bytes ?h p 0 ?out = Inr ?h2" using p by simp
  obtain l1 where l1: "aesd_buffer_print k ''Offset found in buffer'' (buffptr e) 0 (esize e)
      (set_heap ?h2 st) = Inr ((set_heap ?h2 st)\<lparr>klog := l1\<rparr>)"
    using buffer_print_ok [OF k, of "set_heap ?h2 st" "buffptr e" bs 0 "esize e"] bs pe
    by (auto simp: KMALLOC_MAX_SIZE_def)
  let ?s1 = "(set_heap ?h2 st)\<lparr>klog := l1\<rparr>"
  have "length ?out \<le> KMALLOC_MAX_SIZE" using bs(4) by simp
  then have nb: "unat ?n < 2 ^ 63" unfolding n by (simp add: KMALLOC_MAX_SIZE_def)
  obtain l2 where l2: "aesd_buffer_print k ''String to be returned to the user'' p 0 ?n ?s1 =
      Inr (?s1\<lparr>klog := l2\<rparr>)"
    using buffer_print_ok [OF k, of ?s1 p ?out 0 ?n] p n nb by auto
  have "load_bytes ?h2 p 0 (unat ?n) = Inr ?out"
    using p n by (subst load_bytes_ok [of _ _ ?out]) auto
  with ld sto l1 l2 km cp bs(5) show ?thesis
    by (intro exI [of _ l2]) (simp add: read_found_def Let_def)
qed

text \<open>The whole call, from a state with a free lock: what the search finds decides the result.\<close>

lemma aesd_read_eof:
  assumes inv: "drv_inv st" and o: "private_data filp" and eof: "length (concat (history st)) \<le> unat pos"
  shows "aesd_read k False filp buff count pos um st = Inr (0, pos, um,
    set_lock False (printk (Msg ''Offset was not found'') (set_lock True (printk (ReadMsg count pos) st))))"
proof -
  from inv have core: "drv_core st" by (simp add: drv_inv_def)
  from core obtain b where b: "pbuffer (aesd_device st) \<noteq> NULL"
    "kheap st (pbuffer (aesd_device st)) = Some (Ring b)" "ring_of st = b" "ring_inv (kheap st) b"
    by (rule drv_coreE)
  note hs = history_sizes [OF core]
  have "locate (entry_sizes b) (unat pos) = None"
    using eof hs(1) b(3) by (simp add: locate_None_iff sum_list_append_concat)
  then have "aesd_circular_buffer_find_entry_offset_for_fpos (Some b) pos = Inr (None, - 1)"
    using find_entry_locate [of b pos] b hs(2) by (simp add: ring_inv_def located_def)
  with b o show ?thesis by (simp add: aesd_read_def ring_arg_def load_ring_ok Let_def)
qed

lemma aesd_read_found:
  assumes core: "drv_core st" and o: "private_data filp" and hit: "unat pos < length (concat (history st))"
  shows "\<exists>e j. owns (kheap st) e \<and> unat j < unat (esize e) \<and>
     spec_read (history st) (unat pos) = drop (unat j) (bytes_at (kheap st) (buffptr e)) \<and>
     esize e - j = of_nat (length (spec_read (history st) (unat pos))) \<and>
     aesd_read k False filp buff count pos um st =
       res_bind (read_found k buff count pos um e j (set_lock True (printk (ReadMsg count pos) st)))
         (\<lambda>(retval, pos, um, st). Inr (retval, pos, um, set_lock False st))"
proof -
  let ?out = "spec_read (history st) (unat pos)"
  from core obtain b where b: "pbuffer (aesd_device st) \<noteq> NULL"
    "kheap st (pbuffer (aesd_device st)) = Some (Ring b)" "ring_of st = b" "ring_inv (kheap st) b"
    by (rule drv_coreE)
  then have cb: "cb_inv b" and own: "\<forall>e \<in> set (cb_contents b). owns (kheap st) e"
    by (auto simp: ring_inv_def)
  note hs = history_sizes [OF core]
  from hit hs(1) b(3) obtain i j where loc: "locate (entry_sizes b) (unat pos) = Some (i, j)"
    using locate_None_iff [of "entry_sizes b" "unat pos"] by (fastforce simp: sum_list_append_concat)
  note rng = located_in_range [OF cb loc]
  let ?e = "cb_contents b ! i"
  have find: "aesd_circular_buffer_find_entry_offset_for_fpos (Some b) pos =
      Inr (Some ((unat (out_offs b) + i) mod cap), of_nat j)"
    using find_entry_locate [OF cb, of pos] hs(2) b(3) loc by (simp add: located_def)
  have j: "unat (of_nat j :: u64) = j"
    using rng(3) unat_less_64 [of "esize ?e"] by (intro unat_of_nat_64) linarith
  have owne: "owns (kheap st) ?e" using own rng(1) by simp
  then have lene: "length (bytes_at (kheap st) (buffptr ?e)) = unat (esize ?e)" by (auto elim: ownsE)
  have out: "?out = drop j (bytes_at (kheap st) (buffptr ?e))"
    using loc hs(1) b(3) rng(1) by (simp add: spec_read_def history_def)
  have "esize ?e - of_nat j = of_nat (length ?out)"
    using rng(3) j lene out by (intro word_eq_of_natI) (simp add: word_nat)
  with owne out j rng b o find show ?thesis
    by (intro exI [of _ ?e] exI [of _ "of_nat j"])
       (simp add: aesd_read_def ring_arg_def load_ring_ok Let_def)
qed

lemma aesd_read_nomem:
  assumes inv: "drv_inv st" and o: "private_data filp"
    and hit: "unat pos < length (concat (history st))"
    and km: "kmalloc k (of_nat (length (spec_read (history st) (unat pos)))) (kheap st) = None"
  shows "aesd_read k False filp buff count pos um st =
    Inr (- EFAULT, pos, um, set_lock False (set_lock True (printk (ReadMsg count pos) st)))"
proof -
  from inv have core: "drv_core st" by (simp add: drv_inv_def)
  from aesd_read_found [OF core o hit, of k buff count um] km show ?thesis
    by (auto simp: read_found_def)
qed

lemma aesd_read_hit:
  assumes inv: "drv_inv st" and k: "kernel_ok k" and o: "private_data filp"
    and hit: "unat pos < length (concat (history st))"
    and km: "kmalloc k (of_nat (length (spec_read (history st) (unat pos)))) (kheap st) = Some (p, junk)"
    and cp: "copy_to_user k um buff (spec_read (history st) (unat pos)) = (um', left)"
  shows "\<exists>st'. aesd_read k False filp buff count pos um st = Inr
      (if left \<noteq> 0 then (- EFAULT, pos, um', st')
       else let n = of_nat (length (spec_read (history st) (unat pos)))
            in (if count > n then n else count, pos + n, um', st')) \<and>
    drv_inv st' \<and> history st' = history st \<and> pending st' = pending st \<and>
    kheap st' = (kheap st)(p \<mapsto> Bytes (spec_read (history st) (unat pos))) \<and>
    aesd_device st' = aesd_device st \<and> full_user_entry st' = full_user_entry st"
proof -
  let ?out = "spec_read (history st) (unat pos)" and ?st0 = "set_lock True (printk (ReadMsg count pos) st)"
  from inv have core: "drv_core st" and ul: "\<not> lock (aesd_device st)" by (simp_all add: drv_inv_def)
  from k have km_ok: "kmalloc_ok k" by (simp add: kernel_ok_def)
  from aesd_read_found [OF core o hit, of k buff count um] obtain e j where
    e: "owns (kheap st) e" "unat j < unat (esize e)"
      "?out = drop (unat j) (bytes_at (kheap st) (buffptr e))" "esize e - j = of_nat (length ?out)"
      "aesd_read k False filp buff count pos um st =
         res_bind (read_found k buff count pos um e j ?st0)
           (\<lambda>(retval, pos, um, st). Inr (retval, pos, um, set_lock False st))"
    by blast
  have k0: "kheap ?st0 = kheap st" by simp
  note rfo = read_found_ok [OF km_ok, of ?st0 e j p junk um buff um' left count pos,
      unfolded k0, folded e(3), unfolded e(4)]
  obtain l where rf: "read_found k buff count pos um e j ?st0 = Inr
     (let s = (set_heap ((kheap st)(p \<mapsto> Bytes ?out)) ?st0)\<lparr>klog := l\<rparr>
      in if left \<noteq> 0 then (- EFAULT, pos, um', s)
         else (if count > of_nat (length ?out) then of_nat (length ?out) else count,
               pos + of_nat (length ?out), um', s))"
    using rfo [OF e(1,2) km cp] by auto
  let ?s = "(set_heap ((kheap st)(p \<mapsto> Bytes ?out)) ?st0)\<lparr>klog := l\<rparr>"
  let ?st' = "set_lock False ?s"
  have step: "aesd_read k False filp buff count pos um st = Inr
      (if left \<noteq> 0 then (- EFAULT, pos, um', ?st')
       else let n = of_nat (length ?out)
            in (if count > n then n else count, pos + n, um', ?st'))"
    using e(5) rf by (simp add: Let_def)
  from kmalloc_okD [OF km_ok km] have free: "kheap ?st0 p = None" by simp
  have core0: "drv_core ?st0" using core by simp
  let ?a = "set_heap ((kheap ?st0)(p \<mapsto> Bytes ?out)) ?st0"
  note al = core_abs_alloc [OF core0 free, of "Bytes ?out"]
  have "drv_core ?s" "history ?s = history st" "pending ?s = pending st"
    using al drv_core_cong [of ?s ?a] abs_cong [of ?s ?a] by simp_all
  then have "drv_inv ?st'" "history ?st' = history st" "pending ?st' = pending st"
    by (simp_all add: drv_inv_def)
  moreover have "aesd_device ?st' = aesd_device st" using ul by (simp add: set_lock_def)
  ultimately show ?thesis using step by (intro exI [of _ ?st']) simp
qed

lemma one_command_facts:
  "drv_inv one_command" "history one_command = [[97, 98, 10]]" "pending one_command = []"
proof -
  let ?b = "aesd_circular_buffer_init
        \<lparr>entry := \<lparr>buffptr = 128, esize = 3\<rparr> # replicate 9 no_entry, in_offs := 1\<rparr>"
  have b: "kheap one_command (pbuffer (aesd_device one_command)) = Some (Ring ?b)"
    "pbuffer (aesd_device one_command) = 64" "full_user_entry one_command = no_entry"
    "\<not> lock (aesd_device one_command)" "kheap one_command 128 = Some (Bytes [97, 98, 10])"
    by (simp_all add: one_command_def loaded_facts)
  have c: "cb_contents ?b = [\<lparr>buffptr = 128, esize = 3\<rparr>]"
    by (simp add: cb_contents_def aesd_circular_buffer_init_def)
  have "ring_inv (kheap one_command) ?b"
    using b c by (simp add: ring_inv_def owns_def KMALLOC_MAX_SIZE_def)
      (simp add: cb_inv_def aesd_circular_buffer_init_def)
  with b have "drv_core one_command" by (intro drv_coreI) (auto simp: pending_inv_def)
  with b show "drv_inv one_command" by (simp add: drv_inv_def)
  show "history one_command = [[97, 98, 10]]" "pending one_command = []"
    using b c by (simp_all add: history_def ring_of_def pending_def bytes_at_def)
qed

lemma one_command_read:
  "spec_read (history one_command) (unat (0 :: s64)) = [97, 98, 10]"
  "\<exists>p junk. kmalloc demo_kernel (of_nat (length (spec_read (history one_command) (unat (0 :: s64)))))
     (kheap one_command) = Some (p, junk)"
  "copy_to_user demo_kernel demo_user 2000 (spec_read (history one_command) (unat (0 :: s64))) =
     (demo_user(2000 \<mapsto> 97, 2001 \<mapsto> 98, 2002 \<mapsto> 10), 0)"
  "unat (0 :: s64) < length (concat (history one_command))"
  by (simp_all add: one_command_facts spec_read_def)
     (simp_all add: demo_kernel_def KMALLOC_MAX_SIZE_def one_command_def)

subsection \<open>Properties\<close>

text \<open>
  C11. Read returns stored bytes: a call whose buffer has room for the rest of the command at the
  position returns its length, advances the position past it, puts exactly those bytes, which
  continue the stored bytes at the position, into user memory, and keeps the invariant and the
  stored and pending commands.
\<close>

theorem aesd_read_returns:
  assumes "drv_inv st" and "kernel_ok k" and "private_data filp"
    and "unat pos < length (concat (history st))"
    and "length (spec_read (history st) (unat pos)) \<le> unat count"
    and "kmalloc k (of_nat (length (spec_read (history st) (unat pos)))) (kheap st) \<noteq> None"
    and "copy_to_user k um buff (spec_read (history st) (unat pos)) = (um', 0)"
  shows "\<exists>st'. aesd_read k False filp buff count pos um st =
           Inr (of_nat (length (spec_read (history st) (unat pos))),
                pos + of_nat (length (spec_read (history st) (unat pos))), um', st') \<and>
         drv_inv st' \<and> history st' = history st \<and> pending st' = pending st \<and>
         user_data um' buff (spec_read (history st) (unat pos)) \<and>
         spec_read (history st) (unat pos) \<noteq> [] \<and>
         (\<exists>rest. drop (unat pos) (concat (history st)) = spec_read (history st) (unat pos) @ rest)"
proof -
  let ?out = "spec_read (history st) (unat pos)"
  from assms(6) obtain p junk where km: "kmalloc k (of_nat (length ?out)) (kheap st) = Some (p, junk)"
    by auto
  have core: "drv_core st" using assms(1) by (simp add: drv_inv_def)
  have n: "unat (of_nat (length ?out) :: u64) = length ?out"
    using assms(5) unat_less_64 [of count] by (intro unat_of_nat_64) linarith
  then have cnt: "count > of_nat (length ?out) \<or> count = of_nat (length ?out)"
    using assms(5) by (auto simp: word_less_nat_alt word_unat_eq_iff)
  have ne: "?out \<noteq> []"
    using spec_read_Nil_iff [OF history_sizes(3) [OF core]] assms(4) by simp
  have "user_data um' buff ?out" using assms(2,7) by (auto simp: kernel_ok_def copy_to_user_ok_def)
  moreover have "\<exists>rest. drop (unat pos) (concat (history st)) = ?out @ rest" by (rule spec_read_prefix)
  moreover from aesd_read_hit [OF assms(1-4) km assms(7), of count] obtain st' where
    "aesd_read k False filp buff count pos um st =
       Inr (of_nat (length ?out), pos + of_nat (length ?out), um', st')"
    "drv_inv st'" "history st' = history st" "pending st' = pending st"
    using cnt by (auto simp: Let_def split: if_splits)
  ultimately show ?thesis using ne by blast
qed

theorem aesd_read_returns_witness:
  "\<exists>st'. aesd_read demo_kernel False opened 2000 100 0 demo_user one_command =
     Inr (3, 3, demo_user(2000 \<mapsto> 97, 2001 \<mapsto> 98, 2002 \<mapsto> 10), st') \<and> drv_inv st'"
proof -
  have c: "length (spec_read (history one_command) (unat (0 :: s64))) \<le> unat (100 :: u64)"
    unfolding one_command_read(1) by simp
  have km: "kmalloc demo_kernel (of_nat (length (spec_read (history one_command) (unat (0 :: s64)))))
     (kheap one_command) \<noteq> None"
    using one_command_read(2) by auto
  from aesd_read_returns [OF one_command_facts(1) demo_kernel_ok demo_write_input(3)
      one_command_read(4) c km one_command_read(3)]
  show ?thesis unfolding one_command_read(1) by auto
qed

text \<open>
  Read ignores the caller's limit: when \<open>count\<close> is smaller than the rest of the command, the
  call returns \<open>count\<close> but has written the whole rest into user memory, past the end of the
  caller's buffer, and has moved the position past all of it, so the bytes in between are never
  returned.
\<close>

lemma aesd_read_overruns_count:
  assumes "drv_inv st" and "kernel_ok k" and "private_data filp"
    and "unat count < length (spec_read (history st) (unat pos))"
    and "kmalloc k (of_nat (length (spec_read (history st) (unat pos)))) (kheap st) \<noteq> None"
    and "copy_to_user k um buff (spec_read (history st) (unat pos)) = (um', 0)"
  shows "\<exists>st'. aesd_read k False filp buff count pos um st =
           Inr (count, pos + of_nat (length (spec_read (history st) (unat pos))), um', st') \<and>
         (\<forall>i. unat count \<le> i \<and> i < length (spec_read (history st) (unat pos)) \<longrightarrow>
            um' (buff + of_nat i) = Some (spec_read (history st) (unat pos) ! i))"
proof -
  let ?out = "spec_read (history st) (unat pos)"
  from assms(5) obtain p junk where km: "kmalloc k (of_nat (length ?out)) (kheap st) = Some (p, junk)"
    by auto
  have core: "drv_core st" using assms(1) by (simp add: drv_inv_def)
  have hit: "unat pos < length (concat (history st))"
    using spec_read_Nil_iff [OF history_sizes(3) [OF core], of "unat pos"] assms(4)
    by (metis list.size(3) not_less not_less_zero)
  have "unat (of_nat (length ?out) :: u64) = length ?out" by (rule spec_read_length [OF core])
  then have cnt: "\<not> count > of_nat (length ?out)" "count \<noteq> of_nat (length ?out)"
    using assms(4) by (auto simp: word_less_nat_alt)
  have "user_data um' buff ?out" using assms(2,6) by (auto simp: kernel_ok_def copy_to_user_ok_def)
  with aesd_read_hit [OF assms(1-3) hit km assms(6), of count] cnt show ?thesis
    by (auto simp: Let_def user_data_def)
qed

text \<open>
  Read is safe and changes no command: from the invariant, every call, interrupted or not,
  with or without memory and with any user buffer, returns without a fault, keeps the invariant
  and releases the lock, and leaves the stored and the pending commands as they were.
\<close>

lemma aesd_read_keeps:
  assumes inv: "drv_inv st" and k: "kernel_ok k" and o: "private_data filp"
  shows "\<exists>ret pos' um' st'. aesd_read k intr filp buff count pos um st = Inr (ret, pos', um', st') \<and>
           drv_inv st' \<and> history st' = history st \<and> pending st' = pending st"
proof -
  from inv have core: "drv_core st" by (simp add: drv_inv_def)
  let ?out = "spec_read (history st) (unat pos)"
  consider (intr) "intr" | (eof) "\<not> intr" "length (concat (history st)) \<le> unat pos"
    | (nomem) "\<not> intr" "unat pos < length (concat (history st))"
        "kmalloc k (of_nat (length ?out)) (kheap st) = None"
    | (mem) p junk where "\<not> intr" "unat pos < length (concat (history st))"
        "kmalloc k (of_nat (length ?out)) (kheap st) = Some (p, junk)"
    by (metis not_le option.exhaust surj_pair)
  then show ?thesis
  proof cases
    case intr
    with o inv show ?thesis by (simp add: aesd_read_def Let_def drv_inv_def)
  next
    case eof
    with aesd_read_eof [OF inv o eof(2)] core show ?thesis by (simp add: drv_inv_def)
  next
    case nomem
    with aesd_read_nomem [OF inv o nomem(2,3)] core show ?thesis by (simp add: drv_inv_def)
  next
    case mem
    obtain um' left where cp: "copy_to_user k um buff ?out = (um', left)" by (cases "copy_to_user k um buff ?out")
    from aesd_read_hit [OF inv k o mem(2,3) cp, of count] mem(1) show ?thesis
      by (auto simp: Let_def split: if_splits)
  qed
qed

text \<open>
  Every answered read leaks: the block a read copies through stays allocated when the call
  returns, at an address that was free before and that neither the ring, a stored command nor the
  pending command refers to, so nothing can free it later.
\<close>

lemma aesd_read_leaks:
  assumes "drv_inv st" and "kernel_ok k" and "private_data filp"
    and "unat pos < length (concat (history st))"
    and "kmalloc k (of_nat (length (spec_read (history st) (unat pos)))) (kheap st) \<noteq> None"
  shows "\<exists>ret pos' um' st' p. aesd_read k False filp buff count pos um st = Inr (ret, pos', um', st') \<and>
           p \<notin> dom (kheap st) \<and> dom (kheap st') = insert p (dom (kheap st)) \<and>
           p \<noteq> pbuffer (aesd_device st') \<and> p \<noteq> buffptr (full_user_entry st') \<and>
           p \<notin> buffptr ` set (cb_contents (ring_of st'))"
proof -
  let ?out = "spec_read (history st) (unat pos)"
  from assms(5) obtain p junk where km: "kmalloc k (of_nat (length ?out)) (kheap st) = Some (p, junk)"
    by auto
  obtain um' left where cp: "copy_to_user k um buff ?out = (um', left)"
    by (cases "copy_to_user k um buff ?out")
  have core: "drv_core st" using assms(1) by (simp add: drv_inv_def)
  from assms(2) km have free: "kheap st p = None" "p \<noteq> NULL"
    by (auto simp: kernel_ok_def dest: kmalloc_okD)
  note un = free_addr_unused [OF core free(1)]
  from core obtain b where "pending_inv (kheap st) b (full_user_entry st)" by (rule drv_coreE)
  then have pf: "p \<noteq> buffptr (full_user_entry st)"
    using free by (auto simp: pending_inv_def no_entry_def elim: ownsE)
  from aesd_read_hit [OF assms(1-4) km cp, of count] obtain st' ret pos' um'' where
    st': "aesd_read k False filp buff count pos um st = Inr (ret, pos', um'', st')"
      "kheap st' = (kheap st)(p \<mapsto> Bytes ?out)" "aesd_device st' = aesd_device st"
      "full_user_entry st' = full_user_entry st"
    by (auto simp: Let_def split: if_splits)
  have "ring_of st' = ring_of st" using st'(2,3) un(2) by (simp add: ring_of_def)
  with st' un pf free show ?thesis by (auto simp: domIff)
qed

end
