(* ===== verification/Driver_Life.thy ===== *)
theory Driver_Life
  imports Driver_Read Machine
begin

section \<open>Seek, release, unloading, and the driver as a whole\<close>

text \<open>
  The remaining operations, the drift of the recorded size, and memory safety over any sequence
  of calls with any kernel that keeps its contract, from loading to unloading.
\<close>

text \<open>
  \<open>lseek(2)\<close> as documented, over integers without bounds: a file of the given size, the old position,
  the offset and the mode. A position below 0 is refused with \<open>EINVAL\<close>, one that a \<open>loff_t\<close> cannot
  hold with \<open>EOVERFLOW\<close>.
\<close>

definition EOVERFLOW :: s64 where "EOVERFLOW = 75"

datatype seek_result = Moved int | Refused s64

definition lseek_spec :: "int \<Rightarrow> int \<Rightarrow> int \<Rightarrow> s32 \<Rightarrow> seek_result" where
  "lseek_spec fsize pos off whence =
     (if whence \<in> {0, 1, 2} then
        (let new = (if whence = 0 then 0 else if whence = 1 then pos else fsize) + off
         in if new < 0 then Refused EINVAL else if new \<ge> 2 ^ 63 then Refused EOVERFLOW else Moved new)
      else Refused EINVAL)"

text \<open>What a seek on a file did: the position it set and returned, or the error and no change.\<close>

definition seek_outcome :: "kfile \<Rightarrow> s64 \<times> kfile \<Rightarrow> seek_result option" where
  "seek_outcome pfile r =
     (if sint (fst r) < 0 then (if snd r = pfile then Some (Refused (- fst r)) else None)
      else if snd r = pfile\<lparr>f_pos := fst r\<rparr> then Some (Moved (sint (fst r))) else None)"

text \<open>
  One completed call of a file operation, with any kernel and any outcome of taking the lock. The
  counts are what the virtual file system passes on.
\<close>

inductive drv_step :: "drv \<Rightarrow> drv \<Rightarrow> bool" where
  call_open: "aesd_open filp st = (r, filp', st') \<Longrightarrow> drv_step st st'"
| call_release: "kernel_ok k \<Longrightarrow> private_data filp \<Longrightarrow> aesd_release k filp st = Inr (r, st') \<Longrightarrow>
    drv_step st st'"
| call_read: "kernel_ok k \<Longrightarrow> private_data filp \<Longrightarrow>
    aesd_read k intr filp buff count pos um st = Inr (r, pos', um', st') \<Longrightarrow> drv_step st st'"
| call_write: "kernel_ok k \<Longrightarrow> private_data filp \<Longrightarrow> unat count \<le> MAX_RW_COUNT \<Longrightarrow>
    aesd_write k intr filp buff count pos um st = Inr (r, pos', st') \<Longrightarrow> drv_step st st'"

inductive_cases drv_stepE: "drv_step st st'"

text \<open>The states right after the module was loaded, with any kernel, into a zeroed image.\<close>

inductive drv_start :: "drv \<Rightarrow> bool" where
  load: "kernel_ok k \<Longrightarrow> full_user_entry st = no_entry \<Longrightarrow>
    aesd_init_module k (res, dev) cdev_res st = (0, st') \<Longrightarrow> drv_start st'"

subsection \<open>Seek\<close>

lemma sint_plus_cases:
  fixes a b :: s64
  assumes "0 \<le> sint a"
  shows "sint (a + b) = (if sint a + sint b < 2 ^ 63 then sint a + sint b else sint a + sint b - 2 ^ 64)"
proof -
  have r: "- (2 ^ 63) \<le> sint b" "sint b < 2 ^ 63" "sint a < 2 ^ 63"
    using sint_ge [of b] sint_lt [of b] sint_lt [of a] by simp_all
  have s: "sint (a + b) = (sint a + sint b + 2 ^ 63) mod 2 ^ 64 - 2 ^ 63"
    by (simp add: sint_word_ariths signed_take_bit_eq_take_bit_shift take_bit_eq_mod)
  show ?thesis
  proof (cases "sint a + sint b < 2 ^ 63")
    case True
    with assms r show ?thesis by (simp add: s mod_pos_pos_trivial)
  next
    case False
    have "(sint a + sint b + 2 ^ 63) mod 2 ^ 64 = (sint a + sint b + 2 ^ 63 - 2 ^ 64) mod 2 ^ 64"
      by (rule minus_mod_self2 [symmetric])
    also have "\<dots> = sint a + sint b + 2 ^ 63 - 2 ^ 64" using False r by (intro mod_pos_pos_trivial) simp_all
    finally show ?thesis using False by (simp add: s)
  qed
qed

lemma lseek_modes:
  assumes "private_data pfile" and "0 \<le> sint (f_pos pfile)" and "0 \<le> sint (buff_size (aesd_device st))"
  shows "\<exists>r. aesd_lseek pfile off whence st = Inr r \<and> 0 \<le> sint (f_pos (snd r)) \<and>
    seek_outcome pfile r = Some
      (if whence = 2 then Moved (sint (buff_size (aesd_device st)))
       else if whence = 1 \<and> 2 ^ 63 \<le> sint (f_pos pfile) + sint off then Refused EINVAL
       else lseek_spec fsize (sint (f_pos pfile)) (sint off) whence)"
proof -
  have neg: "sint (- EINVAL) < 0" by (simp add: EINVAL_def)
  have b: "sint off < 2 ^ 63" "- (2 ^ 63) \<le> sint off" "sint (f_pos pfile) < 2 ^ 63"
    using sint_lt [of off] sint_ge [of off] sint_lt [of "f_pos pfile"] by simp_all
  note simps = aesd_lseek_def seek_outcome_def lseek_spec_def Let_def
  consider "whence = 0" | "whence = 1" | "whence = 2" | "whence \<notin> {0, 1, 2}" by blast
  then show ?thesis
  proof cases
    case 2
    with assms neg b sint_plus_cases [OF assms(2), of off] show ?thesis by (auto simp: simps)
  qed (use assms neg b in \<open>auto simp: simps\<close>)
qed

text \<open>
  C16. Seek, against the manual page with the number of bytes that reading can deliver as the file size:
  on an opened file with a position that is not negative, \<open>aesd_lseek\<close> does not fault, leaves such a
  position, and its outcome is the documented one exactly if, for \<open>SEEK_CUR\<close>, the new position fits a
  \<open>loff_t\<close> (otherwise the error is \<open>EINVAL\<close> instead of \<open>EOVERFLOW\<close>) and, for \<open>SEEK_END\<close>, the offset makes up
  the difference between the stored bytes and \<open>buff_size\<close>, as \<open>buff_size\<close> is all the code looks at.
\<close>

theorem aesd_lseek_agrees_iff:
  assumes "private_data pfile" and "0 \<le> sint (f_pos pfile)" and "0 \<le> sint (buff_size (aesd_device st))"
  shows "\<exists>r. aesd_lseek pfile off whence st = Inr r \<and> 0 \<le> sint (f_pos (snd r)) \<and>
    (seek_outcome pfile r =
       Some (lseek_spec (int (length (concat (history st)))) (sint (f_pos pfile)) (sint off) whence) \<longleftrightarrow>
     (whence = 1 \<longrightarrow> sint (f_pos pfile) + sint off < 2 ^ 63) \<and>
     (whence = 2 \<longrightarrow> int (length (concat (history st))) + sint off = sint (buff_size (aesd_device st))))"
proof -
  let ?n = "int (length (concat (history st)))" and ?b = "sint (buff_size (aesd_device st))"
  from lseek_modes [OF assms, of off whence ?n] obtain r where r: "aesd_lseek pfile off whence st = Inr r"
    "0 \<le> sint (f_pos (snd r))" "seek_outcome pfile r = Some
      (if whence = 2 then Moved ?b
       else if whence = 1 \<and> 2 ^ 63 \<le> sint (f_pos pfile) + sint off then Refused EINVAL
       else lseek_spec ?n (sint (f_pos pfile)) (sint off) whence)" by blast
  have "?b < 2 ^ 63" using sint_lt [of "buff_size (aesd_device st)"] by simp
  then have "Moved ?b = lseek_spec ?n (sint (f_pos pfile)) (sint off) 2 \<longleftrightarrow> ?n + sint off = ?b"
    using assms(3) by (auto simp: lseek_spec_def Let_def)
  moreover have "Refused EINVAL \<noteq> lseek_spec ?n (sint (f_pos pfile)) (sint off) 1"
    if "2 ^ 63 \<le> sint (f_pos pfile) + sint off"
    using that by (simp add: lseek_spec_def Let_def EINVAL_def EOVERFLOW_def)
  ultimately show ?thesis using r by (intro exI [of _ r]) (auto simp: not_le)
qed

theorem aesd_lseek_agrees_iff_witness:
  "\<exists>r. aesd_lseek opened (- 1) 2 one_command = Inr r \<and>
     seek_outcome opened r \<noteq> Some (lseek_spec 3 (sint (f_pos opened)) (- 1) 2)"
proof -
  have h: "private_data opened" "0 \<le> sint (f_pos opened)" "0 \<le> sint (buff_size (aesd_device one_command))"
    "int (length (concat (history one_command))) = 3" "sint (buff_size (aesd_device one_command)) = 3"
    by (simp_all add: opened_def one_command_facts) (simp_all add: one_command_def)
  from aesd_lseek_agrees_iff [OF h(1-3), of "- 1" 2] h(4,5) show ?thesis by auto
qed

subsection \<open>The recorded size\<close>

lemma concat_push_bounded_full:
  assumes "length xs = cap"
  shows "length (concat (push_bounded cap xs x)) + length (hd xs) = length (concat xs) + length x"
  using assms by (cases xs) (auto simp: push_bounded_full)

text \<open>
  The recorded size drifts: a write that completes a command adds its length to \<open>buff_size\<close>,
  and the stored bytes grow by the same amount only while the ring has room. Once ten commands are
  stored, each completed write makes \<open>buff_size\<close> exceed the stored bytes by the length of the
  command it evicts, so \<open>SEEK_END\<close> lands past the end.
\<close>

lemma buff_size_drift:
  assumes "drv_inv st" and "kernel_ok k" and "private_data filp"
    and "0 < unat count" and "unat count \<le> MAX_RW_COUNT"
    and "kmalloc k (count + esize (full_user_entry st)) (kheap st) \<noteq> None"
    and "copy_from_user k um buff count = (bs, 0)" and "last bs = LF_byte"
  shows "\<exists>st' cmd. aesd_write k False filp buff count pos um st = Inr (count, pos + count, st') \<and>
           cmd = pending st @ bs \<and>
           buff_size (aesd_device st') = buff_size (aesd_device st) + of_nat (length cmd) \<and>
           length (concat (history st')) +
             (if length (history st) = cap then length (hd (history st)) else 0) =
           length (concat (history st)) + length cmd"
proof -
  let ?cmd = "pending st @ bs"
  from assms(6) obtain tmp junk where
    km: "kmalloc k (count + esize (full_user_entry st)) (kheap st) = Some (tmp, junk)" by auto
  have "length bs = unat count" using assms(2,7) by (auto simp: kernel_ok_def copy_from_user_ok_def)
  with assms(4) have ne_bs: "bs \<noteq> []" by auto
  with assms(8) have bs: "last ?cmd = LF_byte" by simp
  have ne: "0 < unat count \<or> pending st \<noteq> []" using assms(4) by simp
  from write_success [OF assms(1-3) ne assms(5) km assms(7), of pos] bs ne_bs obtain st' where
    st': "aesd_write k False filp buff count pos um st = Inr (count, pos + count, st')"
      "history st' = push_bounded cap (history st) ?cmd"
      "buff_size (aesd_device st') = buff_size (aesd_device st) + of_nat (length ?cmd)"
    by (auto simp: spec_write_def)
  have "length (history st) \<le> cap"
    using assms(1) cb_contents_bound by (auto simp: drv_inv_def history_def ring_inv_def elim: drv_coreE)
  then have "length (concat (history st')) +
      (if length (history st) = cap then length (hd (history st)) else 0) =
      length (concat (history st)) + length ?cmd"
    using concat_push_bounded_full [of "history st" ?cmd] st'(2)
    by (auto simp: push_bounded_room le_less)
  with st' show ?thesis by blast
qed

subsection \<open>Walking the ring: release and unloading\<close>

lemma ring_slots:
  assumes "ring_inv h b"
  shows "\<forall>e \<in> set (entry b). e = no_entry \<or> e \<in> set (cb_contents b)"
    and "distinct (map buffptr (filter (\<lambda>e. buffptr e \<noteq> NULL) (entry b)))"
    and "set (cb_contents b) \<subseteq> set (entry b)"
proof -
  from assms have dist: "distinct (map buffptr (cb_contents b))"
    and own: "\<forall>e \<in> set (cb_contents b). owns h e" by (auto simp: ring_inv_def)
  have "(\<forall>e \<in> set (entry b). e = no_entry \<or> e \<in> set (cb_contents b)) \<and>
    distinct (map buffptr (filter (\<lambda>e. buffptr e \<noteq> NULL) (entry b))) \<and>
    set (cb_contents b) \<subseteq> set (entry b)"
  proof (cases "full b")
    case True
    let ?o = "unat (out_offs b)"
    have c: "cb_contents b = drop ?o (entry b) @ take ?o (entry b)"
      using True by (simp add: cb_contents_def)
    then have "set (entry b) = set (cb_contents b)"
      by (metis append_take_drop_id set_append sup_commute)
    moreover have "distinct (map buffptr (take ?o (entry b)) @ map buffptr (drop ?o (entry b)))"
      using dist unfolding c by auto
    then have "distinct (map buffptr (entry b))"
      unfolding map_append [symmetric] append_take_drop_id .
    then have "distinct (map buffptr (filter (\<lambda>e. buffptr e \<noteq> NULL) (entry b)))"
      by (rule distinct_map_filter)
    ultimately show ?thesis by auto
  next
    case False
    let ?k = "unat (in_offs b)"
    have "cb_contents b = take ?k (entry b)" using False by (simp add: cb_contents_def)
    moreover have "drop ?k (entry b) = replicate (cap - ?k) no_entry"
      using assms False by (simp add: ring_inv_def)
    ultimately have e: "entry b = cb_contents b @ replicate (cap - ?k) no_entry"
      using append_take_drop_id [of ?k "entry b"] by simp
    have "\<forall>e \<in> set (cb_contents b). buffptr e \<noteq> NULL" using own by (auto simp: owns_def)
    then have "filter (\<lambda>e. buffptr e \<noteq> NULL) (entry b) = cb_contents b"
      using e by (simp add: no_entry_def)
    with e dist show ?thesis by auto
  qed
  then show "\<forall>e \<in> set (entry b). e = no_entry \<or> e \<in> set (cb_contents b)"
    "distinct (map buffptr (filter (\<lambda>e. buffptr e \<noteq> NULL) (entry b)))"
    "set (cb_contents b) \<subseteq> set (entry b)" by auto
qed

lemma show_entries_ok:
  assumes k: "kmalloc_ok k" and len: "length (entry b) = cap"
    and own: "\<forall>e \<in> set (entry b). e = no_entry \<or> owns (kheap st) e" and it: "it < cap"
  shows "\<exists>l. show_entries k b todo i it st = Inr (st\<lparr>klog := l\<rparr>)"
  using own it
proof (induction todo arbitrary: i it st)
  case 0
  then show ?case by (intro exI [of _ "klog st"]) simp
next
  case (Suc todo)
  let ?e = "entry b ! it"
  have rd: "arr_read (entry b) it = Inr ?e" using Suc.prems(2) len by simp
  obtain l where l: "(if buffptr ?e \<noteq> NULL
      then aesd_buffer_print k '''' (buffptr ?e) 0 (esize ?e) (printk (ElemMsg i) st)
      else Inr (printk (ElemEmpty i) st)) = Inr (st\<lparr>klog := l\<rparr>)"
  proof (cases "?e = no_entry")
    case True
    then show ?thesis using that [of "klog st @ [ElemEmpty i]"] by (simp add: no_entry_def printk_def)
  next
    case False
    with Suc.prems len have "owns (kheap st) ?e" by auto
    then obtain bs where bs: "buffptr ?e \<noteq> NULL" "kheap st (buffptr ?e) = Some (Bytes bs)"
      "length bs = unat (esize ?e)" "length bs \<le> KMALLOC_MAX_SIZE" by (rule ownsE)
    from buffer_print_ok [OF k, of "printk (ElemMsg i) st" "buffptr ?e" bs 0 "esize ?e" "''''"] bs
    obtain l where "aesd_buffer_print k '''' (buffptr ?e) 0 (esize ?e) (printk (ElemMsg i) st) =
        Inr ((printk (ElemMsg i) st)\<lparr>klog := l\<rparr>)" by (auto simp: KMALLOC_MAX_SIZE_def)
    with bs(1) show ?thesis by (intro that) (simp add: printk_def)
  qed
  have "(it + 1) mod cap < cap" by (simp add: cap_def)
  with Suc.IH [of "st\<lparr>klog := l\<rparr>" "(it + 1) mod cap" "Suc i"] Suc.prems(1) obtain l' where
    "show_entries k b todo (Suc i) ((it + 1) mod cap) (st\<lparr>klog := l\<rparr>) = Inr (st\<lparr>klog := l\<rparr>\<lparr>klog := l'\<rparr>)"
    by auto
  with rd l show ?case by (intro exI [of _ l']) simp
qed

lemma aesd_release_ok:
  assumes inv: "drv_inv st" and k: "kernel_ok k" and o: "private_data filp"
  shows "\<exists>l. aesd_release k filp st = Inr (0, st\<lparr>klog := l\<rparr>)"
proof -
  from inv obtain b where b: "pbuffer (aesd_device st) \<noteq> NULL"
    "kheap st (pbuffer (aesd_device st)) = Some (Ring b)" "ring_inv (kheap st) b"
    by (auto simp: drv_inv_def elim: drv_coreE)
  have own: "\<forall>e \<in> set (entry b). e = no_entry \<or> owns (kheap st) e"
    using ring_slots(1) [OF b(3)] b(3) by (auto simp: ring_inv_def)
  have cb: "length (entry b) = cap" "unat (out_offs b) < cap"
    using b(3) by (auto simp: ring_inv_def cb_inv_def)
  have km: "kmalloc_ok k" using k by (simp add: kernel_ok_def)
  let ?s = "printk (Msg ''Circular buffer (oldest to newest):'') (printk (Msg ''release'') st)"
  have "\<exists>l. show_entries k b cap 0 (unat (out_offs b)) ?s = Inr (?s\<lparr>klog := l\<rparr>)"
    by (rule show_entries_ok [OF km cb(1) _ cb(2)]) (simp add: own)
  then obtain l where "show_entries k b cap 0 (unat (out_offs b)) ?s = Inr (?s\<lparr>klog := l\<rparr>)" ..
  with b o show ?thesis
    by (intro exI [of _ l])
       (simp add: aesd_release_def aesd_show_circular_buffer_def load_ring_ok printk_def)
qed

lemma free_entries_ok:
  assumes "\<forall>e \<in> set es. buffptr e \<noteq> NULL \<longrightarrow> h (buffptr e) \<noteq> None"
    and "distinct (map buffptr (filter (\<lambda>e. buffptr e \<noteq> NULL) es))"
  shows "fold_entries free_entry es h = Inr (h |` (- (buffptr ` set es - {NULL})))"
  using assms
proof (induction es arbitrary: h)
  case (Cons e es)
  show ?case
  proof (cases "buffptr e = NULL")
    case True
    with Cons show ?thesis by (simp add: free_entry_def)
  next
    case False
    with Cons.prems have fr: "free_entry e h = Inr (h(buffptr e := None))"
      by (simp add: free_entry_def kfree_def)
    have "\<forall>x \<in> set es. buffptr x \<noteq> NULL \<longrightarrow> buffptr x \<noteq> buffptr e"
      using Cons.prems(2) False by (auto simp: image_iff)
    with Cons have "fold_entries free_entry es (h(buffptr e := None)) =
        Inr ((h(buffptr e := None)) |` (- (buffptr ` set es - {NULL})))"
      by (intro Cons.IH) (auto split: if_splits)
    moreover have "(h(buffptr e := None)) |` (- (buffptr ` set es - {NULL})) =
        h |` (- (buffptr ` set (e # es) - {NULL}))"
      using False by (auto simp: restrict_map_def)
    ultimately show ?thesis using fr by simp
  qed
qed (simp add: restrict_map_def)

lemma cleanup_ok:
  assumes "drv_inv st"
  shows "\<exists>st'. aesd_cleanup_module st = Inr st' \<and> region st' = None \<and>
           cdev_added (aesd_device st') = None \<and>
           kheap st' = kheap st |`
             (- insert (pbuffer (aesd_device st)) (buffptr ` set (cb_contents (ring_of st)))) \<and>
           (pending st \<noteq> [] \<longrightarrow> kheap st' (buffptr (full_user_entry st)) = Some (Bytes (pending st)))"
proof -
  let ?p = "pbuffer (aesd_device st)" and ?h = "kheap st"
  from assms have core: "drv_core st" by (simp add: drv_inv_def)
  from core obtain b where b: "?p \<noteq> NULL" "?h ?p = Some (Ring b)" "ring_of st = b"
    and r: "ring_inv ?h b" and pend: "pending_inv ?h b (full_user_entry st)" by (rule drv_coreE)
  note sl = ring_slots [OF r]
  have own: "owns ?h e" if "e \<in> set (cb_contents b)" for e using r that by (simp add: ring_inv_def)
  then have nn: "buffptr e \<noteq> NULL" "?h (buffptr e) \<noteq> None" "buffptr e \<noteq> ?p"
    if "e \<in> set (cb_contents b)" for e
    using that ring_addr_ne [OF own b(2)] by (auto elim!: ownsE)
  have img: "buffptr ` set (entry b) - {NULL} = buffptr ` set (cb_contents b)"
    using sl(1,3) nn(1) by (auto simp: no_entry_def)
  have "\<forall>e \<in> set (entry b). buffptr e \<noteq> NULL \<longrightarrow> ?h (buffptr e) \<noteq> None"
    using sl(1) nn(2) by (auto simp: no_entry_def)
  from free_entries_ok [OF this sl(2)] img
  have fold: "fold_entries free_entry (entry b) ?h = Inr (?h |` (- buffptr ` set (cb_contents b)))"
    by simp
  have "length (entry b) = cap" using r by (simp add: ring_inv_def cb_inv_def)
  note fe = FOREACH_fold [OF this, of free_entry ?h]
  have live: "(?h |` (- buffptr ` set (cb_contents b))) ?p = Some (Ring b)"
    using nn(3) b(2) by (fastforce simp: restrict_map_def)
  have kf: "kfree ?p (?h |` (- buffptr ` set (cb_contents b))) =
      Inr (?h |` (- insert ?p (buffptr ` set (cb_contents b))))"
    using live b(1) by (simp add: kfree_def) (auto simp: restrict_map_def)
  have pe: "?h (buffptr (full_user_entry st)) = Some (Bytes (pending st)) \<and>
      buffptr (full_user_entry st) \<noteq> ?p \<and> buffptr (full_user_entry st) \<notin> buffptr ` set (cb_contents b)"
    if "pending st \<noteq> []"
  proof -
    from that pend have o: "owns ?h (full_user_entry st)"
      "buffptr (full_user_entry st) \<notin> buffptr ` set (cb_contents b)"
      "full_user_entry st \<noteq> no_entry"
      by (auto simp: pending_def pending_inv_def split: if_splits)
    with ring_addr_ne [OF o(1) b(2)] show ?thesis by (auto simp: pending_def elim: ownsE)
  qed
  show ?thesis
    using fold fe kf b pe by (auto simp: aesd_cleanup_module_def load_ring_ok restrict_map_def)
qed

text \<open>
  C15. Unloading: from a state satisfying the invariant \<open>aesd_cleanup_module\<close> does not fault. It
  frees exactly the ring structure and the block of every stored command, each once, and releases
  the registration. Every other block survives with its contents, and the block of a command still
  pending is among them, so it is leaked.
\<close>

theorem aesd_cleanup_frees:
  assumes "drv_inv st"
  shows "\<exists>st'. aesd_cleanup_module st = Inr st' \<and> region st' = None \<and>
           cdev_added (aesd_device st') = None \<and>
           kheap st' = kheap st |`
             (- insert (pbuffer (aesd_device st)) (buffptr ` set (cb_contents (ring_of st)))) \<and>
           (pending st \<noteq> [] \<longrightarrow> kheap st' (buffptr (full_user_entry st)) = Some (Bytes (pending st)))"
  using assms by (rule cleanup_ok)

theorem aesd_cleanup_frees_witness:
  "drv_inv one_command \<and> (\<exists>st'. aesd_cleanup_module one_command = Inr st' \<and> kheap st' = Map.empty)"
proof -
  have "ring_of one_command = aesd_circular_buffer_init
        \<lparr>entry := \<lparr>buffptr = 128, esize = 3\<rparr> # replicate 9 no_entry, in_offs := 1\<rparr>"
    by (simp add: ring_of_def one_command_def loaded_facts)
  then have c: "cb_contents (ring_of one_command) = [\<lparr>buffptr = 128, esize = 3\<rparr>]"
    by (simp add: cb_contents_def aesd_circular_buffer_init_def)
  have h: "kheap one_command |` (- {64, 128}) = Map.empty"
    by (auto simp: one_command_def restrict_map_def)
  have p: "pbuffer (aesd_device one_command) = 64" by (simp add: one_command_def loaded_facts)
  from aesd_cleanup_frees [OF one_command_facts(1)] show ?thesis
    unfolding p c by (auto simp: one_command_facts(1) h)
qed

subsection \<open>The driver as a state machine\<close>

interpretation dm: invariant_machine drv_start drv_step drv_inv
proof unfold_locales
  fix s assume "drv_start s"
  then show "drv_inv s" by cases (auto dest: init_module_ok)
next
  fix s t assume inv: "drv_inv s" and "drv_step s t"
  from this(2) show "drv_inv t"
  proof (cases rule: drv_step.cases)
    case call_open
    with inv show ?thesis by (auto simp: aesd_open_def drv_inv_def)
  next
    case (call_release k filp r)
    with aesd_release_ok [OF inv call_release(1,2)] obtain l where "t = s\<lparr>klog := l\<rparr>" by auto
    with inv drv_core_cong [of t s] show ?thesis by (simp add: drv_inv_def)
  next
    case (call_read k filp intr buff count pos um r pos' um')
    with aesd_read_keeps [OF inv call_read(1,2), of intr buff count pos um] show ?thesis by auto
  next
    case (call_write k filp count intr buff pos um r pos')
    show ?thesis
      by (rule aesd_write_outcome [OF inv call_write(1,2,3), of intr buff pos um])
         (use call_write(4) in auto)
  qed
qed

text \<open>
  C1. Memory safety of the whole driver: in every state reachable from loading the module by any
  completed calls of open, release, read and write, each with any kernel that keeps its contract
  and any outcome of taking the lock, the lock is free, and no release, no read, no unloading and
  no write of at least one byte faults, whatever the counts, positions and user memory.
\<close>

theorem driver_never_faults:
  assumes "reach drv_start drv_step st" and "kernel_ok k" and "private_data filp"
    and "0 < unat count" and "unat count \<le> MAX_RW_COUNT"
  shows "\<not> lock (aesd_device st) \<and> is_ok (aesd_release k filp st) \<and>
         is_ok (aesd_read k intr filp buff n pos um st) \<and>
         is_ok (aesd_write k intr filp buff count pos um st) \<and> is_ok (aesd_cleanup_module st)"
proof -
  from assms(1) have inv: "drv_inv st" by (rule dm.reach_invar)
  have "is_ok (aesd_write k intr filp buff count pos um st)"
    by (rule aesd_write_outcome [OF inv assms(2,3,5), of intr buff pos um]) (use assms(4) in auto)
  moreover have "is_ok (aesd_read k intr filp buff n pos um st)"
    using aesd_read_keeps [OF inv assms(2,3), of intr buff n pos um] by (auto simp: is_ok_iff)
  moreover have "is_ok (aesd_release k filp st)"
    using aesd_release_ok [OF inv assms(2,3)] by (auto simp: is_ok_iff)
  moreover have "is_ok (aesd_cleanup_module st)"
    using cleanup_ok [OF inv] by (auto simp: is_ok_iff)
  ultimately show ?thesis using inv by (simp add: drv_inv_def)
qed

theorem driver_never_faults_witness:
  "reach drv_start drv_step loaded \<and> is_ok (aesd_cleanup_module loaded) \<and>
   is_ok (aesd_write demo_kernel False opened 1000 3 0 demo_user loaded)"
proof -
  have "full_user_entry unloaded = no_entry" by (simp add: unloaded_def)
  then have "drv_start loaded" using loaded_result demo_kernel_ok by (blast intro: load)
  then have r: "reach drv_start drv_step loaded" by (rule reach_init)
  have c: "0 < unat (3 :: u64)" "unat (3 :: u64) \<le> MAX_RW_COUNT" by (simp_all add: MAX_RW_COUNT_def)
  from driver_never_faults [OF r demo_kernel_ok demo_write_input(3) c, of False 1000 0 0 demo_user] r
  show ?thesis by simp
qed

end
