(* ===== verification/Driver_Drain.thy ===== *)
theory Driver_Drain
  imports Driver_Life
begin

section \<open>Reading the device to its end\<close>

text \<open>
  What a program sees that reads the device until it reports the end, as the socket server does
  with its buffered read: each call may run with another kernel state and buffer, and each buffer is
  large enough for any stored command.
\<close>

definition roomy :: "u64 \<Rightarrow> drv \<Rightarrow> bool" where
  "roomy count st \<longleftrightarrow> 0 < unat count \<and> (\<forall>c \<in> set (history st). length c \<le> unat count)"

text \<open>Reading from a position until 0 is returned yields the bytes; no call may fail.\<close>

inductive drains :: "drv \<Rightarrow> s64 \<Rightarrow> byte list \<Rightarrow> bool" where
  drain_end: "kernel_ok k \<Longrightarrow> private_data filp \<Longrightarrow> roomy count st \<Longrightarrow>
    aesd_read k False filp buff count pos um st = Inr (0, pos', um', st') \<Longrightarrow> drains st pos []"
| drain_more: "kernel_ok k \<Longrightarrow> private_data filp \<Longrightarrow> roomy count st \<Longrightarrow>
    aesd_read k False filp buff count pos um st = Inr (ret, pos', um', st') \<Longrightarrow> 0 < sint ret \<Longrightarrow>
    user_data um' buff out \<Longrightarrow> length out = unat ret \<Longrightarrow> drains st' pos' rest \<Longrightarrow>
    drains st pos (out @ rest)"

lemma user_data_unique:
  "user_data m p xs \<Longrightarrow> user_data m p ys \<Longrightarrow> length xs = length ys \<Longrightarrow> xs = ys"
  by (auto simp: user_data_def intro!: nth_equalityI)

lemma spec_read_in_history:
  "spec_read hist n = [] \<or> (\<exists>c \<in> set hist. length (spec_read hist n) \<le> length c)"
proof (cases "locate (map length hist) n")
  case (Some r)
  then obtain i k where l: "locate (map length hist) n = Some (i, k)" by (cases r) auto
  from locate_Some_bounds [OF l] have "i < length hist" by simp
  then have "hist ! i \<in> set hist" by simp
  with l show ?thesis by (auto simp: spec_read_def intro!: disjI2 bexI [of _ "hist ! i"])
qed (simp add: spec_read_def)

text \<open>One call of the sequence.\<close>

lemma read_call:
  assumes inv: "drv_inv st" and k: "kernel_ok k" and o: "private_data filp" and r: "roomy count st"
    and rd: "aesd_read k False filp buff count pos um st = Inr (ret, pos', um', st')" and ok: "\<not> sint ret < 0"
  shows "drv_inv st' \<and> history st' = history st \<and>
    (if length (concat (history st)) \<le> unat pos then ret = 0
     else let out = spec_read (history st) (unat pos) in
       out \<noteq> [] \<and> ret = of_nat (length out) \<and> unat ret = length out \<and> pos' = pos + ret \<and> user_data um' buff out)"
proof (cases "length (concat (history st)) \<le> unat pos")
  case True
  with rd aesd_read_eof [OF inv o True, of k buff count um] inv show ?thesis
    by (auto simp: drv_inv_def)
next
  case False
  let ?out = "spec_read (history st) (unat pos)"
  from inv have core: "drv_core st" by (simp add: drv_inv_def)
  have hit: "unat pos < length (concat (history st))" using False by simp
  have ne: "?out \<noteq> []" using spec_read_Nil_iff [OF history_sizes(3) [OF core]] hit by simp
  have n: "unat (of_nat (length ?out) :: u64) = length ?out" by (rule spec_read_length [OF core])
  have le: "length ?out \<le> unat count"
    using spec_read_in_history [of "history st" "unat pos"] ne r by (auto simp: roomy_def)
  have neg: "sint (- EFAULT) < 0" by (simp add: EFAULT_def)
  obtain p junk where km: "kmalloc k (of_nat (length ?out)) (kheap st) = Some (p, junk)"
  proof (cases "kmalloc k (of_nat (length ?out)) (kheap st)")
    case None
    with aesd_read_nomem [OF inv o hit None] rd ok neg have False by auto
    then show ?thesis ..
  qed auto
  obtain um1 left where cp: "copy_to_user k um buff ?out = (um1, left)" by (cases "copy_to_user k um buff ?out")
  from aesd_read_hit [OF inv k o hit km cp, of count] obtain st1 where
    h: "aesd_read k False filp buff count pos um st = Inr
       (if left \<noteq> 0 then (- EFAULT, pos, um1, st1)
        else let n = of_nat (length ?out) in (if count > n then n else count, pos + n, um1, st1))"
    and st1: "drv_inv st1" "history st1 = history st" by blast
  from h rd have res: "(if left \<noteq> 0 then (- EFAULT, pos, um1, st1)
       else let n = of_nat (length ?out) in (if count > n then n else count, pos + n, um1, st1)) = (ret, pos', um', st')"
    by simp
  with ok neg have left: "left = 0" by (auto split: if_splits)
  from res have st': "st' = st1" by (auto simp: Let_def split: if_splits)
  have cnt: "(if count > of_nat (length ?out) then of_nat (length ?out) else count) = of_nat (length ?out)"
    using le n by (auto simp: word_less_nat_alt word_unat_eq_iff)
  from res left cnt have "ret = of_nat (length ?out)" "pos' = pos + ret" "um' = um1" by (auto simp: Let_def)
  moreover have "user_data um1 buff ?out" using k cp left by (auto simp: kernel_ok_def copy_to_user_ok_def)
  ultimately show ?thesis using ne n st1 st' False by (simp add: Let_def)
qed

lemma drains_from:
  "drains st pos bs \<Longrightarrow> drv_inv st \<Longrightarrow> bs = drop (unat pos) (concat (history st))"
proof (induction rule: drains.induct)
  case (drain_end k filp count st buff pos um pos' um' st')
  note c = read_call [OF drain_end(5,1,2,3,4)]
  have "length (concat (history st)) \<le> unat pos"
  proof (rule ccontr)
    assume "\<not> length (concat (history st)) \<le> unat pos"
    with c show False by (auto simp: Let_def)
  qed
  then show ?case by simp
next
  case (drain_more k filp count st buff pos um ret pos' um' st' out rest)
  let ?h = "concat (history st)" and ?out = "spec_read (history st) (unat pos)"
  have nn: "\<not> sint ret < 0" using drain_more(5) by simp
  note c = read_call [OF drain_more(10,1,2,3,4) nn]
  have lt: "\<not> length ?h \<le> unat pos" using c drain_more(5) by auto
  with c have s: "drv_inv st'" "history st' = history st" "unat ret = length ?out" "pos' = pos + ret"
    "user_data um' buff ?out" by (auto simp: Let_def)
  have out: "out = ?out" by (rule user_data_unique [OF drain_more(6) s(5)]) (use drain_more(7) s(3) in simp)
  obtain r where r: "drop (unat pos) ?h = ?out @ r" using spec_read_prefix by blast
  then have "length ?h - unat pos = length ?out + length r" by (metis length_append length_drop)
  moreover have "length ?h < 2 ^ 32"
    using history_sizes(1,2) [of st] drain_more(10) by (simp add: drv_inv_def sum_list_append_concat)
  ultimately have "unat pos + unat ret < 2 ^ 64" using lt s(3) by simp
  then have "unat pos' = unat pos + length ?out" using s(3,4) by (simp add: unat_add_small)
  then have "drop (unat pos') ?h = r" using r by (metis add.commute append_eq_conv_conj drop_drop)
  with drain_more(9) [OF s(1)] s(2) r out show ?case by simp
qed

text \<open>
  C7. Reading the device to its end: any sequence of reads that begins at a position, in which no call
  fails and every buffer has room for a stored command, delivers exactly the stored bytes from that
  position, in order and with nothing repeated or missing, before it reports the end. From position
  0 that is all stored commands, oldest first.
\<close>

theorem device_drains:
  assumes "drv_inv st" and "drains st pos bs"
  shows "bs = drop (unat pos) (concat (history st))"
  using assms(2,1) by (rule drains_from)

theorem device_drains_witness:
  "drains one_command 0 [97, 98, 10] \<and> concat (history one_command) = [97, 98, 10]"
proof -
  have o: "private_data opened" by (simp add: opened_def)
  have r: "roomy 10 one_command" by (simp add: roomy_def one_command_facts)
  from one_command_read(2) obtain p junk where
    km: "kmalloc demo_kernel (of_nat (length (spec_read (history one_command) (unat (0 :: s64)))))
      (kheap one_command) = Some (p, junk)" by blast
  from aesd_read_hit [OF one_command_facts(1) demo_kernel_ok o one_command_read(4) km one_command_read(3), of 10]
  obtain st' where st': "aesd_read demo_kernel False opened 2000 10 0 demo_user one_command =
      Inr (3, 3, demo_user(2000 \<mapsto> 97, 2001 \<mapsto> 98, 2002 \<mapsto> 10), st')"
    "drv_inv st'" "history st' = history one_command" unfolding one_command_read(1) by auto
  have e: "length (concat (history st')) \<le> unat (3 :: s64)" using st'(3) by (simp add: one_command_facts)
  have r': "roomy 10 st'" using r st'(3) by (simp add: roomy_def)
  from drain_end [OF demo_kernel_ok o r' aesd_read_eof [OF st'(2) o e]] have d: "drains st' 3 []" .
  have u: "user_data (demo_user(2000 \<mapsto> 97, 2001 \<mapsto> 98, 2002 \<mapsto> 10)) 2000 [97, 98, 10]"
    by (auto simp: user_data_def less_Suc_eq)
  from drain_more [OF demo_kernel_ok o r st'(1) _ u _ d] have "drains one_command 0 [97, 98, 10]" by simp
  with device_drains [OF one_command_facts(1) this] show ?thesis by simp
qed

end
