(* ===== verification/Log_Devices.thy ===== *)
theory Log_Devices
  imports Server_Threads Driver_Drain
begin

section \<open>The files the server logs to\<close>

text \<open>
  The server relies on its file for one thing: after a complete line was appended, reading the file
  from the start shows that line last. The locale states this contract and lifts it to histories of
  lines and to the replies of the connection threads. It is interpreted for the two files the server
  can be built with: the ordinary file, and the character device as specified by the driver's
  abstract state.
\<close>

text \<open>The character device: the abstract write of the driver, and all stored commands joined.\<close>

definition aesd_chardev :: "(byte list list \<times> byte list) logdev" where
  "aesd_chardev = \<lparr>log_append = spec_write, log_contents = (\<lambda>s. concat (fst s))\<rparr>"

definition complete_line :: "byte list \<Rightarrow> bool" where
  "complete_line line \<longleftrightarrow> line \<noteq> [] \<and> last line = LF"

locale line_log =
  fixes dev :: "'d logdev" and between_lines :: "'d \<Rightarrow> bool"
  assumes append_between: "between_lines d \<Longrightarrow> complete_line line \<Longrightarrow> between_lines (log_append dev line d)"
    and append_last: "between_lines d \<Longrightarrow> complete_line line \<Longrightarrow>
      \<exists>pre. log_contents dev (log_append dev line d) = pre @ line"
begin

lemma replay_between:
  "between_lines d \<Longrightarrow> \<forall>x \<in> set lg. complete_line (snd x) \<Longrightarrow> between_lines (replay dev d lg)"
  by (induction lg arbitrary: d) (auto simp: replay_def split_beta intro: append_between)

lemma replay_last:
  assumes "between_lines d" and "\<forall>x \<in> set (lg @ [(t, line)]). complete_line (snd x)"
  shows "\<exists>pre. log_contents dev (replay dev d (lg @ [(t, line)])) = pre @ line"
  using append_last [OF replay_between [OF assms(1)]] assms(2) by (simp add: replay_snoc)

lemma snapshot_ends_with_line:
  assumes snap: "own_snapshot dev d lg t line x reply" and "whole line x" and d: "between_lines d"
    and lines: "\<forall>x \<in> set lg. complete_line (snd x)" and short: "length reply < SERVER_MSG_LEN"
  shows "\<exists>pre. reply = pre @ line"
proof -
  from own_snapshot_whole [OF snap \<open>whole line x\<close>] obtain k where k: "k < length lg" "lg ! k = (t, line)"
    "reply = take SERVER_MSG_LEN (log_contents dev (replay dev d (take (Suc k) lg)))" by blast
  then have tk: "take (Suc k) lg = take k lg @ [(t, line)]" by (simp add: take_Suc_conv_app_nth)
  have "\<forall>x \<in> set (take k lg @ [(t, line)]). complete_line (snd x)"
    unfolding tk [symmetric] using lines by (auto dest: in_set_takeD)
  from replay_last [OF d this] k(3) short tk show ?thesis by auto
qed

end

interpretation file_log: line_log plain_file "\<lambda>_. True"
  by unfold_locales (simp_all add: plain_file_def)

lemma spec_write_line:
  assumes "complete_line line"
  shows "spec_write line (hist, []) = (push_bounded cap hist line, [])"
  using assms by (simp add: spec_write_def complete_line_def LF_def)

lemma concat_push_bounded: "0 < n \<Longrightarrow> \<exists>pre. concat (push_bounded n xs x) = pre @ x"
  by (auto simp: push_bounded_def)

interpretation chardev_log: line_log aesd_chardev "\<lambda>s. snd s = []"
proof unfold_locales
  fix d :: "byte list list \<times> byte list" and line
  assume "snd d = []" and line: "complete_line line"
  then obtain hist where d: "d = (hist, [])" by (cases d) auto
  from spec_write_line [OF line] d show "snd (log_append aesd_chardev line d) = []" by (simp add: aesd_chardev_def)
  have "0 < cap" by (simp add: cap_def)
  from concat_push_bounded [OF this] spec_write_line [OF line] d
  show "\<exists>pre. log_contents aesd_chardev (log_append aesd_chardev line d) = pre @ line"
    by (simp add: aesd_chardev_def)
qed

text \<open>
  A line may reach the driver in several writes, as the stream's buffer gets full: only the last byte of
  a write ends a command, so that pieces without a line feed are joined.
\<close>

lemma chardev_append_pieces:
  assumes "LF \<notin> set a" and "a \<noteq> []" and "b \<noteq> []"
  shows "log_append aesd_chardev b (log_append aesd_chardev a d) = log_append aesd_chardev (a @ b) d"
proof -
  from assms have "last a \<noteq> 10" using last_in_set [of a] by (metis LF_def)
  with assms show ?thesis by (cases d) (simp add: aesd_chardev_def spec_write_def Let_def)
qed

text \<open>The device after a history of complete lines holds the newest ten of them.\<close>

lemma chardev_replay:
  assumes "\<forall>x \<in> set lg. complete_line (snd x)"
  shows "replay aesd_chardev ([], []) lg = (newest cap (map snd lg), [])"
  using assms
proof (induction lg rule: rev_induct)
  case Nil
  then show ?case by (simp add: replay_def)
next
  case (snoc x lg)
  obtain t line where x: "x = (t, line)" by (cases x)
  from snoc have "replay aesd_chardev ([], []) lg = (newest cap (map snd lg), [])" by simp
  moreover have "complete_line line" using snoc.prems x by simp
  ultimately have "replay aesd_chardev ([], []) (lg @ [x]) = (push_bounded cap (newest cap (map snd lg)) line, [])"
    unfolding x replay_snoc by (simp add: aesd_chardev_def spec_write_line)
  moreover have "push_bounded cap (newest cap (map snd lg)) line = newest cap (map snd lg @ [line])"
    by (subst push_bounded_newest) (simp_all add: newest_append_newest)
  ultimately show ?case using x by simp
qed

lemma plain_replay: "replay plain_file d lg = d @ concat (map snd lg)"
  by (induction lg arbitrary: d) (auto simp: replay_def plain_file_def split_beta)

end
