(* ===== verification/Driver_Runs.thy ===== *)
theory Driver_Runs
  imports Driver_Drain
begin

section \<open>Runs of the driver under a program\<close>

text \<open>
  What a program can rely on that uses the driver as its log: that reading the device ends, with all
  its contents, as long as the kernel has memory for the blocks the reads take; and what the device
  holds after any run of writes, with reads and releases between them.
\<close>

text \<open>The next \<open>n\<close> allocations of any size that can be handed out succeed, if nothing is freed.\<close>

fun serves :: "kapi \<Rightarrow> nat \<Rightarrow> heap \<Rightarrow> bool" where
  "serves k 0 h \<longleftrightarrow> True"
| "serves k (Suc n) h \<longleftrightarrow>
     (\<forall>sz. 0 < unat sz \<and> unat sz \<le> KMALLOC_MAX_SIZE \<longrightarrow>
        (\<exists>p junk. kmalloc k sz h = Some (p, junk) \<and> (\<forall>bs. serves k n (h(p \<mapsto> Bytes bs)))))"

text \<open>The user's buffer takes whatever is copied to it.\<close>

definition takes_copies :: "kapi \<Rightarrow> addr \<Rightarrow> bool" where
  "takes_copies k buff \<longleftrightarrow> (\<forall>um bs. length bs \<le> KMALLOC_MAX_SIZE \<longrightarrow> snd (copy_to_user k um buff bs) = 0)"

text \<open>
  A program's run on an open device: the commands it wrote completely, in order. Reads, releases and
  opens may happen anywhere, with any outcome, and so may writes that return an error.
\<close>

inductive driver_logs :: "drv \<Rightarrow> byte list list \<Rightarrow> drv \<Rightarrow> bool" for st0 where
  logs_start: "driver_logs st0 [] st0"
| logs_write: "driver_logs st0 ls st \<Longrightarrow> kernel_ok k \<Longrightarrow> private_data filp \<Longrightarrow> 0 < unat count \<Longrightarrow>
    unat count \<le> MAX_RW_COUNT \<Longrightarrow> copy_from_user k um buff count = (line, 0) \<Longrightarrow>
    aesd_write k intr filp buff count pos um st = Inr (r, pos', st') \<Longrightarrow> \<not> sint r < 0 \<Longrightarrow>
    driver_logs st0 (ls @ [line]) st'"
| logs_failed: "driver_logs st0 ls st \<Longrightarrow> kernel_ok k \<Longrightarrow> private_data filp \<Longrightarrow> 0 < unat count \<Longrightarrow>
    unat count \<le> MAX_RW_COUNT \<Longrightarrow>
    aesd_write k intr filp buff count pos um st = Inr (r, pos', st') \<Longrightarrow> sint r < 0 \<Longrightarrow>
    driver_logs st0 ls st'"
| logs_read: "driver_logs st0 ls st \<Longrightarrow> kernel_ok k \<Longrightarrow> private_data filp \<Longrightarrow>
    aesd_read k intr filp buff count pos um st = Inr (r, pos', um', st') \<Longrightarrow> driver_logs st0 ls st'"
| logs_open: "driver_logs st0 ls st \<Longrightarrow> aesd_open filp st = (r, filp', st') \<Longrightarrow> driver_logs st0 ls st'"
| logs_release: "driver_logs st0 ls st \<Longrightarrow> kernel_ok k \<Longrightarrow> private_data filp \<Longrightarrow>
    aesd_release k filp st = Inr (r, st') \<Longrightarrow> driver_logs st0 ls st'"

text \<open>The addresses the allocator of the demonstration kernel tries, and those that are free.\<close>

definition slot :: "nat \<Rightarrow> addr" where
  "slot i = 64 + 64 * of_nat i"

definition free_slots :: "heap \<Rightarrow> nat set" where
  "free_slots h = {i. i < 64 \<and> h (slot i) = None}"

subsection \<open>Reading to the end\<close>

lemma locate_boundary:
  "i < length hist \<Longrightarrow> \<forall>c \<in> set hist. c \<noteq> [] \<Longrightarrow>
     locate (map length hist) (length (concat (take i hist))) = Some (i, 0)"
  by (induction hist arbitrary: i) (auto simp: take_Cons split: nat.split)

lemma spec_read_boundary:
  "i < length hist \<Longrightarrow> \<forall>c \<in> set hist. c \<noteq> [] \<Longrightarrow> spec_read hist (length (concat (take i hist))) = hist ! i"
  by (simp add: spec_read_def locate_boundary)

text \<open>The reads left are the commands from number \<open>i\<close> on.\<close>

lemma drains_rest:
  fixes filp :: kfile
  assumes k: "kernel_ok k" and o: "private_data filp" and c: "takes_copies k buff"
  shows "drv_inv st \<Longrightarrow> roomy count st \<Longrightarrow> i + n = length (history st) \<Longrightarrow> serves k n (kheap st) \<Longrightarrow>
    drains st (of_nat (length (concat (take i (history st))))) (concat (drop i (history st)))"
proof (induction n arbitrary: i st)
  case 0
  let ?pos = "of_nat (length (concat (take i (history st)))) :: s64"
  have core: "drv_core st" using "0.prems"(1) by (simp add: drv_inv_def)
  have "length (concat (history st)) < 2 ^ 32"
    using history_sizes(1,2) [OF core] by (simp add: sum_list_append_concat)
  then have "unat ?pos = length (concat (history st))" using "0.prems"(3) by (simp add: unat_of_nat_64)
  then have "length (concat (history st)) \<le> unat ?pos" by simp
  from drain_end [OF k o "0.prems"(2) aesd_read_eof [OF "0.prems"(1) o this]] "0.prems"(3) show ?case by simp
next
  case (Suc n)
  let ?h = "history st"
  let ?pos = "of_nat (length (concat (take i ?h))) :: s64" and ?out = "?h ! i"
  have core: "drv_core st" using Suc.prems(1) by (simp add: drv_inv_def)
  have i: "i < length ?h" using Suc.prems(3) by simp
  have split: "concat ?h = concat (take i ?h) @ ?out @ concat (drop (Suc i) ?h)"
    using i by (metis append_take_drop_id concat_append concat.simps(2) Cons_nth_drop_Suc)
  have total: "length (concat ?h) < 2 ^ 32" using history_sizes(1,2) [OF core] by (simp add: sum_list_append_concat)
  have pos: "unat ?pos = length (concat (take i ?h))" using total split by (intro unat_of_nat_64) simp
  have ne: "?out \<noteq> []" and sz: "length ?out \<le> KMALLOC_MAX_SIZE" using history_sizes(3,4) [OF core] i by simp_all
  have out: "spec_read ?h (unat ?pos) = ?out" unfolding pos using i history_sizes(3) [OF core] by (rule spec_read_boundary)
  have hit: "unat ?pos < length (concat ?h)" unfolding pos using split ne by simp
  have len: "unat (of_nat (length ?out) :: u64) = length ?out" using sz by (intro unat_of_nat_64) (simp add: KMALLOC_MAX_SIZE_def)
  from Suc.prems(4) len ne sz obtain p junk where
    km: "kmalloc k (of_nat (length ?out)) (kheap st) = Some (p, junk)" and more: "\<forall>bs. serves k n ((kheap st)(p \<mapsto> Bytes bs))"
    by (metis length_greater_0_conv serves.simps(2))
  obtain um' where cp: "copy_to_user k Map.empty buff ?out = (um', 0)"
    using c sz unfolding takes_copies_def by (metis prod.collapse)
  from aesd_read_hit [OF Suc.prems(1) k o hit, unfolded out, OF km cp, of count] obtain st' where
    rd: "aesd_read k False filp buff count ?pos Map.empty st = Inr
        (let n = of_nat (length ?out) in (if count > n then n else count, ?pos + n, um', st'))"
    and st': "drv_inv st'" "history st' = ?h" "kheap st' = (kheap st)(p \<mapsto> Bytes ?out)" by auto
  have "length ?out \<le> unat count" using Suc.prems(2) i by (simp add: roomy_def)
  then have "(if count > of_nat (length ?out) then of_nat (length ?out) else count) = (of_nat (length ?out) :: u64)"
    using len by (auto simp: word_less_nat_alt word_unat_eq_iff)
  with rd have rd': "aesd_read k False filp buff count ?pos Map.empty st =
      Inr (of_nat (length ?out), ?pos + of_nat (length ?out), um', st')" by (simp add: Let_def)
  have r': "roomy count st'" using Suc.prems(2) st'(2) by (simp add: roomy_def)
  have n: "Suc i + n = length (history st')" using Suc.prems(3) st'(2) by simp
  have next_pos: "?pos + of_nat (length ?out) = of_nat (length (concat (take (Suc i) (history st'))))"
    using i st'(2) by (simp add: take_Suc_conv_app_nth)
  have "serves k n (kheap st')" unfolding st'(3) using more by blast
  note ih = Suc.IH [OF st'(1) r' n this]
  have rest: "drains st' (?pos + of_nat (length ?out)) (concat (drop (Suc i) ?h))"
    unfolding next_pos using ih st'(2) by simp
  have u: "user_data um' buff ?out" using k cp by (auto simp: kernel_ok_def copy_to_user_ok_def)
  have pos_ret: "0 < sint (of_nat (length ?out) :: s64)"
  proof -
    have "0 \<le> sint (of_nat (length ?out) :: s64)"
      using len sz by (intro sint_nonneg_of_small) (simp add: KMALLOC_MAX_SIZE_def)
    moreover have "(of_nat (length ?out) :: s64) \<noteq> 0" using len ne by (metis length_0_conv unat_0)
    ultimately show ?thesis by (metis order_le_less sint_0 signed_eq_0_iff)
  qed
  from drain_more [OF k o Suc.prems(2) rd' pos_ret u len [symmetric] rest]
  have "drains st ?pos (?out @ concat (drop (Suc i) ?h))" .
  then show ?case using i by (metis Cons_nth_drop_Suc concat.simps(2))
qed

subsection \<open>The demonstration kernel serves\<close>

lemma unat_slot: "i < 64 \<Longrightarrow> unat (slot i) = 64 + 64 * i"
proof -
  assume i: "i < 64"
  have "slot i = of_nat (64 + 64 * i)" by (simp add: slot_def)
  then show ?thesis using i by (simp only:) (rule unat_of_nat_64, simp)
qed

lemma slot_facts: "i < 64 \<Longrightarrow> slot i \<noteq> NULL" "i < 64 \<Longrightarrow> j < 64 \<Longrightarrow> slot i = slot j \<longleftrightarrow> i = j"
proof -
  show "slot i \<noteq> NULL" if "i < 64" using unat_slot [OF that] by (metis add_is_0 unat_0 zero_neq_numeral)
  show "slot i = slot j \<longleftrightarrow> i = j" if "i < 64" "j < 64"
    using unat_slot [OF that(1)] unat_slot [OF that(2)] by (metis add_left_cancel mult_left_cancel zero_neq_numeral)
qed

lemma first_free_some:
  "i < n \<Longrightarrow> p + 64 * of_nat i \<noteq> NULL \<Longrightarrow> h (p + 64 * of_nat i) = None \<Longrightarrow> \<exists>q. first_free n p h = Some q"
proof (induction n arbitrary: p i)
  case (Suc n)
  then show ?case by (cases i) (auto simp: algebra_simps)
qed simp

lemma free_slots_upd: "card (free_slots h) \<le> Suc (card (free_slots (h(p \<mapsto> x))))"
proof -
  obtain r where r: "\<forall>i < 64. slot i = p \<longrightarrow> i = r" using slot_facts(2) by metis
  have "finite (free_slots (h(p \<mapsto> x)))" by (simp add: free_slots_def)
  moreover have "free_slots h \<subseteq> insert r (free_slots (h(p \<mapsto> x)))" using r by (auto simp: free_slots_def)
  ultimately have "card (free_slots h) \<le> card (insert r (free_slots (h(p \<mapsto> x))))" by (intro card_mono) simp_all
  also have "\<dots> \<le> Suc (card (free_slots (h(p \<mapsto> x))))" by (rule card_insert_le_m1) simp_all
  finally show ?thesis .
qed

lemma demo_serves: "n \<le> card (free_slots h) \<Longrightarrow> serves demo_kernel n h"
proof (induction n arbitrary: h)
  case (Suc n)
  then have "free_slots h \<noteq> {}" by auto
  then obtain i where i: "i \<in> free_slots h" by blast
  then obtain q where q: "first_free 64 64 h = Some q"
    using first_free_some [of i 64 64 h, folded slot_def] slot_facts(1) [of i] unfolding free_slots_def by blast
  have "serves demo_kernel n (h(q \<mapsto> Bytes bs))" for bs
    by (rule Suc.IH) (use Suc.prems free_slots_upd [of h q "Bytes bs"] in linarith)
  then show ?case using q by (simp add: demo_kernel_def)
qed simp

lemma demo_takes_copies: "takes_copies demo_kernel buff"
  by (simp add: takes_copies_def demo_kernel_def KMALLOC_MAX_SIZE_def)

subsection \<open>What a run leaves in the device\<close>

text \<open>A call that leaves the fields the abstract state is read from.\<close>

lemma same_abs:
  assumes "drv_inv st" and "aesd_device st' = aesd_device st" and "full_user_entry st' = full_user_entry st"
    and "kheap st' = kheap st"
  shows "drv_inv st' \<and> history st' = history st \<and> pending st' = pending st"
  using assms drv_core_cong [of st' st] abs_cong [of st' st] by (simp add: drv_inv_def)

lemma write_errors_negative: "ret \<in> {- ERESTARTSYS, - ENOMEM, - EFAULT} \<Longrightarrow> sint ret < 0"
  by (auto simp: ERESTARTSYS_def ENOMEM_def EFAULT_def)

lemma driver_logs_spec:
  assumes "driver_logs st0 ls st" and "drv_inv st0"
  shows "drv_inv st \<and> (history st, pending st) = fold spec_write ls (history st0, pending st0)"
  using assms(1)
proof induction
  case (logs_write ls st k filp count um buff line intr pos r pos' st')
  from logs_write have inv: "drv_inv st" by simp
  show ?case
  proof (rule aesd_write_outcome [OF inv logs_write(2,3,5), of intr buff pos um])
    fix ret st1
    assume "aesd_write k intr filp buff count pos um st = Inr (ret, pos, st1)" and "ret \<in> {- ERESTARTSYS, - ENOMEM, - EFAULT}"
    with logs_write(7,8) have "\<not> sint ret < 0" "ret \<in> {- ERESTARTSYS, - ENOMEM, - EFAULT}" by simp_all
    then show ?thesis using write_errors_negative by blast
  next
    fix st1
    assume "aesd_write k intr filp buff count pos um st = Inr (count, pos + count, st1)" "drv_inv st1"
      and "(history st1, pending st1) = spec_write (fst (copy_from_user k um buff count)) (history st, pending st)"
    with logs_write show ?thesis by simp
  next
    assume "count = 0"
    with logs_write(4) show ?thesis by simp
  qed
next
  case (logs_failed ls st k filp count intr buff pos um r pos' st')
  then have inv: "drv_inv st" by simp
  have nn: "\<not> sint count < 0" using logs_failed(5) sint_nonneg_of_small [of count] by (simp add: MAX_RW_COUNT_def)
  have "drv_inv st' \<and> history st' = history st \<and> pending st' = pending st"
  proof (rule aesd_write_outcome [OF inv logs_failed(2,3,5), of intr buff pos um])
    fix ret st1
    assume "aesd_write k intr filp buff count pos um st = Inr (ret, pos, st1)" "kheap st1 = kheap st"
      "full_user_entry st1 = full_user_entry st" "aesd_device st1 = aesd_device st"
    with logs_failed(6) same_abs [OF inv, of st1] show ?thesis by simp
  next
    fix st1 assume "aesd_write k intr filp buff count pos um st = Inr (count, pos + count, st1)"
    with logs_failed(6,7) nn show ?thesis by simp
  next
    assume "count = 0"
    with logs_failed(4) show ?thesis by simp
  qed
  with logs_failed show ?case by simp
next
  case (logs_read ls st k filp intr buff count pos um r pos' um' st')
  then show ?case using aesd_read_keeps [of st k filp intr buff count pos um] by auto
next
  case (logs_open ls st filp r filp' st')
  then have "st' = printk (Msg ''open'') st" by (simp add: aesd_open_def)
  with logs_open same_abs [of st st'] show ?case by (simp add: printk_def)
next
  case (logs_release ls st k filp r st')
  then obtain l where "st' = st\<lparr>klog := l\<rparr>" using aesd_release_ok [of st k filp] by auto
  with logs_release same_abs [of st st'] show ?case by simp
qed (use assms(2) in simp)

subsection \<open>Properties\<close>

text \<open>
  C8. Reading the device ends: from a state that satisfies the driver's invariant, with a kernel that has
  memory for one block per stored command, a user buffer that takes the copies and room for any stored command, reading
  from position 0 runs to the reported end without a failing read and delivers all stored commands, of
  which there are at most ten.
\<close>

theorem device_drain_ends:
  fixes filp :: kfile
  assumes "drv_inv st" and "kernel_ok k" and "private_data filp" and "takes_copies k buff" and "roomy count st"
    and "serves k (length (history st)) (kheap st)"
  shows "drains st 0 (concat (history st)) \<and> length (history st) \<le> 10"
proof
  show "drains st 0 (concat (history st))"
    using drains_rest [OF assms(2,3,4,1,5), of 0 "length (history st)"] assms(6) by simp
  have "drv_core st" using assms(1) by (simp add: drv_inv_def)
  then obtain b where "ring_of st = b" "ring_inv (kheap st) b" by (rule drv_coreE)
  then show "length (history st) \<le> 10"
    using cb_contents_bound [of b] by (simp add: history_def ring_inv_def cap_def)
qed

theorem device_drain_ends_witness: "drains one_command 0 [97, 98, 10]"
proof -
  have o: "private_data opened" by (simp add: opened_def)
  have r: "roomy 10 one_command" by (simp add: roomy_def one_command_facts)
  have "{7} \<subseteq> free_slots (kheap one_command)"
    by (simp add: free_slots_def slot_def one_command_def loaded_facts)
  then have "card {7 :: nat} \<le> card (free_slots (kheap one_command))" by (rule card_mono [rotated]) (simp add: free_slots_def)
  then have "serves demo_kernel (length (history one_command)) (kheap one_command)"
    by (intro demo_serves) (simp add: one_command_facts)
  from device_drain_ends [OF one_command_facts(1) demo_kernel_ok o demo_takes_copies r this] show ?thesis
    by (simp add: one_command_facts)
qed

end
