(* ===== verification/Server_Class.thy ===== *)
theory Server_Class
  imports Aesd_Prelude
begin

section \<open>The server object\<close>

text \<open>
  Models the class \<open>server\<close> of \<^verbatim>\<open>server/server.h\<close>: its constructors, \<open>create\<close>, the socket calls, the
  table of per-connection structures and the destructor. The memory is explicit: the structures
  \<open>thread_args\<close> and the message buffers by address. An array element or member that was never
  assigned is \<open>None\<close>, and reading it is the fault \<open>UninitRead\<close>.

  The socket and thread functions of the C library are not part of the repository; what each
  returned is a parameter of the method that calls it.
\<close>

definition THREAD_MAX :: nat where "THREAD_MAX = 100"

record addrinfo =
  ai_flags :: s32
  ai_family :: s32
  ai_socktype :: s32
  ai_protocol :: s32

record thread_args =
  isComplete :: bool
  socketfd :: s32
  msgLen :: u32
  msg :: addr
  threadId :: "u64 option"
  fileMutex :: "addr option"

record server =
  service :: "byte list"
  hints :: addrinfo
  resInfo :: "addrinfo option"
  sockfd :: s32
  isAllocated :: bool
  pThreadArgs :: "addr option list"
  numOfThreads :: nat
  args_mem :: "addr \<rightharpoonup> thread_args"
  msg_mem :: "addr \<rightharpoonup> byte list"

subsection \<open>Constructors\<close>

text \<open>\<open>AF_UNSPEC\<close>, \<open>AI_PASSIVE\<close> and \<open>SOCK_STREAM\<close> over a zeroed structure.\<close>

definition stream_hints :: addrinfo where
  "stream_hints = \<lparr>ai_flags = 1, ai_family = 0, ai_socktype = 1, ai_protocol = 0\<rparr>"

definition new_server :: "byte list \<Rightarrow> addrinfo \<Rightarrow> addrinfo option \<Rightarrow> server" where
  "new_server svc h r =
     \<lparr>service = svc, hints = h, resInfo = r, sockfd = - 1, isAllocated = False,
      pThreadArgs = replicate THREAD_MAX None, numOfThreads = 0,
      args_mem = Map.empty, msg_mem = Map.empty\<rparr>"

text \<open>The decimal digits \<open>sprintf\<close> writes for \<open>%d\<close> on a number that is not negative.\<close>

fun digits :: "nat \<Rightarrow> byte list" where
  "digits n = (if n < 10 then [of_nat (48 + n)] else digits (n div 10) @ [of_nat (48 + n mod 10)])"

declare digits.simps [simp del]

text \<open>\<open>sprintf\<close> stores the digits and a terminating null byte; \<open>service\<close> has five bytes.\<close>

definition server_default :: "nat \<Rightarrow> server result" where
  "server_default rand =
     (let text = digits (rand mod 65335 + 1025) @ [0] in
      if length text \<le> 5
      then Inr (new_server (text @ replicate (5 - length text) 0) stream_hints None)
      else Inl OutOfBounds)"

definition strncpy :: "nat \<Rightarrow> byte list \<Rightarrow> byte list" where
  "strncpy n src = take n (takeWhile (\<lambda>b. b \<noteq> 0) src @ replicate n 0)"

definition server_port :: "byte list \<Rightarrow> server" where
  "server_port port = new_server (strncpy 5 port) stream_hints None"

definition server_full :: "byte list \<Rightarrow> addrinfo \<Rightarrow> addrinfo option \<Rightarrow> server" where
  "server_full s h r = new_server (strncpy 5 s) h r"

subsection \<open>Opening the listening socket\<close>

text \<open>What the calls of \<open>create\<close> return, in the order in which they are made.\<close>

record create_calls =
  c_getaddrinfo :: "s32 \<times> addrinfo"
  c_socket :: "addrinfo \<Rightarrow> s32"
  c_reuseaddr :: s32
  c_reuseport :: s32
  c_bind :: s32
  c_listen :: s32

definition create :: "create_calls \<Rightarrow> server \<Rightarrow> s32 \<times> server" where
  "create c s =
     (if fst (c_getaddrinfo c) \<noteq> 0 then (- 1, s)
      else let s = s\<lparr>resInfo := Some (snd (c_getaddrinfo c)), isAllocated := True,
                     sockfd := c_socket c (snd (c_getaddrinfo c))\<rparr> in
        if sockfd s = - 1 then (sockfd s, s)
        else if c_reuseaddr c = - 1 then (c_reuseaddr c, s)
        else if c_reuseport c = - 1 then (c_reuseport c, s)
        else if c_bind c \<noteq> 0 then (c_bind c, s)
        else if c_listen c \<noteq> 0 then (c_listen c, s)
        else (sockfd s, s))"

definition newClientSocket :: "s32 \<Rightarrow> s32" where
  "newClientSocket accept = (let commSocket = accept in commSocket)"

definition sendMsg :: "(s32 \<Rightarrow> byte list \<Rightarrow> s32) \<Rightarrow> s32 \<Rightarrow> byte list \<Rightarrow> s32" where
  "sendMsg send commSocket text = send commSocket (takeWhile (\<lambda>b. b \<noteq> 0) text)"

definition recvMsg :: "(s32 \<Rightarrow> u32 \<Rightarrow> byte list \<times> s32) \<Rightarrow> s32 \<Rightarrow> u32 \<Rightarrow> byte list \<times> s32" where
  "recvMsg recv commSocket len = recv commSocket len"

text \<open>
  \<open>ntop\<close> is what \<open>inet_ntop\<close> writes for a family, given the size of the buffer; the static buffer
  keeps its old contents for any other family.
\<close>

definition getIpAddr :: "(s32 \<Rightarrow> nat \<Rightarrow> byte list \<Rightarrow> byte list) \<Rightarrow> byte list \<Rightarrow> server \<Rightarrow> byte list result" where
  "getIpAddr ntop ipAddr s =
     (case resInfo s of
        None \<Rightarrow> Inl NullDeref
      | Some r \<Rightarrow> if ai_family r = 10 then Inr (ntop 10 20 ipAddr)
                  else if ai_family r = 2 then Inr (ntop 2 20 ipAddr)
                  else Inr ipAddr)"

subsection \<open>Connection threads\<close>

definition load_args :: "server \<Rightarrow> nat \<Rightarrow> thread_args result" where
  "load_args s i =
     res_bind (arr_read (pThreadArgs s) i) (\<lambda>p.
       case p of
         None \<Rightarrow> Inl UninitRead
       | Some a \<Rightarrow> if a = NULL then Inl NullDeref
                   else (case args_mem s a of None \<Rightarrow> Inl UseAfterFree | Some t \<Rightarrow> Inr t))"

text \<open>
  The structure of a new thread up to the call of \<open>pthread_create\<close>, which gets a pointer to it; false
  when the function returns before. \<open>m1\<close> and \<open>m2\<close> are the results of the two \<open>malloc\<close> calls (0 for
  failure). The check behind the first \<open>malloc\<close> tests the array, which is never null, and the check
  behind the second comes after the buffer was cleared. Of the members only \<open>threadId\<close> and \<open>fileMutex\<close>
  are not set here.
\<close>

definition alloc_thread_args :: "addr \<Rightarrow> addr \<Rightarrow> s32 \<Rightarrow> u32 \<Rightarrow> server \<Rightarrow> (bool \<times> server) result" where
  "alloc_thread_args m1 m2 commSocket len s =
     res_bind (arr_write (pThreadArgs s) (numOfThreads s) (Some m1)) (\<lambda>pa.
       if m1 = NULL then Inl NullDeref
       else if m2 = NULL \<and> len \<noteq> 0 then Inl NullDeref
       else
         let t = \<lparr>isComplete = False, socketfd = commSocket, msgLen = len, msg = m2, threadId = None,
                  fileMutex = None\<rparr>;
             bufs = (if m2 = NULL then msg_mem s else (msg_mem s)(m2 \<mapsto> replicate (unat len) 0)) in
         Inr (m2 \<noteq> NULL, s\<lparr>pThreadArgs := pa, args_mem := (args_mem s)(m1 \<mapsto> t), msg_mem := bufs\<rparr>))"

text \<open>
  The whole function; \<open>cr\<close> is the result of \<open>pthread_create\<close> and the identifier it stores. The new
  thread may run from there on; the pointer to the mutex is stored only behind it.
\<close>

definition initServerThread ::
    "addr \<Rightarrow> addr \<Rightarrow> s32 \<times> u64 \<Rightarrow> s32 \<Rightarrow> u32 \<Rightarrow> addr \<Rightarrow> server \<Rightarrow> (u64 \<times> server) result" where
  "initServerThread m1 m2 cr commSocket len mutex s =
     (if numOfThreads s \<ge> THREAD_MAX then Inr (- 1, s)
      else res_bind (alloc_thread_args m1 m2 commSocket len s) (\<lambda>(allocated, s).
        if \<not> allocated then Inr (- 1, s)
        else if fst cr \<noteq> 0 then Inr (- 1, s)
        else Inr (snd cr, s\<lparr>args_mem := (args_mem s)(m1 := map_option
                              (\<lambda>t. t\<lparr>threadId := Some (snd cr), fileMutex := Some mutex\<rparr>) (args_mem s m1)),
                            numOfThreads := Suc (numOfThreads s)\<rparr>)))"

text \<open>The member \<open>threadId\<close>, indeterminate until \<open>pthread_create\<close> stored it.\<close>

definition load_threadId :: "thread_args \<Rightarrow> u64 result" where
  "load_threadId t = (case threadId t of None \<Rightarrow> Inl UninitRead | Some i \<Rightarrow> Inr i)"

definition getThreadId :: "nat \<Rightarrow> server \<Rightarrow> u64 result" where
  "getThreadId threadNum s = res_bind (load_args s threadNum) load_threadId"

fun completion_loop :: "nat \<Rightarrow> nat \<Rightarrow> u64 \<Rightarrow> server \<Rightarrow> bool result" where
  "completion_loop 0 i tid s = Inr False"
| "completion_loop (Suc todo) i tid s =
     res_bind (load_args s i) (\<lambda>t.
     res_bind (load_threadId t) (\<lambda>id.
       if tid = id then Inr (isComplete t) else completion_loop todo (Suc i) tid s))"

definition threadCompletionStatus :: "u64 \<Rightarrow> server \<Rightarrow> bool result" where
  "threadCompletionStatus tid s = completion_loop THREAD_MAX 0 tid s"

subsection \<open>Destructor\<close>

fun free_loop :: "nat \<Rightarrow> nat \<Rightarrow> server \<Rightarrow> server result" where
  "free_loop 0 i s = Inr s"
| "free_loop (Suc todo) i s =
     res_bind (load_args s i) (\<lambda>t.
     res_bind (if msg t = NULL then Inr s
               else if msg_mem s (msg t) = None then Inl InvalidFree
               else Inr (s\<lparr>msg_mem := (msg_mem s)(msg t := None)\<rparr>)) (\<lambda>s.
     free_loop todo (Suc i) (s\<lparr>args_mem := (args_mem s)(the (pThreadArgs s ! i) := None)\<rparr>)))"

text \<open>The descriptor that was closed, whether \<open>freeaddrinfo\<close> was called, and the object afterwards.\<close>

definition server_destroy :: "server \<Rightarrow> (s32 option \<times> bool \<times> server) result" where
  "server_destroy s =
     (let closed = (if sockfd s \<noteq> - 1 then Some (sockfd s) else None) in
      res_bind (free_loop (numOfThreads s) 0 s) (\<lambda>s'. Inr (closed, isAllocated s, s')))"

subsection \<open>Invariant of the thread table\<close>

definition slot_addrs :: "server \<Rightarrow> addr list" where
  "slot_addrs s = map the (take (numOfThreads s) (pThreadArgs s))"

definition slot_bufs :: "server \<Rightarrow> addr list" where
  "slot_bufs s = map (\<lambda>a. msg (the (args_mem s a))) (slot_addrs s)"

definition server_inv :: "server \<Rightarrow> bool" where
  "server_inv s \<longleftrightarrow>
     length (pThreadArgs s) = THREAD_MAX \<and> numOfThreads s \<le> THREAD_MAX \<and>
     None \<notin> set (take (numOfThreads s) (pThreadArgs s)) \<and>
     distinct (slot_addrs s) \<and> distinct (slot_bufs s) \<and>
     (\<forall>a \<in> set (slot_addrs s). a \<noteq> NULL \<and>
        (case args_mem s a of None \<Rightarrow> False | Some t \<Rightarrow> threadId t \<noteq> None)) \<and>
     (\<forall>b \<in> set (slot_bufs s). b \<noteq> NULL \<and> msg_mem s b \<noteq> None)"

text \<open>A server object with the port the program uses, and one connection on it.\<close>

definition port_9000 :: server where
  "port_9000 = server_port [57, 48, 48, 48, 0]"

lemma new_server_inv: "server_inv (new_server svc h r)"
  by (simp add: server_inv_def new_server_def slot_addrs_def slot_bufs_def)

lemma server_inv_slot:
  assumes "server_inv s" and "i < numOfThreads s"
  obtains a t where "pThreadArgs s ! i = Some a" "slot_addrs s ! i = a" "a \<in> set (slot_addrs s)" "a \<noteq> NULL"
    "args_mem s a = Some t" "threadId t \<noteq> None" "load_args s i = Inr t"
proof -
  from assms have i: "i < length (pThreadArgs s)" "i < length (slot_addrs s)"
    by (auto simp: server_inv_def slot_addrs_def)
  have "pThreadArgs s ! i \<in> set (take (numOfThreads s) (pThreadArgs s))"
    using assms(2) i by (metis (no_types, lifting) in_set_conv_nth length_take min_less_iff_conj nth_take)
  with assms(1) obtain a where a: "pThreadArgs s ! i = Some a" by (cases "pThreadArgs s ! i") (auto simp: server_inv_def)
  have sa: "slot_addrs s ! i = a" using a assms(2) i by (simp add: slot_addrs_def)
  with i(2) have mem: "a \<in> set (slot_addrs s)" by (metis nth_mem)
  with assms(1) obtain t where "a \<noteq> NULL" "args_mem s a = Some t" "threadId t \<noteq> None"
    by (auto simp: server_inv_def split: option.splits)
  with a sa mem i show thesis by (intro that) (auto simp: load_args_def)
qed

lemma initServerThread_ok:
  assumes inv: "server_inv s" and room: "numOfThreads s < THREAD_MAX"
    and m: "m1 \<noteq> NULL" "m2 \<noteq> NULL" "args_mem s m1 = None" "msg_mem s m2 = None"
  shows "\<exists>s'. initServerThread m1 m2 (0, tid) sock len mutex s = Inr (tid, s') \<and> server_inv s' \<and>
     numOfThreads s' = Suc (numOfThreads s) \<and> slot_addrs s' = slot_addrs s @ [m1] \<and>
     slot_bufs s' = slot_bufs s @ [m2] \<and> resInfo s' = resInfo s \<and>
     (\<forall>a. a \<noteq> m1 \<longrightarrow> args_mem s' a = args_mem s a) \<and>
     msg_mem s' = (msg_mem s)(m2 \<mapsto> replicate (unat len) 0) \<and>
     load_args s' (numOfThreads s) = Inr \<lparr>isComplete = False, socketfd = sock, msgLen = len, msg = m2,
       threadId = Some tid, fileMutex = Some mutex\<rparr>"
proof -
  let ?n = "numOfThreads s"
  let ?t = "\<lparr>isComplete = False, socketfd = sock, msgLen = len, msg = m2, threadId = Some tid, fileMutex = Some mutex\<rparr>"
  let ?s = "s\<lparr>pThreadArgs := (pThreadArgs s)[?n := Some m1], args_mem := (args_mem s)(m1 \<mapsto> ?t),
      msg_mem := (msg_mem s)(m2 \<mapsto> replicate (unat len) 0), numOfThreads := Suc ?n\<rparr>"
  from inv room have len: "?n < length (pThreadArgs s)" by (simp add: server_inv_def)
  then have run: "initServerThread m1 m2 (0, tid) sock len mutex s = Inr (tid, ?s)"
    using room m by (simp add: initServerThread_def alloc_thread_args_def Let_def)
  have tk: "take (Suc ?n) ((pThreadArgs s)[?n := Some m1]) = take ?n (pThreadArgs s) @ [Some m1]"
    using len by (simp add: take_Suc_conv_app_nth)
  then have sa: "slot_addrs ?s = slot_addrs s @ [m1]" by (simp add: slot_addrs_def)
  have fresh: "m1 \<notin> set (slot_addrs s)" using inv m(3) by (auto simp: server_inv_def)
  then have sb: "slot_bufs ?s = slot_bufs s @ [m2]" unfolding slot_bufs_def sa by auto
  have fresh2: "m2 \<notin> set (slot_bufs s)" using inv m(4) by (auto simp: server_inv_def)
  have "server_inv ?s"
    using inv room m fresh fresh2 unfolding server_inv_def sa sb by (auto simp: tk)
  moreover have "load_args ?s ?n = Inr ?t" using len m by (simp add: load_args_def)
  ultimately show ?thesis using run sa sb by (intro exI [of _ ?s]) simp
qed

text \<open>The destructor's loop over a stretch of the table.\<close>

lemma free_loop_slots:
  assumes "\<forall>k < length xs. i + k < length (pThreadArgs s) \<and> pThreadArgs s ! (i + k) = Some (xs ! k)"
    and "distinct xs" and "distinct (map (\<lambda>a. msg (the (args_mem s a))) xs)"
    and "\<forall>a \<in> set xs. a \<noteq> NULL \<and> args_mem s a \<noteq> None \<and> msg (the (args_mem s a)) \<noteq> NULL \<and>
           msg_mem s (msg (the (args_mem s a))) \<noteq> None"
  shows "free_loop (length xs) i s =
    Inr (s\<lparr>msg_mem := msg_mem s |` (- (\<lambda>a. msg (the (args_mem s a))) ` set xs),
           args_mem := args_mem s |` (- set xs)\<rparr>)"
  using assms
proof (induction xs arbitrary: i s)
  case Nil
  then show ?case by (simp add: restrict_map_def)
next
  case (Cons a xs)
  let ?m = "\<lambda>a. msg (the (args_mem s a))"
  from Cons.prems(4) obtain t where t: "args_mem s a = Some t" "a \<noteq> NULL" "msg t \<noteq> NULL" "msg_mem s (msg t) \<noteq> None"
    by auto
  have i: "i < length (pThreadArgs s)" "pThreadArgs s ! i = Some a"
    using Cons.prems(1) by (auto dest: spec [of _ 0])
  let ?s = "s\<lparr>msg_mem := (msg_mem s)(msg t := None), args_mem := (args_mem s)(a := None)\<rparr>"
  have step: "free_loop (length (a # xs)) i s = free_loop (length xs) (Suc i) ?s"
    using t i by (auto simp: load_args_def)
  have na: "\<forall>x \<in> set xs. x \<noteq> a" using Cons.prems(2) by auto
  have nm: "\<forall>x \<in> set xs. ?m x \<noteq> msg t" using Cons.prems(3) t(1) by (auto simp: image_iff)
  have eq: "map (\<lambda>x. msg (the (args_mem ?s x))) xs = map ?m xs" using na by simp
  have ih: "free_loop (length xs) (Suc i) ?s =
      Inr (?s\<lparr>msg_mem := msg_mem ?s |` (- (\<lambda>x. msg (the (args_mem ?s x))) ` set xs),
              args_mem := args_mem ?s |` (- set xs)\<rparr>)"
  proof (rule Cons.IH)
    show "\<forall>k < length xs. Suc i + k < length (pThreadArgs ?s) \<and> pThreadArgs ?s ! (Suc i + k) = Some (xs ! k)"
      using Cons.prems(1) by (auto dest: spec [of _ "Suc k" for k])
    show "distinct xs" using Cons.prems(2) by simp
    show "distinct (map (\<lambda>a. msg (the (args_mem ?s a))) xs)" unfolding eq using Cons.prems(3) by simp
    show "\<forall>x \<in> set xs. x \<noteq> NULL \<and> args_mem ?s x \<noteq> None \<and> msg (the (args_mem ?s x)) \<noteq> NULL \<and>
        msg_mem ?s (msg (the (args_mem ?s x))) \<noteq> None"
      using Cons.prems(4) na nm by simp
  qed
  have "(\<lambda>x. msg (the (args_mem ?s x))) ` set xs = ?m ` set xs" using na by auto
  then have "msg_mem ?s |` (- (\<lambda>x. msg (the (args_mem ?s x))) ` set xs) = msg_mem s |` (- ?m ` set (a # xs))"
    using t(1) by (auto simp: restrict_map_def fun_eq_iff)
  moreover have "args_mem ?s |` (- set xs) = args_mem s |` (- set (a # xs))"
    by (auto simp: restrict_map_def)
  moreover have "?s\<lparr>msg_mem := x, args_mem := y\<rparr> = s\<lparr>msg_mem := x, args_mem := y\<rparr>" for x y by simp
  ultimately show ?case unfolding step ih by (simp only:)
qed

subsection \<open>Properties\<close>

lemma length_digits: "0 < k \<Longrightarrow> length (digits n) \<le> k \<longleftrightarrow> n < 10 ^ k"
proof (induction n arbitrary: k rule: digits.induct)
  case (1 n)
  show ?case
  proof (cases "n < 10")
    case True
    have "(10 :: nat) ^ 1 \<le> 10 ^ k" using 1(2) by (intro power_increasing) auto
    with True 1(2) show ?thesis by (simp add: digits.simps [of n])
  next
    case False
    then have d: "length (digits n) = Suc (length (digits (n div 10)))" by (simp add: digits.simps [of n])
    show ?thesis
    proof (cases "k = 1")
      case True
      have "digits (n div 10) \<noteq> []" by (subst digits.simps) simp
      with True False d show ?thesis by simp
    next
      case False
      then obtain j where j: "k = Suc j" "0 < j" using 1(2) by (cases k) auto
      with 1(1) [OF \<open>\<not> n < 10\<close>, of j] d show ?thesis by (auto simp: div_less_iff_less_mult)
    qed
  qed
qed

text \<open>
  The port member is five bytes. The default constructor writes past it for every random value
  whose port has five digits, which is most of them, and for all others stores the terminated
  digits; a constructor given a port string leaves the member terminated exactly when the string
  has at most four characters.
\<close>

lemma service_member_bounds:
  assumes "0 \<notin> set port"
  shows "server_default r = (if r mod 65335 + 1025 < 10000
           then Inr (new_server (digits (r mod 65335 + 1025) @ [0]) stream_hints None) else Inl OutOfBounds) \<and>
         (0 \<in> set (service (server_port (port @ [0]))) \<longleftrightarrow> length port \<le> 4)"
proof -
  let ?p = "r mod 65335 + 1025"
  have "length (digits ?p) \<le> 4 \<longleftrightarrow> ?p < 10000" using length_digits [of 4 ?p] by simp
  moreover have "\<not> length (digits ?p) \<le> 3" using length_digits [of 3 ?p] by simp
  ultimately have "server_default r = (if ?p < 10000
      then Inr (new_server (digits ?p @ [0]) stream_hints None) else Inl OutOfBounds)"
    by (auto simp: server_default_def Let_def)
  moreover have tw: "takeWhile (\<lambda>b. b \<noteq> 0) (port @ [0]) = port"
    by (subst takeWhile_append2) (use assms in auto)
  have "0 \<in> set (service (server_port (port @ [0]))) \<longleftrightarrow> length port \<le> 4"
  proof (cases "length port \<le> 4")
    case True
    then show ?thesis by (simp add: server_port_def new_server_def strncpy_def tw)
  next
    case False
    with assms show ?thesis
      by (auto simp: server_port_def new_server_def strncpy_def tw dest: in_set_takeD)
  qed
  ultimately show ?thesis by blast
qed

text \<open>
  Opening and closing: on a fresh object, and with \<open>bind\<close> and \<open>listen\<close> returning 0 or -1,
  \<open>create\<close> returns the listening socket exactly when all of its calls succeed and -1 otherwise.
  Whatever failed, the destructor of the object then closes the socket exactly when one was opened
  and releases the address list exactly when there is one.
\<close>

lemma create_then_destroy:
  assumes "c_bind c \<in> {0, - 1}" and "c_listen c \<in> {0, - 1}" and "create c (server_port p) = (r, s)"
  defines "fd \<equiv> c_socket c (snd (c_getaddrinfo c))"
  shows "r = (if fst (c_getaddrinfo c) = 0 \<and> c_reuseaddr c \<noteq> - 1 \<and> c_reuseport c \<noteq> - 1 \<and>
                 c_bind c = 0 \<and> c_listen c = 0 then fd else - 1) \<and>
         server_destroy s = Inr (if fst (c_getaddrinfo c) = 0 \<and> fd \<noteq> - 1 then Some fd else None,
                                 fst (c_getaddrinfo c) = 0, s)"
  using assms
  by (auto simp: create_def server_destroy_def server_port_def new_server_def Let_def split: if_splits)

text \<open>
  C22. Registering a connection: while the table has room and memory is available,
  \<open>initServerThread\<close> records the new thread in the next slot, keeps the table well formed and returns
  the identifier, which \<open>getThreadId\<close> then returns for that slot. The slot holds the socket of the
  connection, the length, a buffer of that many null bytes, and the mutex; the other structures and
  buffers are as before. But the structure on which the thread was created does not have the mutex
  yet. When the thread cannot be created the count stays and the result is -1. A full table is left
  alone with result -1. A failed allocation is dereferenced.
\<close>

theorem initServerThread_registers:
  assumes "server_inv s" and "m1 \<noteq> NULL" and "m2 \<noteq> NULL" and "args_mem s m1 = None" and "msg_mem s m2 = None"
    and "len \<noteq> 0"
  shows "if numOfThreads s < THREAD_MAX then
           (\<exists>s'. initServerThread m1 m2 (0, tid) sock len mutex s = Inr (tid, s') \<and> server_inv s' \<and>
              numOfThreads s' = Suc (numOfThreads s) \<and> getThreadId (numOfThreads s) s' = Inr tid \<and>
              slot_addrs s' = slot_addrs s @ [m1] \<and> slot_bufs s' = slot_bufs s @ [m2] \<and>
              load_args s' (numOfThreads s) = Inr \<lparr>isComplete = False, socketfd = sock, msgLen = len, msg = m2,
                threadId = Some tid, fileMutex = Some mutex\<rparr> \<and>
              (\<forall>a. a \<noteq> m1 \<longrightarrow> args_mem s' a = args_mem s a) \<and>
              msg_mem s' = (msg_mem s)(m2 \<mapsto> replicate (unat len) 0)) \<and>
           (\<exists>s1. alloc_thread_args m1 m2 sock len s = Inr (True, s1) \<and>
              args_mem s1 m1 = Some \<lparr>isComplete = False, socketfd = sock, msgLen = len, msg = m2,
                threadId = None, fileMutex = None\<rparr> \<and>
              (\<forall>e. e \<noteq> 0 \<longrightarrow> initServerThread m1 m2 (e, tid) sock len mutex s = Inr (- 1, s1)) \<and>
              numOfThreads s1 = numOfThreads s) \<and>
           initServerThread 0 m2 cr sock len mutex s = Inl NullDeref \<and>
           initServerThread m1 0 cr sock len mutex s = Inl NullDeref
         else initServerThread m1 m2 cr sock len mutex s = Inr (- 1, s)"
proof (cases "numOfThreads s < THREAD_MAX")
  case True
  with assms(1) have n: "numOfThreads s < length (pThreadArgs s)" by (simp add: server_inv_def)
  from initServerThread_ok [OF assms(1) True assms(2-5), of tid sock len mutex] obtain s' where
    s': "initServerThread m1 m2 (0, tid) sock len mutex s = Inr (tid, s')" "server_inv s'"
      "numOfThreads s' = Suc (numOfThreads s)" "slot_addrs s' = slot_addrs s @ [m1]" "slot_bufs s' = slot_bufs s @ [m2]"
      "\<forall>a. a \<noteq> m1 \<longrightarrow> args_mem s' a = args_mem s a" "msg_mem s' = (msg_mem s)(m2 \<mapsto> replicate (unat len) 0)"
      "load_args s' (numOfThreads s) = Inr \<lparr>isComplete = False, socketfd = sock, msgLen = len, msg = m2,
         threadId = Some tid, fileMutex = Some mutex\<rparr>" by blast
  moreover have "getThreadId (numOfThreads s) s' = Inr tid" using s'(8) by (simp add: getThreadId_def load_threadId_def)
  moreover have "initServerThread 0 m2 cr sock len mutex s = Inl NullDeref"
    "initServerThread m1 0 cr sock len mutex s = Inl NullDeref"
    using True n assms(2,6) by (simp_all add: initServerThread_def alloc_thread_args_def)
  ultimately show ?thesis using True n assms(2,3)
    by (auto simp: initServerThread_def alloc_thread_args_def Let_def)
next
  case False
  then show ?thesis by (simp add: initServerThread_def)
qed

theorem initServerThread_registers_witness:
  "\<exists>s'. initServerThread 64 128 (0, 7) 5 100000 8 port_9000 = Inr (7, s') \<and>
     load_args s' 0 = Inr \<lparr>isComplete = False, socketfd = 5, msgLen = 100000, msg = 128, threadId = Some 7,
       fileMutex = Some 8\<rparr>"
proof -
  have inv: "server_inv port_9000" by (simp add: port_9000_def server_port_def new_server_inv)
  have z: "numOfThreads port_9000 = 0" "args_mem port_9000 64 = None" "msg_mem port_9000 128 = None"
    by (simp_all add: port_9000_def server_port_def new_server_def)
  from initServerThread_registers [OF inv _ _ z(2,3), of 100000 7 5 8 "(0, 0)"] z(1) show ?thesis
    by (auto simp: THREAD_MAX_def)
qed

text \<open>
  The destructor frees the whole table: from a well-formed table it does not fault, and exactly the
  registered structures and their message buffers are freed, each once.
\<close>

lemma server_destroy_frees:
  assumes "server_inv s"
  shows "\<exists>s'. server_destroy s = Inr (if sockfd s = - 1 then None else Some (sockfd s), isAllocated s, s') \<and>
           args_mem s' = args_mem s |` (- set (slot_addrs s)) \<and>
           msg_mem s' = msg_mem s |` (- set (slot_bufs s))"
proof -
  let ?xs = "slot_addrs s"
  have len: "length ?xs = numOfThreads s" using assms by (simp add: server_inv_def slot_addrs_def)
  have "free_loop (length ?xs) 0 s =
    Inr (s\<lparr>msg_mem := msg_mem s |` (- (\<lambda>a. msg (the (args_mem s a))) ` set ?xs),
           args_mem := args_mem s |` (- set ?xs)\<rparr>)"
  proof (rule free_loop_slots)
    show "\<forall>k < length ?xs. 0 + k < length (pThreadArgs s) \<and> pThreadArgs s ! (0 + k) = Some (?xs ! k)"
    proof (intro allI impI)
      fix k assume k: "k < length ?xs"
      with len have "k < numOfThreads s" by simp
      with assms obtain a where "pThreadArgs s ! k = Some a" "?xs ! k = a" by (rule server_inv_slot)
      with k len assms show "0 + k < length (pThreadArgs s) \<and> pThreadArgs s ! (0 + k) = Some (?xs ! k)"
        by (simp add: server_inv_def)
    qed
    show "distinct ?xs" "distinct (map (\<lambda>a. msg (the (args_mem s a))) ?xs)"
      using assms by (simp_all add: server_inv_def slot_bufs_def)
    show "\<forall>a \<in> set ?xs. a \<noteq> NULL \<and> args_mem s a \<noteq> None \<and> msg (the (args_mem s a)) \<noteq> NULL \<and>
        msg_mem s (msg (the (args_mem s a))) \<noteq> None"
      using assms by (auto simp: server_inv_def slot_bufs_def split: option.splits)
  qed
  with len show ?thesis by (auto simp: server_destroy_def slot_bufs_def)
qed

text \<open>
  Asking for the status of a thread: for a registered thread whose identifier no earlier slot has,
  \<open>threadCompletionStatus\<close> returns its flag; for an identifier that no registered thread has, while
  the next slot was never used, it runs on and reads an indeterminate pointer.
\<close>

lemma completion_status_spec:
  assumes "server_inv s" and "i < numOfThreads s" and "load_args s i = Inr t" and "threadId t = Some tid"
    and "\<forall>j < i. getThreadId j s \<noteq> Inr tid" and "\<forall>j < numOfThreads s. getThreadId j s \<noteq> Inr tid'"
    and "numOfThreads s < THREAD_MAX" and "pThreadArgs s ! numOfThreads s = None"
  shows "threadCompletionStatus tid s = Inr (isComplete t) \<and> threadCompletionStatus tid' s = Inl UninitRead"
proof -
  have walk: "completion_loop (m + r) j x s = completion_loop r (j + m) x s"
    if "\<forall>k. j \<le> k \<and> k < j + m \<longrightarrow> k < numOfThreads s \<and> getThreadId k s \<noteq> Inr x" for m r j x
    using that
  proof (induction m arbitrary: j)
    case (Suc m)
    from Suc.prems have j: "j < numOfThreads s" "getThreadId j s \<noteq> Inr x" by auto
    from assms(1) j(1) obtain u where "load_args s j = Inr u" "threadId u \<noteq> None" by (rule server_inv_slot)
    with j(2) have "completion_loop (Suc m + r) j x s = completion_loop (m + r) (Suc j) x s"
      by (auto simp: getThreadId_def load_threadId_def)
    with Suc.IH [of "Suc j"] Suc.prems show ?case by simp
  qed simp
  have "completion_loop (i + Suc (THREAD_MAX - Suc i)) 0 tid s = completion_loop (Suc (THREAD_MAX - Suc i)) (0 + i) tid s"
    by (rule walk) (use assms(2,5) in auto)
  moreover have "i + Suc (THREAD_MAX - Suc i) = THREAD_MAX" using assms(2,7) by simp
  ultimately have 1: "threadCompletionStatus tid s = Inr (isComplete t)"
    using assms(3,4) by (simp add: threadCompletionStatus_def load_threadId_def)
  let ?n = "numOfThreads s"
  have "completion_loop (?n + Suc (THREAD_MAX - Suc ?n)) 0 tid' s = completion_loop (Suc (THREAD_MAX - Suc ?n)) (0 + ?n) tid' s"
    by (rule walk) (use assms(6) in auto)
  moreover have "?n + Suc (THREAD_MAX - Suc ?n) = THREAD_MAX" using assms(7) by simp
  moreover have "load_args s ?n = Inl UninitRead"
    using assms(1,7,8) by (simp add: load_args_def server_inv_def)
  ultimately have "threadCompletionStatus tid' s = Inl UninitRead" by (simp add: threadCompletionStatus_def)
  with 1 show ?thesis by blast
qed

end
