(* ===== verification/Server_Main.thy ===== *)
theory Server_Main
  imports Server_Class Server_Message
begin

section \<open>The main loop of the socket server\<close>

text \<open>
  Models \<open>main\<close> and \<open>signal_handler\<close> of \<^verbatim>\<open>server/aesdsocket.cpp\<close>: one round of the endless loop, the
  signals and the joining of the threads at the end, for the configured build with the character
  device. The counter \<open>i\<close> is an \<open>unsigned char\<close>; an element of \<open>thread_id_list\<close> that was never
  assigned is \<open>None\<close>.
\<close>

definition SIGINT :: s32 where "SIGINT = 2"
definition SIGTERM :: s32 where "SIGTERM = 15"

record main_state =
  ctr :: u8
  thread_id_list :: "u64 option list"
  sigTermFlag :: bool
  sigIntFlag :: bool
  sigThreadTerminateFlag :: bool
  ipServer :: server

datatype round = Continue | Break

definition signal_handler :: "s32 \<Rightarrow> main_state \<Rightarrow> main_state" where
  "signal_handler signalNo st =
     (let st = (if signalNo = SIGTERM then st\<lparr>sigTermFlag := True\<rparr> else st) in
      if signalNo = SIGINT then st\<lparr>sigIntFlag := True\<rparr> else st)"

text \<open>What the calls made in one round return.\<close>

record round_calls =
  r_accept :: s32
  r_args :: addr
  r_msg :: addr
  r_create :: "s32 \<times> u64"
  r_ntop :: "s32 \<Rightarrow> nat \<Rightarrow> byte list \<Rightarrow> byte list"

definition main_round :: "addr \<Rightarrow> round_calls \<Rightarrow> main_state \<Rightarrow> (round \<times> main_state) result" where
  "main_round mutex c st =
     (if sigTermFlag st then
        Inr (Break, st\<lparr>sigIntFlag := False, sigThreadTerminateFlag := True\<rparr>)
      else if sigIntFlag st then
        Inr (Break, st\<lparr>sigTermFlag := False, sigThreadTerminateFlag := True\<rparr>)
      else if ctr st < 100 then
        (let listenPort = newClientSocket (r_accept c) in
         if 0 < sint listenPort \<and> unat (ctr st) < THREAD_MAX + 1 then
           res_bind (initServerThread (r_args c) (r_msg c) (r_create c) listenPort
                       (of_nat SERVER_MSG_LEN) mutex (ipServer st)) (\<lambda>(_, srv).
           res_bind (getThreadId (unat (ctr st) - 1) srv) (\<lambda>tid.
           res_bind (arr_write (thread_id_list st) (unat (ctr st)) (Some tid)) (\<lambda>ids.
           res_bind (getIpAddr (r_ntop c) (replicate 20 0) srv) (\<lambda>_.
           Inr (Continue, st\<lparr>ipServer := srv, thread_id_list := ids, ctr := ctr st + 1\<rparr>)))))
         else Inr (Continue, st))
      else Inr (Continue, st))"

text \<open>The identifiers passed to \<open>pthread_join\<close>, in order.\<close>

fun join_loop :: "nat \<Rightarrow> nat \<Rightarrow> main_state \<Rightarrow> u64 list result" where
  "join_loop 0 j st = Inr []"
| "join_loop (Suc todo) j st =
     res_bind (arr_read (thread_id_list st) j) (\<lambda>e.
       case e of
         None \<Rightarrow> Inl UninitRead
       | Some tid \<Rightarrow> res_bind (join_loop todo (Suc j) st) (\<lambda>ids. Inr (tid # ids)))"

definition join_all :: "main_state \<Rightarrow> u64 list result" where
  "join_all st = join_loop (unat (ctr st) - 1) 1 st"

definition main_start :: "create_calls \<Rightarrow> main_state" where
  "main_start c =
     \<lparr>ctr = 1, thread_id_list = replicate THREAD_MAX None, sigTermFlag = False, sigIntFlag = False,
      sigThreadTerminateFlag = False, ipServer = snd (create c (server_port [57, 48, 48, 48, 0]))\<rparr>"

subsection \<open>Invariant\<close>

text \<open>The counter is one ahead of the number of threads, and the list has their identifiers.\<close>

definition main_inv :: "main_state \<Rightarrow> bool" where
  "main_inv st \<longleftrightarrow>
     server_inv (ipServer st) \<and> length (thread_id_list st) = THREAD_MAX \<and>
     unat (ctr st) = Suc (numOfThreads (ipServer st)) \<and> unat (ctr st) \<le> THREAD_MAX \<and>
     (\<forall>j < numOfThreads (ipServer st).
        case thread_id_list st ! Suc j of
          None \<Rightarrow> False | Some tid \<Rightarrow> getThreadId j (ipServer st) = Inr tid)"

text \<open>Working calls: an allocator that returns unused addresses, and a thread that is created.\<close>

definition calls_ok :: "main_state \<Rightarrow> round_calls \<Rightarrow> bool" where
  "calls_ok st c \<longleftrightarrow>
     r_args c \<noteq> NULL \<and> r_msg c \<noteq> NULL \<and> args_mem (ipServer st) (r_args c) = None \<and>
     msg_mem (ipServer st) (r_msg c) = None \<and> fst (r_create c) = 0"

definition good_create :: create_calls where
  "good_create = \<lparr>c_getaddrinfo = (0, stream_hints), c_socket = (\<lambda>_. 3), c_reuseaddr = 0,
     c_reuseport = 0, c_bind = 0, c_listen = 0\<rparr>"

definition one_call :: round_calls where
  "one_call = \<lparr>r_accept = 5, r_args = 64, r_msg = 128, r_create = (0, 7), r_ntop = (\<lambda>_ _ b. b)\<rparr>"

lemma main_start_inv: "main_inv (main_start c)" "sigTermFlag (main_start c) = False" "sigIntFlag (main_start c) = False"
proof -
  have "numOfThreads (snd (create c (server_port p))) = 0 \<and> server_inv (snd (create c (server_port p)))" for p
    by (auto simp: create_def server_port_def new_server_def server_inv_def slot_addrs_def slot_bufs_def Let_def)
  then show "main_inv (main_start c)" by (simp add: main_inv_def main_start_def THREAD_MAX_def)
qed (simp_all add: main_start_def)

lemma getThreadId_frame:
  assumes inv: "server_inv s" and j: "j < numOfThreads s"
    and s': "slot_addrs s' = slot_addrs s @ [m]" "server_inv s'" "numOfThreads s' = Suc (numOfThreads s)"
    and mem: "\<forall>a \<in> set (slot_addrs s). args_mem s' a = args_mem s a"
  shows "getThreadId j s' = getThreadId j s"
proof -
  from inv j obtain a t where a: "slot_addrs s ! j = a" "a \<in> set (slot_addrs s)" "args_mem s a = Some t" "load_args s j = Inr t"
    by (rule server_inv_slot)
  have "j < numOfThreads s'" using j s'(3) by simp
  with s'(2) obtain b u where b: "slot_addrs s' ! j = b" "args_mem s' b = Some u" "load_args s' j = Inr u"
    by (rule server_inv_slot)
  have "length (slot_addrs s) = numOfThreads s" using inv by (simp add: server_inv_def slot_addrs_def)
  with a(1) b(1) s'(1) j have "a = b" by (simp add: nth_append)
  with a b mem show ?thesis by (simp add: getThreadId_def)
qed

lemma main_round_accept:
  assumes inv: "main_inv st" and ok: "calls_ok st c" and sig: "\<not> sigTermFlag st" "\<not> sigIntFlag st"
    and acc: "0 < sint (r_accept c)" and room: "unat (ctr st) < 100" and res: "resInfo (ipServer st) \<noteq> None"
  shows "\<exists>st'. main_round mutex c st = Inr (Continue, st') \<and> main_inv st' \<and> ctr st' = ctr st + 1 \<and>
     numOfThreads (ipServer st') = Suc (numOfThreads (ipServer st)) \<and>
     thread_id_list st' = (thread_id_list st)[unat (ctr st) := Some (snd (r_create c))]"
proof -
  let ?s = "ipServer st" and ?n = "numOfThreads (ipServer st)" and ?tid = "snd (r_create c)"
  from inv have si: "server_inv ?s" and len: "length (thread_id_list st) = THREAD_MAX"
    and ct: "unat (ctr st) = Suc ?n"
    and ids: "\<forall>j < ?n. case thread_id_list st ! Suc j of None \<Rightarrow> False | Some tid \<Rightarrow> getThreadId j ?s = Inr tid"
    by (auto simp: main_inv_def)
  have n: "?n < THREAD_MAX" using ct room by (simp add: THREAD_MAX_def)
  from ok have m: "r_args c \<noteq> NULL" "r_msg c \<noteq> NULL" "args_mem ?s (r_args c) = None" "msg_mem ?s (r_msg c) = None"
    and cr: "r_create c = (0, ?tid)" by (auto simp: calls_ok_def prod_eq_iff)
  from initServerThread_ok [OF si n m, of ?tid "r_accept c" "of_nat SERVER_MSG_LEN" mutex] obtain s' where
    s': "initServerThread (r_args c) (r_msg c) (r_create c) (r_accept c) (of_nat SERVER_MSG_LEN) mutex ?s = Inr (?tid, s')"
      "server_inv s'" "numOfThreads s' = Suc ?n" "slot_addrs s' = slot_addrs ?s @ [r_args c]"
      "resInfo s' = resInfo ?s" "\<forall>a. a \<noteq> r_args c \<longrightarrow> args_mem s' a = args_mem ?s a"
      "getThreadId ?n s' = Inr ?tid"
    using cr by (auto simp: getThreadId_def load_threadId_def)
  have "r_args c \<notin> set (slot_addrs ?s)" using si m(3) by (auto simp: server_inv_def)
  with s'(6) have "\<forall>a \<in> set (slot_addrs ?s). args_mem s' a = args_mem ?s a" by metis
  then have fr: "getThreadId j s' = getThreadId j ?s" if "j < ?n" for j
    by (rule getThreadId_frame [OF si that s'(4,2,3)])
  have "is_ok (getIpAddr (r_ntop c) (replicate 20 0) s')" using res s'(5) by (auto simp: getIpAddr_def)
  then obtain ip where ip: "getIpAddr (r_ntop c) (replicate 20 0) s' = Inr ip" by (auto simp: is_ok_iff)
  have lt: "ctr st < 100" using room by (simp add: word_less_nat_alt)
  let ?st = "st\<lparr>ipServer := s', thread_id_list := (thread_id_list st)[unat (ctr st) := Some ?tid], ctr := ctr st + 1\<rparr>"
  have run: "main_round mutex c st = Inr (Continue, ?st)"
    using sig lt acc room ct len s'(1,7) ip
    by (simp add: main_round_def newClientSocket_def THREAD_MAX_def)
  have "unat (ctr st + 1) = Suc (unat (ctr st))" using lt by (rule unat_inc)
  moreover have "case (thread_id_list st)[unat (ctr st) := Some ?tid] ! Suc j of
      None \<Rightarrow> False | Some tid \<Rightarrow> getThreadId j s' = Inr tid" if "j < Suc ?n" for j
  proof (cases "j = ?n")
    case True
    with s'(7) ct room len show ?thesis by (simp add: THREAD_MAX_def)
  next
    case False
    with that have j: "j < ?n" by simp
    from ids [rule_format, OF j] fr [OF j] False ct show ?thesis by (auto split: option.splits)
  qed
  ultimately have "main_inv ?st" using s'(2,3) ct room len by (simp add: main_inv_def THREAD_MAX_def cong: option.case_cong)
  with run s'(3) show ?thesis by auto
qed

lemma signal_handler_frame [simp]:
  "ctr (signal_handler n st) = ctr st" "thread_id_list (signal_handler n st) = thread_id_list st"
  "ipServer (signal_handler n st) = ipServer st"
  by (simp_all add: signal_handler_def Let_def)

lemma main_round_break:
  assumes "sigTermFlag st \<or> sigIntFlag st"
  shows "\<exists>st'. main_round mutex c st = Inr (Break, st') \<and> sigThreadTerminateFlag st' \<and> ctr st' = ctr st \<and>
     thread_id_list st' = thread_id_list st \<and> ipServer st' = ipServer st"
  using assms by (auto simp: main_round_def)

lemma join_loop_ids:
  assumes "\<forall>k < n. j + k < length (thread_id_list st) \<and> thread_id_list st ! (j + k) \<noteq> None"
  shows "join_loop n j st = Inr (map (\<lambda>k. the (thread_id_list st ! (j + k))) [0 ..< n])"
  using assms
proof (induction n arbitrary: j)
  case (Suc n)
  from Suc.prems obtain tid where "j < length (thread_id_list st)" "thread_id_list st ! j = Some tid"
    by (auto dest: spec [of _ 0])
  moreover have "join_loop n (Suc j) st = Inr (map (\<lambda>k. the (thread_id_list st ! (Suc j + k))) [0 ..< n])"
    using Suc.prems by (intro Suc.IH) (auto dest: spec [of _ "Suc k" for k])
  moreover have "[0 ..< Suc n] = 0 # map Suc [0 ..< n]" by (simp add: map_Suc_upt upt_conv_Cons)
  ultimately show ?case by (simp del: upt_Suc add: o_def)
qed simp

subsection \<open>Properties\<close>

text \<open>The first client of a fresh server.\<close>

lemma first_round:
  "calls_ok (main_start good_create) one_call" "unat (ctr (main_start good_create)) < 100"
  "resInfo (ipServer (main_start good_create)) \<noteq> None" "numOfThreads (ipServer (main_start good_create)) = 0"
  "0 < sint (r_accept one_call)"
proof -
  let ?m = "main_start good_create"
  have s: "ipServer ?m = (server_port [57, 48, 48, 48, 0])\<lparr>resInfo := Some stream_hints, isAllocated := True, sockfd := 3\<rparr>"
    by (simp add: main_start_def create_def good_create_def Let_def)
  then show "calls_ok ?m one_call" "resInfo (ipServer ?m) \<noteq> None" "numOfThreads (ipServer ?m) = 0"
    by (simp_all add: calls_ok_def one_call_def server_port_def new_server_def)
  show "unat (ctr ?m) < 100" "0 < sint (r_accept one_call)" by (simp_all add: main_start_def one_call_def)
qed

lemma first_client:
  "\<exists>st. main_round 8 one_call (main_start good_create) = Inr (Continue, st) \<and> main_inv st \<and>
     numOfThreads (ipServer st) = 1 \<and> thread_id_list st ! 1 = Some (snd (r_create one_call))"
proof -
  have l: "ctr (main_start good_create) = 1" "1 < length (thread_id_list (main_start good_create))"
    by (simp_all add: main_start_def THREAD_MAX_def)
  from main_round_accept [OF main_start_inv(1) first_round(1) _ _ first_round(5,2,3), of 8] l first_round(4) main_start_inv(2,3)
  show ?thesis by auto
qed

text \<open>
  C23. Accepting: from a state that satisfies the invariant, while no signal came and fewer than
  99 clients were accepted, a round whose accept, allocations and thread creation succeed does not
  fault, registers one more thread, stores its identifier at the counter and keeps the invariant.
  A round whose accept fails changes nothing.
\<close>

theorem main_accepts:
  assumes "main_inv st" and "calls_ok st c" and "\<not> sigTermFlag st" and "\<not> sigIntFlag st"
    and "unat (ctr st) < 100" and "resInfo (ipServer st) \<noteq> None"
  shows "if 0 < sint (r_accept c) then
           \<exists>st'. main_round mutex c st = Inr (Continue, st') \<and> main_inv st' \<and>
             numOfThreads (ipServer st') = Suc (numOfThreads (ipServer st)) \<and>
             thread_id_list st' = (thread_id_list st)[unat (ctr st) := Some (snd (r_create c))]
         else main_round mutex c st = Inr (Continue, st)"
proof (cases "0 < sint (r_accept c)")
  case True
  with main_round_accept [OF assms(1-4) True assms(5,6)] show ?thesis by auto
next
  case False
  with assms show ?thesis by (simp add: main_round_def newClientSocket_def)
qed

theorem main_accepts_witness:
  "\<exists>st'. main_round 8 one_call (main_start good_create) = Inr (Continue, st') \<and>
     numOfThreads (ipServer st') = 1 \<and> main_inv st'"
  using main_accepts [OF main_start_inv(1) first_round(1) _ _ first_round(2,3), of 8] main_start_inv(2,3) first_round(4,5)
  by auto

text \<open>
  The loop saturates: once the counter has reached 100, which is after 99 clients, a round without a
  signal accepts nothing and changes nothing, whatever the calls would return. The counter never goes
  down, so the server never accepts a client again and spins.
\<close>

lemma main_saturates:
  assumes "ctr st \<ge> 100" and "\<not> sigTermFlag st" and "\<not> sigIntFlag st"
  shows "main_round mutex c st = Inr (Continue, st)"
  using assms by (simp add: main_round_def not_less [symmetric])

text \<open>
  A failed thread creation is not handled: \<open>main\<close> ignores the result of \<open>initServerThread\<close> and
  reads the identifier of the slot, which was never stored.
\<close>

lemma main_create_failure:
  assumes "main_inv st" and "r_args c \<noteq> NULL" and "r_msg c \<noteq> NULL" and "fst (r_create c) \<noteq> 0"
    and "\<not> sigTermFlag st" and "\<not> sigIntFlag st" and "0 < sint (r_accept c)" and "unat (ctr st) < 100"
  shows "main_round mutex c st = Inl UninitRead"
proof -
  let ?s = "ipServer st" and ?n = "numOfThreads (ipServer st)"
  from assms(1) have n: "?n < length (pThreadArgs ?s)" "length (pThreadArgs ?s) = THREAD_MAX" "unat (ctr st) = Suc ?n"
    using assms(8) by (auto simp: main_inv_def server_inv_def THREAD_MAX_def)
  moreover have "ctr st < 100" using assms(8) by (simp add: word_less_nat_alt)
  ultimately show ?thesis
    using assms by (simp add: main_round_def newClientSocket_def initServerThread_def alloc_thread_args_def Let_def getThreadId_def
        load_args_def load_threadId_def THREAD_MAX_def)
qed

text \<open>
  C24. Stopping: after \<open>SIGTERM\<close> or \<open>SIGINT\<close> was handled the next round leaves the loop with the
  threads told to end, and the joining then passes exactly the identifiers of all registered threads
  to \<open>pthread_join\<close>, in the order of their slots, without a fault.
\<close>

theorem main_stops_and_joins:
  assumes "main_inv st" and "signalNo = SIGTERM \<or> signalNo = SIGINT"
  shows "\<exists>st' ids. main_round mutex c (signal_handler signalNo st) = Inr (Break, st') \<and>
           sigThreadTerminateFlag st' \<and> join_all st' = Inr ids \<and>
           map Inr ids = map (\<lambda>j. getThreadId j (ipServer st')) [0 ..< numOfThreads (ipServer st')]"
proof -
  let ?n = "numOfThreads (ipServer st)"
  have "sigTermFlag (signal_handler signalNo st) \<or> sigIntFlag (signal_handler signalNo st)"
    using assms(2) by (auto simp: signal_handler_def Let_def)
  from main_round_break [OF this] obtain st' where
    st': "main_round mutex c (signal_handler signalNo st) = Inr (Break, st')"
      "sigThreadTerminateFlag st'" "ctr st' = ctr st" "thread_id_list st' = thread_id_list st" "ipServer st' = ipServer st"
    by auto
  have ct: "unat (ctr st) = Suc ?n" and id: "getThreadId j (ipServer st) = Inr (the (thread_id_list st ! Suc j))"
    "thread_id_list st ! Suc j \<noteq> None" "Suc j < length (thread_id_list st)" if "j < ?n" for j
    using assms(1) that by (auto simp: main_inv_def split: option.splits)
  have "join_loop ?n 1 st' = Inr (map (\<lambda>k. the (thread_id_list st' ! (1 + k))) [0 ..< ?n])"
    by (rule join_loop_ids) (use id st'(4) in auto)
  moreover have "unat (ctr st') - 1 = ?n" using st'(3) assms(1) by (simp add: main_inv_def)
  ultimately have "join_all st' = Inr (map (\<lambda>k. the (thread_id_list st ! Suc k)) [0 ..< ?n])"
    using st'(4) by (simp add: join_all_def)
  with st' id(1) show ?thesis by (intro exI [of _ st'] exI) (auto simp: o_def)
qed

theorem main_stops_and_joins_witness:
  "\<exists>st st'. main_round 8 one_call (main_start good_create) = Inr (Continue, st) \<and>
     main_round 8 one_call (signal_handler SIGTERM st) = Inr (Break, st') \<and>
     join_all st' = Inr [snd (r_create one_call)]"
proof -
  obtain st where st: "main_round 8 one_call (main_start good_create) = Inr (Continue, st)" "main_inv st"
    "numOfThreads (ipServer st) = 1" "thread_id_list st ! 1 = Some (snd (r_create one_call))"
    using first_client by blast
  have "sigTermFlag (signal_handler SIGTERM st) \<or> sigIntFlag (signal_handler SIGTERM st)"
    by (simp add: signal_handler_def Let_def)
  from main_round_break [OF this, of 8 one_call] obtain st' where
    st': "main_round 8 one_call (signal_handler SIGTERM st) = Inr (Break, st')" "ipServer st' = ipServer st"
    by auto
  have "getThreadId 0 (ipServer st) = Inr (snd (r_create one_call))"
    using st(2-4) by (auto simp: main_inv_def split: option.splits)
  with main_stops_and_joins [OF st(2), where signalNo = SIGTERM and mutex = 8 and c = one_call] st st'
  show ?thesis by (intro exI [of _ st] exI [of _ st']) auto
qed

end
