(* ===== verification/Linked_List.thy ===== *)
theory Linked_List
  imports Aesd_Prelude
begin

section \<open>The list of connections\<close>

text \<open>
  Models the class \<open>linkedList\<close> of \<^verbatim>\<open>server/queue.h\<close>: a singly linked list of heap nodes behind
  the member \<open>head\<close>. The state is the member and the nodes by address. A method that walks the list
  is a \<open>partial_function\<close>: \<open>None\<close> is a walk that never ends, which the theorems exclude for every
  well-formed list. \<open>malloc\<close> is a parameter of each call: the address and the contents of the new
  node, \<open>None\<close> for a null pointer.

  \<open>addItem\<close> and one path of \<open>removeItem\<close> reach the closing brace of a function that returns a
  value. Their statements are modelled by \<open>addItem_body\<close> and \<open>removeItem_body\<close>; the methods
  themselves turn the missing return into the fault \<open>MissingReturn\<close>.
\<close>

record node =
  threadID :: u64
  commSocketPortNo :: s32
  nxt :: addr

type_synonym nodes = "addr \<rightharpoonup> node"

record linkedList =
  head :: addr
  store :: nodes

definition load_node :: "nodes \<Rightarrow> addr \<Rightarrow> node result" where
  "load_node h p =
     (if p = NULL then Inl NullDeref else case h p of None \<Rightarrow> Inl UseAfterFree | Some n \<Rightarrow> Inr n)"

definition store_node :: "nodes \<Rightarrow> addr \<Rightarrow> node \<Rightarrow> nodes result" where
  "store_node h p n = res_bind (load_node h p) (\<lambda>_. Inr (h(p \<mapsto> n)))"

definition free_node :: "nodes \<Rightarrow> addr \<Rightarrow> nodes result" where
  "free_node h p = (if p = NULL then Inr h else if h p = None then Inl InvalidFree else Inr (h(p := None)))"

subsection \<open>Construction and destruction\<close>

definition linkedList_default :: "nodes \<Rightarrow> linkedList" where
  "linkedList_default h = \<lparr>head = NULL, store = h\<rparr>"

definition linkedList_one :: "(addr \<times> node) option \<Rightarrow> u64 \<Rightarrow> s32 \<Rightarrow> nodes \<Rightarrow> linkedList result" where
  "linkedList_one malloc tid port h =
     (case malloc of
        None \<Rightarrow> Inl Terminate
      | Some (item, junk) \<Rightarrow>
          Inr \<lparr>head = item, store = h(item \<mapsto> \<lparr>threadID = tid, commSocketPortNo = port, nxt = NULL\<rparr>)\<rparr>)"

partial_function (option) delete_loop :: "linkedList \<Rightarrow> linkedList result option" where
  "delete_loop l =
     (if head l = NULL then Some (Inr l)
      else case load_node (store l) (head l) of
             Inl f \<Rightarrow> Some (Inl f)
           | Inr n \<Rightarrow>
               (case free_node (store l) (head l) of
                  Inl f \<Rightarrow> Some (Inl f)
                | Inr h \<Rightarrow> delete_loop \<lparr>head = nxt n, store = h\<rparr>))"

definition linkedList_destroy :: "linkedList \<Rightarrow> linkedList result option" where
  "linkedList_destroy l = (if head l \<noteq> NULL then delete_loop l else Some (Inr l))"

subsection \<open>Adding\<close>

text \<open>The walk of \<open>addItem\<close> to the last node.\<close>

partial_function (option) last_node :: "nodes \<Rightarrow> addr \<Rightarrow> addr result option" where
  "last_node h p =
     (case load_node h p of
        Inl f \<Rightarrow> Some (Inl f)
      | Inr n \<Rightarrow> if nxt n = NULL then Some (Inr p) else last_node h (nxt n))"

definition append_node :: "(addr \<times> node) option \<Rightarrow> u64 \<Rightarrow> s32 \<Rightarrow> addr \<Rightarrow> nodes \<Rightarrow> nodes result" where
  "append_node malloc tid port lst h =
     (let (p, h) = (case malloc of None \<Rightarrow> (NULL, h) | Some (a, junk) \<Rightarrow> (a, h(a \<mapsto> junk))) in
      res_bind (load_node h lst) (\<lambda>n.
      res_bind (store_node h lst (n\<lparr>nxt := p\<rparr>)) (\<lambda>h.
      store_node h p \<lparr>threadID = tid, commSocketPortNo = port, nxt = NULL\<rparr>)))"

definition addItem_body ::
    "(addr \<times> node) option \<Rightarrow> u64 \<Rightarrow> s32 \<Rightarrow> linkedList \<Rightarrow> linkedList result option" where
  "addItem_body malloc tid port l =
     (if head l \<noteq> NULL then
        (case last_node (store l) (head l) of
           None \<Rightarrow> None
         | Some r \<Rightarrow> Some (res_bind r (\<lambda>lst.
             res_bind (append_node malloc tid port lst (store l)) (\<lambda>h. Inr (l\<lparr>store := h\<rparr>)))))
      else Some (linkedList_one malloc tid port (store l)))"

definition addItem ::
    "(addr \<times> node) option \<Rightarrow> u64 \<Rightarrow> s32 \<Rightarrow> linkedList \<Rightarrow> (u8 \<times> linkedList) result option" where
  "addItem malloc tid port l =
     map_option (\<lambda>r. res_bind r (\<lambda>_. Inl MissingReturn)) (addItem_body malloc tid port l)"

subsection \<open>Removing\<close>

text \<open>The walk of \<open>removeItem\<close>, which moves the member \<open>head\<close> itself; -1 is \<open>- 1\<close> in 8 bits.\<close>

partial_function (option) remove_loop ::
    "s32 \<Rightarrow> addr \<Rightarrow> addr \<Rightarrow> linkedList \<Rightarrow> (u8 \<times> linkedList) result option" where
  "remove_loop port initialhead prevItem l =
     (if head l = NULL then Some (Inr (- 1, l))
      else case load_node (store l) (head l) of
             Inl f \<Rightarrow> Some (Inl f)
           | Inr n \<Rightarrow>
               if commSocketPortNo n = port then
                 Some (res_bind (load_node (store l) prevItem) (\<lambda>pn.
                       res_bind (store_node (store l) prevItem (pn\<lparr>nxt := nxt n\<rparr>)) (\<lambda>h.
                       res_bind (free_node h (head l)) (\<lambda>h.
                       Inr (0, \<lparr>head = initialhead, store = h\<rparr>)))))
               else remove_loop port initialhead (head l) (l\<lparr>head := nxt n\<rparr>))"

text \<open>The status is \<open>None\<close> where the closing brace is reached without a return.\<close>

definition removeItem_body :: "s32 \<Rightarrow> linkedList \<Rightarrow> (u8 option \<times> linkedList) result option" where
  "removeItem_body port l =
     (let initialhead = head l in
      case load_node (store l) initialhead of
        Inl f \<Rightarrow> Some (Inl f)
      | Inr n \<Rightarrow>
          if commSocketPortNo n = port then
            Some (res_bind (free_node (store l) initialhead) (\<lambda>h.
                  Inr (None, \<lparr>head = nxt n, store = h\<rparr>)))
          else map_option (\<lambda>r. res_bind r (\<lambda>(s, l). Inr (Some s, l)))
                 (remove_loop port initialhead initialhead l))"

definition removeItem :: "s32 \<Rightarrow> linkedList \<Rightarrow> (u8 \<times> linkedList) result option" where
  "removeItem port l =
     map_option (\<lambda>r. res_bind r (\<lambda>(s, l).
        case s of None \<Rightarrow> Inl MissingReturn | Some v \<Rightarrow> Inr (v, l))) (removeItem_body port l)"

subsection \<open>Counting and searching\<close>

partial_function (option) count_loop :: "nodes \<Rightarrow> addr \<Rightarrow> s32 \<Rightarrow> s32 result option" where
  "count_loop h item itemCount =
     (if item = NULL then Some (Inr itemCount)
      else case load_node h item of
             Inl f \<Rightarrow> Some (Inl f)
           | Inr n \<Rightarrow> count_loop h (nxt n) (itemCount + 1))"

definition countItems :: "linkedList \<Rightarrow> s32 result option" where
  "countItems l = count_loop (store l) (head l) 0"

partial_function (option) get_loop :: "nodes \<Rightarrow> s32 \<Rightarrow> addr \<Rightarrow> addr result option" where
  "get_loop h port item =
     (if item = NULL then Some (Inr item)
      else case load_node h item of
             Inl f \<Rightarrow> Some (Inl f)
           | Inr n \<Rightarrow> if commSocketPortNo n = port then Some (Inr item) else get_loop h port (nxt n))"

definition getItem :: "s32 \<Rightarrow> linkedList \<Rightarrow> addr result option" where
  "getItem port l = get_loop (store l) port (head l)"

subsection \<open>The list a state stands for\<close>

text \<open>Address, thread and port of each node, in order, for a null-terminated chain.\<close>

type_synonym item = "addr \<times> u64 \<times> s32"

fun chain :: "nodes \<Rightarrow> addr \<Rightarrow> item list \<Rightarrow> bool" where
  "chain h p [] = (p = NULL)"
| "chain h p ((a, t, c) # xs) =
     (p = a \<and> a \<noteq> NULL \<and>
      (case h a of None \<Rightarrow> False
       | Some n \<Rightarrow> threadID n = t \<and> commSocketPortNo n = c \<and> chain h (nxt n) xs))"

abbreviation port_of :: "item \<Rightarrow> s32" where
  "port_of x \<equiv> snd (snd x)"

definition represents :: "linkedList \<Rightarrow> item list \<Rightarrow> bool" where
  "represents l xs \<longleftrightarrow> chain (store l) (head l) xs"

text \<open>Address of the first item with the port, null if there is none; the list without it.\<close>

primrec first_addr :: "s32 \<Rightarrow> item list \<Rightarrow> addr" where
  "first_addr port [] = NULL"
| "first_addr port (x # xs) = (if port_of x = port then fst x else first_addr port xs)"

primrec remove_first :: "s32 \<Rightarrow> item list \<Rightarrow> item list" where
  "remove_first port [] = []"
| "remove_first port (x # xs) = (if port_of x = port then xs else x # remove_first port xs)"

text \<open>Three connections on ports 5, 7 and 9.\<close>

definition sample_list :: linkedList where
  "sample_list = \<lparr>head = 100, store =
     [100 \<mapsto> \<lparr>threadID = 1, commSocketPortNo = 5, nxt = 200\<rparr>,
      200 \<mapsto> \<lparr>threadID = 2, commSocketPortNo = 7, nxt = 300\<rparr>,
      300 \<mapsto> \<lparr>threadID = 3, commSocketPortNo = 9, nxt = 0\<rparr>]\<rparr>"

definition sample_items :: "item list" where
  "sample_items = [(100, 1, 5), (200, 2, 7), (300, 3, 9)]"

subsection \<open>Chains\<close>

lemma chain_Cons:
  assumes "chain h p (x # xs)"
  obtains n where "p = fst x" "p \<noteq> NULL" "h p = Some n" "load_node h p = Inr n"
    "commSocketPortNo n = port_of x" "threadID n = fst (snd x)" "chain h (nxt n) xs"
  using assms by (cases x) (auto simp: load_node_def split: option.splits)

lemma chain_NULL [simp]: "chain h 0 xs \<longleftrightarrow> xs = []"
  by (cases xs) auto

lemma chain_unique: "chain h p xs \<Longrightarrow> chain h p ys \<Longrightarrow> xs = ys"
proof (induction xs arbitrary: p ys)
  case (Cons x xs)
  then show ?case by (cases ys; cases x; cases "hd ys") (auto split: option.splits)
qed simp

lemma chain_suffix: "chain h p (xs @ (a, y) # ys) \<Longrightarrow> chain h a ((a, y) # ys)"
proof (induction xs arbitrary: p)
  case (Cons x xs)
  then show ?case by (cases x) (auto simp del: chain.simps(1) split: option.splits)
qed (cases y, auto)

lemma chain_distinct: "chain h p xs \<Longrightarrow> distinct (map fst xs)"
proof (induction xs arbitrary: p)
  case (Cons x xs)
  obtain a t c where x: "x = (a, t, c)" by (cases x) auto
  from Cons.prems x obtain q where ch: "chain h q xs" and p: "p = a"
    by (auto split: option.splits)
  have "a \<notin> fst ` set xs"
  proof
    assume "a \<in> fst ` set xs"
    then obtain y where "(a, y) \<in> set xs" by auto
    then obtain us vs where xs: "xs = us @ (a, y) # vs" by (meson split_list)
    with ch have "chain h a ((a, y) # vs)" by (auto intro: chain_suffix)
    with Cons.prems have "x # xs = (a, y) # vs" unfolding p by (rule chain_unique)
    with xs show False by simp
  qed
  with Cons.IH [OF ch] x show ?case by simp
qed simp

lemma chain_frame:
  "chain h p xs \<Longrightarrow> \<forall>x \<in> set xs. h' (fst x) = h (fst x) \<Longrightarrow> chain h' p xs"
  by (induction xs arbitrary: p) (auto split: option.splits)

lemma chain_allocated: "chain h p xs \<Longrightarrow> x \<in> set xs \<Longrightarrow> fst x \<noteq> NULL \<and> h (fst x) \<noteq> None"
  by (induction xs arbitrary: p) (auto split: option.splits)

lemma chain_upd_other: "chain h p xs \<Longrightarrow> \<forall>x \<in> set xs. fst x \<noteq> a \<Longrightarrow> chain (h(a := v)) p xs"
  by (rule chain_frame) auto

text \<open>Redirecting one node's link: what comes after it is replaced.\<close>

lemma chain_relink:
  assumes "chain h p (us @ x # rest)" and "h (fst x) = Some n" and "h' (fst x) = Some (n\<lparr>nxt := q\<rparr>)"
    and "chain h' q zs" and "\<forall>u \<in> set us. h' (fst u) = h (fst u)"
  shows "chain h' p (us @ x # zs)"
  using assms
proof (induction us arbitrary: p)
  case Nil
  then show ?case by (cases x) auto
next
  case (Cons u us)
  then show ?case by (cases u) (auto split: option.splits)
qed

subsection \<open>The walks\<close>

lemma count_loop_chain:
  "chain h p xs \<Longrightarrow> count_loop h p c = Some (Inr (c + of_nat (length xs)))"
proof (induction xs arbitrary: p c)
  case Nil
  then show ?case by (subst count_loop.simps) simp
next
  case (Cons x xs)
  from Cons.prems obtain n where "p \<noteq> NULL" "load_node h p = Inr n" "chain h (nxt n) xs"
    by (rule chain_Cons)
  with Cons.IH show ?case by (subst count_loop.simps) (simp add: add.assoc)
qed

lemma get_loop_chain: "chain h p xs \<Longrightarrow> get_loop h port p = Some (Inr (first_addr port xs))"
proof (induction xs arbitrary: p)
  case Nil
  then show ?case by (subst get_loop.simps) simp
next
  case (Cons x xs)
  from Cons.prems obtain n where "p = fst x" "p \<noteq> NULL" "load_node h p = Inr n" "chain h (nxt n) xs"
    "commSocketPortNo n = port_of x" by (rule chain_Cons)
  with Cons.IH show ?case by (subst get_loop.simps) simp
qed

lemma last_node_chain:
  "chain h p xs \<Longrightarrow> xs \<noteq> [] \<Longrightarrow> last_node h p = Some (Inr (fst (last xs)))"
proof (induction xs arbitrary: p)
  case (Cons x xs)
  from Cons.prems(1) obtain n where "p = fst x" "load_node h p = Inr n" "chain h (nxt n) xs"
    by (rule chain_Cons)
  with Cons.IH show ?case by (subst last_node.simps) (cases xs; auto)
qed simp

lemma delete_loop_chain:
  "chain h p xs \<Longrightarrow>
     delete_loop \<lparr>head = p, store = h\<rparr> = Some (Inr \<lparr>head = NULL, store = h |` (- fst ` set xs)\<rparr>)"
proof (induction xs arbitrary: h p)
  case Nil
  then show ?case by (subst delete_loop.simps) (simp add: restrict_map_def)
next
  case (Cons x xs)
  from Cons.prems obtain n where n: "p = fst x" "p \<noteq> NULL" "h p = Some n" "load_node h p = Inr n"
    "chain h (nxt n) xs" by (rule chain_Cons)
  from chain_distinct [OF Cons.prems] n(1) have "\<forall>y \<in> set xs. fst y \<noteq> p" by (auto simp: image_iff)
  with n(5) have "chain (h(p := None)) (nxt n) xs" by (rule chain_upd_other)
  then have "delete_loop \<lparr>head = nxt n, store = h(p := None)\<rparr> =
      Some (Inr \<lparr>head = NULL, store = h(p := None) |` (- fst ` set xs)\<rparr>)" by (rule Cons.IH)
  moreover have "h(p := None) |` (- fst ` set xs) = h |` (- fst ` set (x # xs))"
    unfolding n(1) by (auto simp: restrict_map_def)
  ultimately have "delete_loop \<lparr>head = nxt n, store = h(p := None)\<rparr> =
      Some (Inr \<lparr>head = NULL, store = h |` (- fst ` set (x # xs))\<rparr>)" by (simp only:)
  with n show ?case by (subst delete_loop.simps) (simp add: free_node_def)
qed

lemma remove_loop_absent:
  "chain h p xs \<Longrightarrow> \<forall>x \<in> set xs. port_of x \<noteq> port \<Longrightarrow>
     remove_loop port ih prev \<lparr>head = p, store = h\<rparr> = Some (Inr (- 1, \<lparr>head = NULL, store = h\<rparr>))"
proof (induction xs arbitrary: p prev)
  case Nil
  then show ?case by (subst remove_loop.simps) simp
next
  case (Cons x xs)
  from Cons.prems(1) obtain n where "p \<noteq> NULL" "load_node h p = Inr n" "chain h (nxt n) xs"
    "commSocketPortNo n = port_of x" by (rule chain_Cons)
  with Cons.IH Cons.prems(2) show ?case by (subst remove_loop.simps) simp
qed

lemma remove_loop_present:
  assumes "chain h ih (us @ pv # xs)" and "chain h p xs" and "\<exists>x \<in> set xs. port_of x = port"
  shows "\<exists>h'. remove_loop port ih (fst pv) \<lparr>head = p, store = h\<rparr> = Some (Inr (0, \<lparr>head = ih, store = h'\<rparr>)) \<and>
     chain h' ih (us @ pv # remove_first port xs) \<and> dom h' = dom h - {first_addr port xs}"
  using assms
proof (induction xs arbitrary: us pv p)
  case (Cons x xs)
  from Cons.prems(2) obtain n where n: "p = fst x" "p \<noteq> NULL" "h p = Some n" "load_node h p = Inr n"
    "chain h (nxt n) xs" "commSocketPortNo n = port_of x" by (rule chain_Cons)
  show ?case
  proof (cases "port_of x = port")
    case False
    have "chain h ih ((us @ [pv]) @ x # xs)" using Cons.prems(1) by simp
    from Cons.IH [OF this n(5)] Cons.prems(3) False n show ?thesis
      by (subst remove_loop.simps) auto
  next
    case True
    from chain_allocated [OF Cons.prems(1), of pv] obtain m where m: "fst pv \<noteq> NULL" "h (fst pv) = Some m"
      by auto
    let ?h = "h(fst pv \<mapsto> m\<lparr>nxt := nxt n\<rparr>, p := None)"
    from chain_distinct [OF Cons.prems(1)] n(1)
    have d: "fst pv \<noteq> p" "\<forall>u \<in> set us. fst u \<noteq> fst pv \<and> fst u \<noteq> p"
      "\<forall>y \<in> set xs. fst y \<noteq> fst pv \<and> fst y \<noteq> p"
      by (auto simp: image_iff)
    have tail: "chain ?h (nxt n) xs" using d(3) by (intro chain_frame [OF n(5)]) simp
    have "chain ?h ih (us @ pv # xs)"
      by (rule chain_relink [OF Cons.prems(1) m(2) _ tail]) (use d in simp_all)
    moreover have "remove_loop port ih (fst pv) \<lparr>head = p, store = h\<rparr> =
        Some (Inr (0, \<lparr>head = ih, store = ?h\<rparr>))"
      using True n m d by (subst remove_loop.simps) (simp add: load_node_def store_node_def free_node_def)
    ultimately show ?thesis using True n(1) m(2) by auto
  qed
qed simp

lemma append_node_chain:
  assumes ch: "chain h p (us @ [x])" and new: "h a = None" "a \<noteq> NULL"
  shows "\<exists>h'. append_node (Some (a, junk)) t c (fst x) h = Inr h' \<and> chain h' p (us @ [x, (a, t, c)]) \<and>
     dom h' = insert a (dom h)"
proof -
  from chain_allocated [OF ch, of x] obtain n where n: "fst x \<noteq> NULL" "h (fst x) = Some n" by auto
  from n(2) new have ne: "fst x \<noteq> a" by auto
  let ?h = "h(a \<mapsto> junk, fst x \<mapsto> n\<lparr>nxt := a\<rparr>, a \<mapsto> \<lparr>threadID = t, commSocketPortNo = c, nxt = NULL\<rparr>)"
  have fresh: "\<forall>u \<in> set us. fst u \<noteq> a" using chain_allocated [OF ch] new(1) by fastforce
  moreover have "\<forall>u \<in> set us. fst u \<noteq> fst x" using chain_distinct [OF ch] by (auto simp: image_iff)
  moreover have tail: "chain ?h a [(a, t, c)]" using new(2) by simp
  ultimately have "chain ?h p (us @ x # [(a, t, c)])"
    by (intro chain_relink [OF ch n(2) _ tail]) (use ne in simp_all)
  moreover have "append_node (Some (a, junk)) t c (fst x) h = Inr ?h"
    using n ne new by (simp add: append_node_def load_node_def store_node_def)
  ultimately show ?thesis using n(2) by auto
qed

subsection \<open>Properties\<close>

lemma sample_represents: "represents sample_list sample_items"
  by (simp add: represents_def sample_list_def sample_items_def)

text \<open>
  Counting and searching: on a list that represents \<open>xs\<close>, \<open>countItems\<close> ends and returns the
  number of items (as a 32-bit integer), and \<open>getItem\<close> ends and returns the address of the first
  item with the port, or null when no item has it.
\<close>

lemma list_count_get:
  assumes "represents l xs"
  shows "countItems l = Some (Inr (of_nat (length xs))) \<and> getItem port l = Some (Inr (first_addr port xs))"
  using assms by (simp add: represents_def countItems_def getItem_def count_loop_chain get_loop_chain)

text \<open>
  C27. Adding: with a new node from the allocator the statements of \<open>addItem\<close> end and append
  exactly one item, leaving the others in place. The method itself never returns a value: control
  reaches its closing brace, although its comment promises 0 or -1. When the allocator fails, a
  non-empty list is dereferenced through the null result and an empty one ends the program.
\<close>

theorem addItem_appends:
  assumes "represents l xs" and "store l a = None" and "a \<noteq> NULL"
  shows "(\<exists>l'. addItem_body (Some (a, junk)) t c l = Some (Inr l') \<and> represents l' (xs @ [(a, t, c)]) \<and>
            dom (store l') = insert a (dom (store l))) \<and>
         addItem (Some (a, junk)) t c l = Some (Inl MissingReturn) \<and>
         addItem None t c l = Some (Inl (if xs = [] then Terminate else NullDeref))"
proof (cases xs rule: rev_cases)
  case Nil
  with assms have "head l = NULL" by (simp add: represents_def)
  with assms Nil show ?thesis
    by (auto simp: addItem_def addItem_body_def linkedList_one_def represents_def)
next
  case (snoc us x)
  with assms(1) have ch: "chain (store l) (head l) (us @ [x])" by (simp add: represents_def)
  then have h: "head l \<noteq> NULL" by auto
  from last_node_chain [OF ch] have ln: "last_node (store l) (head l) = Some (Inr (fst x))" by simp
  from append_node_chain [OF ch assms(2,3), of junk t c] obtain h' where
    h': "append_node (Some (a, junk)) t c (fst x) (store l) = Inr h'"
      "chain h' (head l) (us @ [x, (a, t, c)])" "dom h' = insert a (dom (store l))" by auto
  from chain_allocated [OF ch, of x] have "append_node None t c (fst x) (store l) = Inl NullDeref"
    by (auto simp: append_node_def store_node_def load_node_def)
  with h ln h' snoc show ?thesis
    by (simp add: addItem_def addItem_body_def represents_def)
qed

theorem addItem_appends_witness:
  "\<exists>l'. addItem_body (Some (400, \<lparr>threadID = 0, commSocketPortNo = 0, nxt = 0\<rparr>)) 4 11 sample_list = Some (Inr l') \<and>
     represents l' (sample_items @ [(400, 4, 11)])"
proof -
  have "store sample_list 400 = None" "(400 :: addr) \<noteq> NULL" by (simp_all add: sample_list_def)
  from addItem_appends [OF sample_represents this] show ?thesis by blast
qed

text \<open>
  C26. Removing: \<open>removeItem\<close> dereferences null on an empty list. A port that only a later item has
  is removed and reported with 0: the list then represents the items without the first such one,
  whose node is freed. A port that the first item has is removed as well, but the method ends
  without a return value. For a port that no item has the method returns -1 and leaves \<open>head\<close> null:
  the whole list is lost while all its nodes stay allocated.
\<close>

theorem removeItem_cases:
  assumes "represents l xs"
  shows "case xs of
           [] \<Rightarrow> removeItem port l = Some (Inl NullDeref)
         | x # _ \<Rightarrow>
             if port_of x = port then
               (\<exists>l'. removeItem_body port l = Some (Inr (None, l')) \<and> represents l' (remove_first port xs) \<and>
                     dom (store l') = dom (store l) - {fst x}) \<and>
               removeItem port l = Some (Inl MissingReturn)
             else if \<exists>y \<in> set xs. port_of y = port then
               (\<exists>l'. removeItem port l = Some (Inr (0, l')) \<and> represents l' (remove_first port xs) \<and>
                     dom (store l') = dom (store l) - {first_addr port xs})
             else removeItem port l = Some (Inr (- 1, l\<lparr>head := NULL\<rparr>))"
proof (cases xs)
  case Nil
  with assms show ?thesis
    by (simp add: represents_def removeItem_def removeItem_body_def load_node_def)
next
  case (Cons x ys)
  with assms have ch: "chain (store l) (head l) (x # ys)" by (simp add: represents_def)
  then obtain n where n: "head l = fst x" "head l \<noteq> NULL" "store l (head l) = Some n"
    "load_node (store l) (head l) = Inr n" "chain (store l) (nxt n) ys"
    "commSocketPortNo n = port_of x" by (rule chain_Cons)
  have step: "remove_loop port (head l) (head l) l =
      remove_loop port (head l) (head l) \<lparr>head = nxt n, store = store l\<rparr>" if "port_of x \<noteq> port"
    using that n by (cases l, subst remove_loop.simps) simp
  consider (hd) "port_of x = port" | (later) "port_of x \<noteq> port" "\<exists>y \<in> set ys. port_of y = port"
    | (absent) "port_of x \<noteq> port" "\<forall>y \<in> set ys. port_of y \<noteq> port" by blast
  then show ?thesis
  proof cases
    case hd
    have "\<forall>y \<in> set ys. fst y \<noteq> head l" using chain_distinct [OF ch] n(1) by (auto simp: image_iff)
    with n(5) have "chain ((store l)(head l := None)) (nxt n) ys" by (rule chain_upd_other)
    with hd n Cons show ?thesis
      by (simp add: removeItem_def removeItem_body_def free_node_def represents_def)
  next
    case later
    from remove_loop_present [of "store l" "head l" "[]" x ys, OF _ n(5) later(2)] ch
    obtain h' where "remove_loop port (head l) (head l) \<lparr>head = nxt n, store = store l\<rparr> =
        Some (Inr (0, \<lparr>head = head l, store = h'\<rparr>))" "chain h' (head l) (x # remove_first port ys)"
      "dom h' = dom (store l) - {first_addr port ys}" using n(1) by auto
    then show ?thesis using step later n Cons
      by (auto simp: removeItem_def removeItem_body_def represents_def Let_def)
  next
    case absent
    with remove_loop_absent [OF n(5) absent(2)] step absent n Cons show ?thesis
      by (cases l) (auto simp: removeItem_def removeItem_body_def Let_def)
  qed
qed

theorem removeItem_cases_witness:
  "(\<exists>l'. removeItem 7 sample_list = Some (Inr (0, l')) \<and> represents l' [(100, 1, 5), (300, 3, 9)]) \<and>
   removeItem 5 sample_list = Some (Inl MissingReturn) \<and>
   removeItem 8 sample_list = Some (Inr (- 1, sample_list\<lparr>head := 0\<rparr>))"
  using removeItem_cases [OF sample_represents, of 7] removeItem_cases [OF sample_represents, of 5]
    removeItem_cases [OF sample_represents, of 8]
  by (auto simp: sample_items_def)

text \<open>
  Destruction: the destructor ends, frees every node of the list exactly once, touches no
  other allocation and leaves \<open>head\<close> null.
\<close>

lemma destroy_frees_all:
  assumes "represents l xs"
  shows "linkedList_destroy l = Some (Inr \<lparr>head = NULL, store = store l |` (- fst ` set xs)\<rparr>)"
proof (cases "head l = NULL")
  case True
  with assms have "xs = []" by (simp add: represents_def)
  with True show ?thesis by (simp add: linkedList_destroy_def restrict_map_def)
next
  case False
  with delete_loop_chain [OF assms [unfolded represents_def]] show ?thesis
    by (cases l) (simp add: linkedList_destroy_def)
qed

end
