(* ===== verification/Threading.thy ===== *)
theory Threading
  imports Machine
begin

section \<open>Threads that hold a mutex for a while\<close>

text \<open>
  Models \<^verbatim>\<open>examples/threading/threading.c\<close> and \<^verbatim>\<open>threading.h\<close>. \<open>threadfunc\<close> is a sequence of steps
  with a position per thread; the threads interleave freely. The shared state is the owner of each
  mutex, by address, and the list of sleeps that were requested. A step that waits for a mutex
  held by another thread is not enabled.

  What \<open>usleep\<close>, \<open>pthread_mutex_lock\<close> and \<open>pthread_mutex_unlock\<close> return is an argument of the step. The code
  prints a message when \<open>usleep\<close> fails and ignores the results of the mutex calls. For a default mutex
  POSIX leaves undefined what an unlock does in a thread that does not hold it: a fault.
\<close>

record thread_data =
  wait_to_obtain_us :: u32
  wait_to_release_us :: u32
  pLock :: addr
  thread_complete_success :: bool

datatype position = T_entry | T_lock | T_wait | T_unlock | T_complete | T_returned

record tstate =
  threads :: "(position \<times> thread_data) list"
  owner :: "addr \<Rightarrow> nat option"
  slept :: "(nat \<times> u32) list"
  errors :: "nat list"

definition set_thread :: "nat \<Rightarrow> position \<Rightarrow> thread_data \<Rightarrow> tstate \<Rightarrow> tstate" where
  "set_thread t p d s = s\<lparr>threads := (threads s)[t := (p, d)]\<rparr>"

text \<open>The threads that printed an error message.\<close>

definition perror :: "nat \<Rightarrow> tstate \<Rightarrow> tstate" where
  "perror t s = s\<lparr>errors := errors s @ [t]\<rparr>"

definition usleep :: "nat \<Rightarrow> u32 \<Rightarrow> tstate \<Rightarrow> tstate" where
  "usleep t us s = s\<lparr>slept := slept s @ [(t, us)]\<rparr>"

record call_results =
  r_usleep :: s32
  r_lock :: s32
  r_unlock :: s32

text \<open>The mutex calls succeed; \<open>usleep\<close> may fail.\<close>

definition mutex_ok :: "call_results \<Rightarrow> bool" where
  "mutex_ok a \<longleftrightarrow> r_lock a = 0 \<and> r_unlock a = 0"

text \<open>
  The next step of thread \<open>t\<close>, \<open>None\<close> when it has none. All that a failed \<open>usleep\<close> does is to print a
  message.
\<close>

definition threadfunc :: "call_results \<Rightarrow> nat \<Rightarrow> tstate \<Rightarrow> tstate result option" where
  "threadfunc a t s =
     (if t < length (threads s) then
        (let (p, d) = threads s ! t in
         case p of
           T_entry \<Rightarrow>
             (let s = usleep t (wait_to_obtain_us d) (set_thread t T_lock (d\<lparr>thread_complete_success := False\<rparr>) s) in
              Some (Inr (if r_usleep a \<noteq> 0 then perror t s else s)))
         | T_lock \<Rightarrow>
             if r_lock a \<noteq> 0 then Some (Inr (set_thread t T_wait d s))
             else if owner s (pLock d) = None
             then Some (Inr (set_thread t T_wait d (s\<lparr>owner := (owner s)(pLock d := Some t)\<rparr>)))
             else None
         | T_wait \<Rightarrow>
             (let s = usleep t (wait_to_release_us d) (set_thread t T_unlock d s) in
              Some (Inr (if r_usleep a \<noteq> 0 then perror t s else s)))
         | T_unlock \<Rightarrow>
             if owner s (pLock d) \<noteq> Some t then Some (Inl ForeignUnlock)
             else Some (Inr (set_thread t T_complete d
               (if r_unlock a \<noteq> 0 then s else s\<lparr>owner := (owner s)(pLock d := None)\<rparr>)))
         | T_complete \<Rightarrow> Some (Inr (set_thread t T_returned (d\<lparr>thread_complete_success := True\<rparr>) s))
         | T_returned \<Rightarrow> None)
      else None)"

text \<open>
  \<open>malloc\<close> is the initial contents of the new structure, \<open>None\<close> for a null pointer; \<open>create\<close> is
  what \<open>pthread_create\<close> returned. The new thread's identifier is its index.
\<close>

definition start_thread_obtaining_mutex ::
    "thread_data option \<Rightarrow> s32 \<Rightarrow> addr \<Rightarrow> s32 \<Rightarrow> s32 \<Rightarrow> tstate \<Rightarrow> (bool \<times> tstate) result" where
  "start_thread_obtaining_mutex malloc create mutex wait_to_obtain_ms wait_to_release_ms s =
     (case malloc of
        None \<Rightarrow> Inl NullDeref
      | Some d \<Rightarrow>
          res_bind (mul_s32 wait_to_obtain_ms 1000) (\<lambda>o_us.
          res_bind (mul_s32 wait_to_release_ms 1000) (\<lambda>r_us.
          let d = d\<lparr>wait_to_obtain_us := o_us, wait_to_release_us := r_us, pLock := mutex\<rparr> in
          if create \<noteq> 0 then Inr (False, s)
          else Inr (True, s\<lparr>threads := threads s @ [(T_entry, d)]\<rparr>))))"

text \<open>A step of a thread whose mutex calls succeed, or the start of one more thread.\<close>

inductive tstep :: "tstate \<Rightarrow> tstate \<Rightarrow> bool" where
  run: "mutex_ok a \<Longrightarrow> threadfunc a t s = Some (Inr s') \<Longrightarrow> tstep s s'"
| start: "start_thread_obtaining_mutex m c mutex w1 w2 s = Inr (r, s') \<Longrightarrow> tstep s s'"

inductive_cases tstepE: "tstep s s'"

definition no_threads :: tstate where
  "no_threads = \<lparr>threads = [], owner = (\<lambda>_. None), slept = [], errors = []\<rparr>"

text \<open>Results with which every call fails.\<close>

definition all_fail :: call_results where
  "all_fail = \<lparr>r_usleep = - 1, r_lock = 22, r_unlock = 1\<rparr>"

subsection \<open>Invariant\<close>

abbreviation pos_of :: "tstate \<Rightarrow> nat \<Rightarrow> position" where
  "pos_of s t \<equiv> fst (threads s ! t)"

abbreviation data_of :: "tstate \<Rightarrow> nat \<Rightarrow> thread_data" where
  "data_of s t \<equiv> snd (threads s ! t)"

definition holding :: "position \<Rightarrow> bool" where
  "holding p \<longleftrightarrow> p = T_wait \<or> p = T_unlock"

definition thread_ok :: "(addr \<Rightarrow> nat option) \<Rightarrow> nat \<Rightarrow> position \<times> thread_data \<Rightarrow> bool" where
  "thread_ok own t pd \<longleftrightarrow>
     (own (pLock (snd pd)) = Some t \<longleftrightarrow> holding (fst pd)) \<and>
     (fst pd = T_returned \<longrightarrow> thread_complete_success (snd pd)) \<and>
     (fst pd \<noteq> T_returned \<and> fst pd \<noteq> T_entry \<longrightarrow> \<not> thread_complete_success (snd pd))"

definition tinv :: "tstate \<Rightarrow> bool" where
  "tinv s \<longleftrightarrow>
     (\<forall>t < length (threads s). thread_ok (owner s) t (threads s ! t)) \<and>
     (\<forall>m t. owner s m = Some t \<longrightarrow> t < length (threads s) \<and> pLock (data_of s t) = m)"

text \<open>Steps a thread has left, and all threads together.\<close>

primrec steps_left :: "position \<Rightarrow> nat" where
  "steps_left T_entry = 5"
| "steps_left T_lock = 4"
| "steps_left T_wait = 3"
| "steps_left T_unlock = 2"
| "steps_left T_complete = 1"
| "steps_left T_returned = 0"

definition work :: "tstate \<Rightarrow> nat" where
  "work s = sum_list (map (\<lambda>pd. steps_left (fst pd)) (threads s))"

text \<open>Any run of the threads that are there, with mutex calls that succeed.\<close>

inductive runs :: "tstate \<Rightarrow> nat \<Rightarrow> tstate \<Rightarrow> bool" where
  runs_done: "runs s 0 s"
| runs_step: "mutex_ok a \<Longrightarrow> threadfunc a t s = Some (Inr s') \<Longrightarrow> runs s' n s'' \<Longrightarrow> runs s (Suc n) s''"

subsection \<open>Steps keep the invariant\<close>

lemma threadfunc_cases:
  assumes "threadfunc a t s = Some (Inr s')" and ok: "mutex_ok a"
  obtains (entry) d where "t < length (threads s)" "threads s ! t = (T_entry, d)"
      "threads s' = (threads s)[t := (T_lock, d\<lparr>thread_complete_success := False\<rparr>)]" "owner s' = owner s"
  | (lock) d where "t < length (threads s)" "threads s ! t = (T_lock, d)" "owner s (pLock d) = None"
      "threads s' = (threads s)[t := (T_wait, d)]" "owner s' = (owner s)(pLock d := Some t)"
  | (wait) d where "t < length (threads s)" "threads s ! t = (T_wait, d)"
      "threads s' = (threads s)[t := (T_unlock, d)]" "owner s' = owner s"
  | (unlock) d where "t < length (threads s)" "threads s ! t = (T_unlock, d)"
      "threads s' = (threads s)[t := (T_complete, d)]" "owner s' = (owner s)(pLock d := None)"
  | (complete) d where "t < length (threads s)" "threads s ! t = (T_complete, d)"
      "threads s' = (threads s)[t := (T_returned, d\<lparr>thread_complete_success := True\<rparr>)]" "owner s' = owner s"
proof -
  obtain p d where pd: "threads s ! t = (p, d)" by (cases "threads s ! t")
  have t: "t < length (threads s)" using assms(1) by (simp add: threadfunc_def split: if_splits)
  note simps = threadfunc_def set_thread_def usleep_def perror_def Let_def
  have m: "r_lock a = 0" "r_unlock a = 0" using ok by (simp_all add: mutex_ok_def)
  show thesis
  proof (cases p)
    case T_entry
    with assms(1) m pd t show ?thesis by (intro entry [of d]) (auto simp: simps split: if_splits)
  next
    case T_lock
    with assms(1) m pd t show ?thesis by (intro lock [of d]) (auto simp: simps split: if_splits)
  next
    case T_wait
    with assms(1) m pd t show ?thesis by (intro wait [of d]) (auto simp: simps split: if_splits)
  next
    case T_unlock
    with assms(1) m pd t show ?thesis by (intro unlock [of d]) (auto simp: simps split: if_splits)
  next
    case T_complete
    with assms(1) m pd t show ?thesis by (intro complete [of d]) (auto simp: simps)
  next
    case T_returned
    with assms(1) pd t show ?thesis by (auto simp: simps)
  qed
qed

lemma tinvD:
  assumes "tinv s" and "t < length (threads s)" and "threads s ! t = (p, d)"
  shows "owner s (pLock d) = Some t \<longleftrightarrow> holding p" and "p = T_returned \<Longrightarrow> thread_complete_success d"
    and "p \<noteq> T_returned \<Longrightarrow> p \<noteq> T_entry \<Longrightarrow> \<not> thread_complete_success d"
  using assms by (force simp: tinv_def thread_ok_def)+

text \<open>Changing one thread and, at most, the owner of its mutex.\<close>

lemma tinv_update:
  assumes inv: "tinv s" and t: "t < length (threads s)" "threads s ! t = (p, d)" and same: "pLock d' = pLock d"
    and s': "threads s' = (threads s)[t := (p', d')]" "owner s' = (owner s)(pLock d := v)"
    and v: "v = owner s (pLock d) \<and> (holding p' = holding p) \<or>
       owner s (pLock d) = None \<and> v = Some t \<and> holding p' \<or>
       owner s (pLock d) = Some t \<and> v = None \<and> \<not> holding p'"
    and flag: "p' = T_returned \<longrightarrow> thread_complete_success d'"
      "p' \<noteq> T_returned \<and> p' \<noteq> T_entry \<longrightarrow> \<not> thread_complete_success d'"
  shows "tinv s'"
proof -
  have lk: "owner s m = Some u \<Longrightarrow> u < length (threads s) \<and> pLock (data_of s u) = m" for m u
    using inv by (simp add: tinv_def)
  have "thread_ok (owner s') u (threads s' ! u)" if "u < length (threads s')" for u
  proof (cases "u = t")
    case True
    with t s' same v flag tinvD(1) [OF inv t] show ?thesis by (auto simp: thread_ok_def)
  next
    case False
    have ok: "thread_ok (owner s) u (threads s ! u)" using inv that s'(1) by (simp add: tinv_def)
    moreover have "owner s' (pLock (data_of s u)) = Some u \<longleftrightarrow> owner s (pLock (data_of s u)) = Some u"
      using v False s'(2) by auto
    ultimately show ?thesis using False s'(1) by (simp add: thread_ok_def)
  qed
  moreover have "u < length (threads s') \<and> pLock (data_of s' u) = m" if "owner s' m = Some u" for m u
  proof (cases "m = pLock d \<and> v = Some t \<and> owner s m = None")
    case True
    with that s' t same show ?thesis by auto
  next
    case False
    with that s'(2) v have "owner s m = Some u" by (auto split: if_splits)
    with lk [of m u] s'(1) t same show ?thesis by (cases "u = t") auto
  qed
  ultimately show ?thesis by (simp add: tinv_def)
qed

lemma threadfunc_inv:
  assumes inv: "tinv s" and "mutex_ok a" and "threadfunc a t s = Some (Inr s')"
  shows "tinv s'"
  using assms(3,2)
proof (cases rule: threadfunc_cases)
  case (entry d)
  show ?thesis
    by (rule tinv_update [OF inv entry(1,2) _ entry(3), of "owner s (pLock d)"])
       (use entry in \<open>simp_all add: holding_def\<close>)
next
  case (lock d)
  show ?thesis
    by (rule tinv_update [OF inv lock(1,2) _ lock(4,5)])
       (use lock tinvD(3) [OF inv lock(1,2)] in \<open>simp_all add: holding_def\<close>)
next
  case (wait d)
  show ?thesis
    by (rule tinv_update [OF inv wait(1,2) _ wait(3), of "owner s (pLock d)"])
       (use wait tinvD(3) [OF inv wait(1,2)] in \<open>simp_all add: holding_def\<close>)
next
  case (unlock d)
  show ?thesis
    by (rule tinv_update [OF inv unlock(1,2) _ unlock(3,4)])
       (use unlock tinvD [OF inv unlock(1,2)] in \<open>simp_all add: holding_def\<close>)
next
  case (complete d)
  show ?thesis
    by (rule tinv_update [OF inv complete(1,2) _ complete(3), of "owner s (pLock d)"])
       (use complete in \<open>simp_all add: holding_def\<close>)
qed

lemma start_inv:
  assumes inv: "tinv s" and st: "start_thread_obtaining_mutex m c mutex w1 w2 s = Inr (r, s')"
  shows "tinv s'"
proof -
  from st consider "s' = s" | d where "s' = s\<lparr>threads := threads s @ [(T_entry, d)]\<rparr>"
    by (auto simp: start_thread_obtaining_mutex_def Let_def res_bind_Inr_iff split: option.splits if_splits)
  then show ?thesis
  proof cases
    case (2 d)
    have "owner s m \<noteq> Some (length (threads s))" for m using inv by (auto simp: tinv_def)
    with inv 2 show ?thesis
      by (auto simp: tinv_def thread_ok_def holding_def nth_append less_Suc_eq)
  qed (use inv in simp)
qed

interpretation tm: invariant_machine "\<lambda>s. s = no_threads" tstep tinv
proof unfold_locales
  fix s assume "s = no_threads"
  then show "tinv s" by (simp add: tinv_def no_threads_def)
next
  fix s t assume "tinv s" "tstep s t"
  then show "tinv t" by (auto elim!: tstepE intro: threadfunc_inv start_inv)
qed

subsection \<open>Progress\<close>

lemma steps_left_0: "steps_left p = 0 \<longleftrightarrow> p = T_returned"
  by (cases p) auto

lemma work_update:
  assumes "t < length xs" and "Suc (steps_left (fst pd)) = steps_left (fst (xs ! t))"
  shows "Suc (\<Sum>pd \<leftarrow> xs[t := pd]. steps_left (fst pd)) = (\<Sum>pd \<leftarrow> xs. steps_left (fst pd))"
  using assms
proof (induction xs arbitrary: t)
  case (Cons x xs)
  show ?case
  proof (cases t)
    case 0
    with Cons.prems show ?thesis by simp
  next
    case (Suc n)
    with Cons.prems Cons.IH [of n] show ?thesis by simp
  qed
qed simp

lemma threadfunc_work:
  assumes "threadfunc a t s = Some (Inr s')" and "mutex_ok a"
  shows "Suc (work s') = work s"
  using assms by (cases rule: threadfunc_cases) (simp_all add: work_def work_update)

text \<open>Some thread can go on: the owner of the mutex a thread waits for is not waiting itself.\<close>

lemma not_stuck:
  assumes inv: "tinv s" and a: "mutex_ok a" and t: "t < length (threads s)" and ne: "pos_of s t \<noteq> T_returned"
  shows "\<exists>u. threadfunc a u s \<noteq> None"
proof -
  obtain p d where pd: "threads s ! t = (p, d)" by (cases "threads s ! t")
  show ?thesis
  proof (cases "p = T_lock \<and> owner s (pLock d) \<noteq> None")
    case False
    then have "threadfunc a t s \<noteq> None"
      using t pd ne by (cases p) (auto simp: threadfunc_def Let_def)
    then show ?thesis by blast
  next
    case True
    then obtain u where u: "owner s (pLock d) = Some u" by auto
    with inv have ul: "u < length (threads s)" "pLock (data_of s u) = pLock d" by (auto simp: tinv_def)
    obtain q e where qe: "threads s ! u = (q, e)" by (cases "threads s ! u")
    with tinvD(1) [OF inv ul(1) qe] ul(2) u have "holding q" by simp
    with ul qe have "threadfunc a u s \<noteq> None" by (auto simp: threadfunc_def holding_def Let_def)
    then show ?thesis by blast
  qed
qed

lemma no_fault:
  assumes inv: "tinv s"
  shows "threadfunc a t s \<noteq> Some (Inl f)"
proof -
  obtain p d where pd: "threads s ! t = (p, d)" by (cases "threads s ! t")
  then show ?thesis using tinvD(1) [OF inv _ pd]
    by (cases p) (auto simp: threadfunc_def Let_def holding_def split: if_splits)
qed

lemma work_0: "work s = 0 \<longleftrightarrow> (\<forall>t < length (threads s). pos_of s t = T_returned)"
  by (simp add: work_def steps_left_0 all_set_conv_all_nth)

lemma runs_work: "runs s n s' \<Longrightarrow> tinv s \<Longrightarrow> tinv s' \<and> n + work s' = work s"
proof (induction rule: runs.induct)
  case (runs_step a t s s' n s'')
  with threadfunc_inv [OF runs_step(5,1,2)] threadfunc_work [OF runs_step(2,1)] show ?case by simp
qed simp

lemma all_return:
  assumes "tinv s" and "mutex_ok a"
  shows "\<exists>s'. runs s (work s) s'"
  using assms(1)
proof (induction "work s" arbitrary: s)
  case 0
  then show ?case by (metis runs_done)
next
  case (Suc n)
  then obtain t where "t < length (threads s)" "pos_of s t \<noteq> T_returned" using work_0 [of s] by auto
  with not_stuck [OF Suc.prems assms(2)] obtain u r where "threadfunc a u s = Some r" by blast
  with no_fault [OF Suc.prems, of a u] obtain s1 where s1: "threadfunc a u s = Some (Inr s1)" by (cases r) auto
  from threadfunc_work [OF s1 assms(2)] Suc.hyps(2) have w: "n = work s1" by simp
  with Suc.hyps(1) [of s1] threadfunc_inv [OF Suc.prems assms(2) s1] obtain s' where "runs s1 (work s1) s'" by auto
  with s1 w Suc.hyps(2) assms(2) show ?case by (metis runs_step)
qed

subsection \<open>Properties\<close>

text \<open>One thread on the mutex at address 8, and the state in which it holds the mutex.\<close>

lemma one_thread_reachable:
  "reach (\<lambda>s. s = no_threads) tstep
     \<lparr>threads = [(T_entry, \<lparr>wait_to_obtain_us = 5000, wait_to_release_us = 7000, pLock = 8,
        thread_complete_success = True\<rparr>)], owner = (\<lambda>_. None), slept = [], errors = []\<rparr>"
proof -
  let ?d = "\<lparr>wait_to_obtain_us = 0, wait_to_release_us = 0, pLock = 0, thread_complete_success = True\<rparr>"
  have "start_thread_obtaining_mutex (Some ?d) 0 8 5 7 no_threads =
     Inr (True, \<lparr>threads = [(T_entry, \<lparr>wait_to_obtain_us = 5000, wait_to_release_us = 7000, pLock = 8,
        thread_complete_success = True\<rparr>)], owner = (\<lambda>_. None), slept = [], errors = []\<rparr>)"
    by (simp add: start_thread_obtaining_mutex_def mul_s32_def no_threads_def)
  then have "tstep no_threads \<lparr>threads = [(T_entry, \<lparr>wait_to_obtain_us = 5000, wait_to_release_us = 7000,
      pLock = 8, thread_complete_success = True\<rparr>)], owner = (\<lambda>_. None), slept = [], errors = []\<rparr>" by (rule start)
  moreover have "reach (\<lambda>s. s = no_threads) tstep no_threads" by (rule reach_init) simp
  ultimately show ?thesis by (rule reach_step [rotated])
qed

text \<open>
  Mutual exclusion: as long as the mutex calls succeed, in every reachable state of any number of started threads, two threads that
  use the same mutex are never both between their lock and their unlock, a thread is there exactly
  when it owns the mutex, and a thread that returned reports success.
\<close>

lemma threads_mutual_exclusion:
  assumes "reach (\<lambda>s. s = no_threads) tstep s" and "t < length (threads s)" and "u < length (threads s)"
  shows "(holding (pos_of s t) \<longleftrightarrow> owner s (pLock (data_of s t)) = Some t) \<and>
         (holding (pos_of s t) \<and> holding (pos_of s u) \<and> pLock (data_of s t) = pLock (data_of s u) \<longrightarrow> t = u) \<and>
         (pos_of s t = T_returned \<longrightarrow> thread_complete_success (data_of s t))"
proof -
  from assms(1) have "tinv s" by (rule tm.reach_invar)
  with assms(2,3) have ok: "thread_ok (owner s) t (threads s ! t)" "thread_ok (owner s) u (threads s ! u)"
    by (simp_all add: tinv_def)
  then have own: "owner s (pLock (data_of s t)) = Some t \<longleftrightarrow> holding (pos_of s t)"
    "owner s (pLock (data_of s u)) = Some u \<longleftrightarrow> holding (pos_of s u)"
    by (simp_all only: thread_ok_def)
  then have "t = u" if "holding (pos_of s t)" "holding (pos_of s u)" "pLock (data_of s t) = pLock (data_of s u)"
    using that by (metis option.inject)
  moreover have "pos_of s t = T_returned \<longrightarrow> thread_complete_success (data_of s t)"
    using ok(1) by (simp add: thread_ok_def)
  ultimately show ?thesis using own(1) by blast
qed

text \<open>
  C25. Every started thread completes when the mutex calls succeed: from a state reachable that way no
  such run of the threads is longer than the sum of the steps they have left, a run that cannot be
  continued has every thread returned, and such a run exists. No interleaving deadlocks and none
  leaves defined behaviour. The flag of a returned thread says success, whatever the sleeps returned,
  so also when the thread printed an error.
\<close>

theorem threads_complete:
  assumes "reach (\<lambda>s. s = no_threads) tstep s" and "mutex_ok a"
  shows "(\<exists>s'. runs s (work s) s') \<and>
         (\<forall>n s'. runs s n s' \<longrightarrow> n \<le> work s \<and> (\<forall>t f. threadfunc a t s' \<noteq> Some (Inl f)) \<and>
            (\<forall>t. threadfunc a t s' = None) = (\<forall>t < length (threads s'). pos_of s' t = T_returned) \<and>
            (\<forall>t < length (threads s'). pos_of s' t = T_returned \<longrightarrow> thread_complete_success (data_of s' t)))"
proof -
  from assms(1) have inv: "tinv s" by (rule tm.reach_invar)
  have "n \<le> work s \<and> (\<forall>t f. threadfunc a t s' \<noteq> Some (Inl f)) \<and>
      (\<forall>t. threadfunc a t s' = None) = (\<forall>t < length (threads s'). pos_of s' t = T_returned) \<and>
      (\<forall>t < length (threads s'). pos_of s' t = T_returned \<longrightarrow> thread_complete_success (data_of s' t))"
    if "runs s n s'" for n s'
  proof -
    from runs_work [OF that inv] have inv': "tinv s'" and n: "n + work s' = work s" by auto
    have "(\<forall>t. threadfunc a t s' = None) = (\<forall>t < length (threads s'). pos_of s' t = T_returned)"
      using not_stuck [OF inv' assms(2)] by (fastforce simp: threadfunc_def split: prod.splits)
    with inv' n no_fault [OF inv'] show ?thesis by (auto simp: tinv_def thread_ok_def)
  qed
  with all_return [OF inv assms(2)] show ?thesis by blast
qed

theorem threads_complete_witness:
  "\<exists>s s'. reach (\<lambda>s. s = no_threads) tstep s \<and> work s = 5 \<and> runs s 5 s'"
proof -
  let ?s = "\<lparr>threads = [(T_entry, \<lparr>wait_to_obtain_us = 5000, wait_to_release_us = 7000, pLock = 8,
        thread_complete_success = True\<rparr>)], owner = (\<lambda>_. None), slept = [], errors = []\<rparr>"
  have w: "work ?s = 5" by (simp add: work_def)
  have ok: "mutex_ok \<lparr>r_usleep = - 1, r_lock = 0, r_unlock = 0\<rparr>" by (simp add: mutex_ok_def)
  from w threads_complete [OF one_thread_reachable ok] obtain s' where "runs ?s 5 s'" by auto
  with w one_thread_reachable show ?thesis by blast
qed

text \<open>
  Errors are not reported: a thread whose sleeps fail and whose unlock fails runs to its end, leaves
  the mutex locked and reports success. A thread whose lock fails sleeps on without the mutex and then
  unlocks a mutex it does not hold.
\<close>

lemma failed_calls_report_success:
  assumes "t < length (threads s)" and "threads s ! t = (T_wait, d)" and "owner s (pLock d) = Some t"
  shows "\<exists>s1 s2 s3. threadfunc all_fail t s = Some (Inr s1) \<and> threadfunc all_fail t s1 = Some (Inr s2) \<and>
    threadfunc all_fail t s2 = Some (Inr s3) \<and> owner s3 (pLock d) = Some t \<and> errors s3 = errors s @ [t] \<and>
    threads s3 ! t = (T_returned, d\<lparr>thread_complete_success := True\<rparr>)"
  using assms by (simp add: threadfunc_def all_fail_def set_thread_def usleep_def perror_def)

lemma failed_lock_undefined:
  assumes "t < length (threads s)" and "threads s ! t = (T_lock, d)" and "owner s (pLock d) \<noteq> Some t"
  shows "\<exists>s1 s2. threadfunc all_fail t s = Some (Inr s1) \<and> threadfunc all_fail t s1 = Some (Inr s2) \<and>
    threadfunc all_fail t s2 = Some (Inl ForeignUnlock)"
  using assms by (simp add: threadfunc_def all_fail_def set_thread_def usleep_def perror_def)

text \<open>
  Starting a thread: for waits whose conversion to microseconds fits an \<open>int\<close>, and with
  memory, the function returns true exactly when \<open>pthread_create\<close> succeeds, and then the new
  thread will sleep the requested times, 1000 times the milliseconds modulo 2 to the 32, around its
  use of the given mutex. Without memory, or when a product does not fit, the code leaves defined
  behaviour.
\<close>

lemma start_thread_spec:
  assumes "\<bar>sint w1\<bar> \<le> 2147483" and "\<bar>sint w2\<bar> \<le> 2147483" and "sint w3 > 2147483"
  shows "start_thread_obtaining_mutex (Some d) c mutex w1 w2 s =
           Inr (c = 0, if c = 0 then s\<lparr>threads := threads s @
             [(T_entry, \<lparr>wait_to_obtain_us = w1 * 1000, wait_to_release_us = w2 * 1000, pLock = mutex,
                thread_complete_success = thread_complete_success d\<rparr>)]\<rparr> else s) \<and>
         start_thread_obtaining_mutex None c mutex w1 w2 s = Inl NullDeref \<and>
         start_thread_obtaining_mutex (Some d) c mutex w3 w2 s = Inl SignedOverflow"
proof -
  have "mul_s32 w1 1000 = Inr (w1 * 1000)" "mul_s32 w2 1000 = Inr (w2 * 1000)"
    "mul_s32 w3 1000 = Inl SignedOverflow"
    using assms by (auto simp: mul_s32_def)
  then show ?thesis by (cases d) (simp add: start_thread_obtaining_mutex_def)
qed

end
