(* ===== verification/System_Calls.thy ===== *)
theory System_Calls
  imports Aesd_Prelude
begin

section \<open>Running commands\<close>

text \<open>
  Models \<^verbatim>\<open>examples/systemcalls/systemcalls.c\<close> and the status macros it uses from the C library
  headers kept in the repository (\<^verbatim>\<open>bits/waitstatus.h\<close>).

  \<open>fork\<close> returns in two processes, so each function takes the value \<open>fork\<close> returned in the
  process at hand; the other system calls are parameters too: \<open>execv\<close> gives \<open>None\<close> when the
  process image was replaced and otherwise the value it returned, \<open>waitpid\<close> the returned value and
  the status it stored. Strings are \<open>None\<close> for a null pointer. What happens to the process is a
  value of \<open>outcome\<close>.
\<close>

unbundle bit_operations_syntax

subsection \<open>Status words\<close>

definition WEXITSTATUS :: "s32 \<Rightarrow> s32" where
  "WEXITSTATUS status = drop_bit 8 (status AND 0xff00)"

definition WTERMSIG :: "s32 \<Rightarrow> s32" where
  "WTERMSIG status = status AND 0x7f"

definition WSTOPSIG :: "s32 \<Rightarrow> s32" where
  "WSTOPSIG status = WEXITSTATUS status"

definition WIFEXITED :: "s32 \<Rightarrow> bool" where
  "WIFEXITED status \<longleftrightarrow> WTERMSIG status = 0"

text \<open>The sum is converted to \<open>signed char\<close> before the shift.\<close>

definition WIFSIGNALED :: "s32 \<Rightarrow> bool" where
  "WIFSIGNALED status \<longleftrightarrow> drop_bit 1 (sint (ucast ((status AND 0x7f) + 1) :: 8 word)) > 0"

definition WIFSTOPPED :: "s32 \<Rightarrow> bool" where
  "WIFSTOPPED status \<longleftrightarrow> (status AND 0xff) = 0x7f"

definition WIFCONTINUED :: "s32 \<Rightarrow> bool" where
  "WIFCONTINUED status \<longleftrightarrow> status = 0xffff"

definition WCOREFLAG :: s32 where
  "WCOREFLAG = 0x80"

definition WCOREDUMP :: "s32 \<Rightarrow> s32" where
  "WCOREDUMP status = (status AND WCOREFLAG)"

definition W_EXITCODE :: "s32 \<Rightarrow> s32 \<Rightarrow> s32" where
  "W_EXITCODE ret sig = (push_bit 8 ret OR sig)"

definition W_STOPCODE :: "s32 \<Rightarrow> s32" where
  "W_STOPCODE sig = (push_bit 8 sig OR 0x7f)"

subsection \<open>The functions\<close>

datatype outcome =
    Return bool
  | Exec "string list"
  | Exit s32

type_synonym cstring = "string option"

text \<open>\<open>r\<close> is what \<open>system(cmd)\<close> returned.\<close>

definition do_system :: "s32 \<Rightarrow> bool" where
  "do_system r \<longleftrightarrow> 0 = r"

text \<open>
  The local array \<open>command\<close>: the arguments behind \<open>count\<close>, then a null pointer. Reading more
  arguments than were passed is undefined.
\<close>

definition command_array :: "nat \<Rightarrow> cstring list \<Rightarrow> cstring list result" where
  "command_array count args =
     (if count \<le> length args then Inr (take count args @ [None]) else Inl OutOfBounds)"

text \<open>What \<open>execv\<close> reads of its vector: the strings up to the first null pointer.\<close>

definition exec_vector :: "cstring list \<Rightarrow> string list result" where
  "exec_vector argv =
     (if None \<in> set argv then Inr (map the (takeWhile (\<lambda>a. a \<noteq> None) argv)) else Inl OutOfBounds)"

text \<open>The child's last steps: \<open>execv\<close>, and \<open>exit\<close> with its result when it comes back.\<close>

definition exec_or_exit :: "(string list \<Rightarrow> s32 option) \<Rightarrow> cstring list \<Rightarrow> outcome result" where
  "exec_or_exit execv argv =
     res_bind (exec_vector argv) (\<lambda>v.
       case execv v of None \<Rightarrow> Inr (Exec v) | Some ret_value \<Rightarrow> Inr (Exit ret_value))"

text \<open>
  The parent's last steps. A status that is not a normal exit leaves the value of \<open>waitpid\<close> in
  place, and the conversion to \<open>bool\<close> makes any value but 0 true.
\<close>

definition wait_result :: "s32 \<times> s32 \<Rightarrow> bool" where
  "wait_result w =
     (let (ret_value, status) = w;
          ret_value = (if ret_value = - 1 then 0
                       else if WIFEXITED status then (if WEXITSTATUS status = 0 then 1 else 0)
                       else ret_value)
      in ret_value \<noteq> 0)"

definition do_exec ::
    "s32 \<Rightarrow> (string list \<Rightarrow> s32 option) \<Rightarrow> (s32 \<Rightarrow> s32 \<times> s32) \<Rightarrow> nat \<Rightarrow> cstring list \<Rightarrow> outcome result" where
  "do_exec fork execv waitpid count args =
     res_bind (command_array count args) (\<lambda>command.
       let child_pid = fork in
       if child_pid = - 1 then Inr (Return False)
       else if child_pid = 0 then
         res_bind (arr_read command 0) (\<lambda>c0.
         res_bind (arr_read command 1) (\<lambda>c1.
         res_bind (arr_read command 2) (\<lambda>c2.
         exec_or_exit execv [c0, c1, c2, None])))
       else Inr (Return (wait_result (waitpid child_pid))))"

text \<open>
  \<open>child_pid\<close> is an \<open>unsigned short\<close>: the value of \<open>fork\<close> is truncated to 16 bits and compared
  with -1 as an \<open>int\<close>. \<open>fd\<close> and \<open>fd2\<close> are what \<open>open\<close> and \<open>dup2\<close> returned.
\<close>

definition do_exec_redirect ::
    "s32 \<Rightarrow> s32 \<Rightarrow> s32 \<Rightarrow> (string list \<Rightarrow> s32 option) \<Rightarrow> (s32 \<Rightarrow> s32 \<times> s32) \<Rightarrow> nat \<Rightarrow> cstring list \<Rightarrow>
       outcome result" where
  "do_exec_redirect fork fd fd2 execv waitpid count args =
     res_bind (command_array count args) (\<lambda>command.
       let child_pid = (ucast fork :: u16) in
       if (ucast child_pid :: s32) = - 1 then Inr (Return False)
       else if child_pid = 0 then
         res_bind (arr_read command 0) (\<lambda>c0.
         res_bind (arr_read command 1) (\<lambda>c1.
         res_bind (arr_read command 2) (\<lambda>c2.
         res_bind (arr_read command 3) (\<lambda>c3.
         if fd = - 1 then Inr (Return False)
         else if fd2 = - 1 then Inr (Return False)
         else exec_or_exit execv [c0, c1, c2, c3]))))
       else Inr (Return (wait_result (waitpid (ucast child_pid)))))"

subsection \<open>The status macros on numbers\<close>

lemma unat_and_7f [word_nat]: "unat (s AND 0x7f :: u32) = unat s mod 128"
proof -
  have "s AND 0x7f = take_bit 7 s" by (simp add: take_bit_eq_mask mask_eq_exp_minus_1)
  then show ?thesis by (simp add: take_bit_eq_mod unat_mod)
qed

lemma unat_and_ff [word_nat]: "unat (s AND 0xff :: u32) = unat s mod 256"
proof -
  have "s AND 0xff = take_bit 8 s" by (simp add: take_bit_eq_mask mask_eq_exp_minus_1)
  then show ?thesis by (simp add: take_bit_eq_mod unat_mod)
qed

lemma unat_WTERMSIG: "unat (WTERMSIG s) = unat s mod 128"
  by (simp add: WTERMSIG_def unat_and_7f)

lemma unat_WEXITSTATUS: "unat (WEXITSTATUS s) = unat s div 256 mod 256"
proof -
  have "WEXITSTATUS s = (drop_bit 8 s AND 0xff)" by (simp add: WEXITSTATUS_def)
  then show ?thesis by (simp add: unat_and_ff drop_bit_eq_div unat_div)
qed

lemma or_low_byte:
  fixes r g :: s32
  assumes "unat g < 256" and "unat r < 256"
  shows "unat (push_bit 8 r OR g) = unat r * 256 + unat g"
proof -
  have g: "take_bit 8 g = g"
    using assms(1) by (simp add: word_unat_eq_iff take_bit_eq_mod unat_mod)
  have "push_bit 8 r AND g = 0"
  proof (rule bit_eqI)
    fix n
    have "bit g n \<Longrightarrow> n < 8" using g by (metis bit_take_bit_iff)
    then show "bit (push_bit 8 r AND g) n = bit 0 n" by (auto simp: bit_and_iff bit_push_bit_iff)
  qed
  then have "push_bit 8 r OR g = push_bit 8 r + g" by (rule disjunctive_add_eq_or [symmetric])
  moreover have "unat (push_bit 8 r) = unat r * 256"
    using assms(2) by (simp add: push_bit_eq_mult unat_word_ariths)
  ultimately show ?thesis using assms by (simp add: unat_word_ariths)
qed

lemma WIFSIGNALED_iff: "WIFSIGNALED s \<longleftrightarrow> 0 < unat s mod 128 \<and> unat s mod 128 < 127"
proof -
  let ?m = "unat s mod 128"
  have "unat ((s AND 0x7f) + 1) = ?m + 1" by (simp add: unat_word_ariths unat_and_7f)
  then have u: "unat (ucast ((s AND 0x7f) + 1) :: 8 word) = ?m + 1"
    by (simp add: unat_ucast_down)
  then have "uint (ucast ((s AND 0x7f) + 1) :: 8 word) = int (?m + 1)" by (simp only: uint_nat)
  then have "sint (ucast ((s AND 0x7f) + 1) :: 8 word) = signed_take_bit 7 (int (?m + 1))"
    by (simp only: sint_uint) simp
  moreover have "signed_take_bit 7 (int (?m + 1)) = (if ?m = 127 then - 128 else int (?m + 1))"
    by (auto simp: signed_take_bit_int_eq_self)
  ultimately show ?thesis by (auto simp: WIFSIGNALED_def drop_bit_eq_div)
qed

lemma WIFEXITED_iff: "WIFEXITED s \<longleftrightarrow> unat s mod 128 = 0"
  by (metis WIFEXITED_def unat_WTERMSIG unat_eq_zero)

lemma WIFSTOPPED_iff: "WIFSTOPPED s \<longleftrightarrow> unat s mod 256 = 127"
proof -
  have "WIFSTOPPED s \<longleftrightarrow> unat (s AND 0xff) = unat (0x7f :: u32)" by (simp add: WIFSTOPPED_def word_unat_eq_iff)
  then show ?thesis by (simp add: unat_and_ff)
qed

subsection \<open>Properties\<close>

text \<open>
  Status words: a status built with \<open>W_EXITCODE\<close> from an 8-bit exit code and a signal number
  decodes to them, it is a normal exit exactly for signal 0 and a killed child exactly for a
  signal from 1 to 126; a status built with \<open>W_STOPCODE\<close> is a stopped child with its signal. No
  status is two of normally exited, killed and stopped.
\<close>

lemma status_roundtrip:
  assumes "unat ret < 256" and "unat sig < 128"
  shows "WEXITSTATUS (W_EXITCODE ret sig) = ret \<and> WTERMSIG (W_EXITCODE ret sig) = sig \<and>
         WIFEXITED (W_EXITCODE ret sig) = (sig = 0) \<and>
         WIFSIGNALED (W_EXITCODE ret sig) = (sig \<noteq> 0 \<and> sig \<noteq> 127) \<and>
         WIFSTOPPED (W_STOPCODE ret) \<and> WSTOPSIG (W_STOPCODE ret) = ret \<and>
         (WIFEXITED s \<longrightarrow> \<not> WIFSIGNALED s \<and> \<not> WIFSTOPPED s) \<and> (WIFSIGNALED s \<longrightarrow> \<not> WIFSTOPPED s)"
proof -
  have e: "unat (W_EXITCODE ret sig) = unat ret * 256 + unat sig"
    using assms or_low_byte [of sig ret] by (simp add: W_EXITCODE_def)
  have t: "unat (W_STOPCODE ret) = unat ret * 256 + 127"
    using assms or_low_byte [of "0x7f" ret] by (simp add: W_STOPCODE_def)
  have m: "unat (W_EXITCODE ret sig) mod 128 = unat sig"
    using assms(2) mod_mult_self2 [of "unat sig" 128 "unat ret * 2"] by (simp add: e ac_simps)
  have "WEXITSTATUS (W_EXITCODE ret sig) = ret" "WSTOPSIG (W_STOPCODE ret) = ret"
    "WTERMSIG (W_EXITCODE ret sig) = sig"
    using assms m by (simp_all add: word_unat_eq_iff WSTOPSIG_def unat_WEXITSTATUS unat_WTERMSIG e t)
  moreover have "WIFEXITED (W_EXITCODE ret sig) = (sig = 0)"
    "WIFSIGNALED (W_EXITCODE ret sig) = (sig \<noteq> 0 \<and> sig \<noteq> 127)"
    using assms(2) m by (auto simp: WIFEXITED_iff WIFSIGNALED_iff word_unat_eq_iff)
  moreover have "WIFSTOPPED (W_STOPCODE ret)" by (simp add: WIFSTOPPED_iff t)
  moreover have "unat s mod 256 mod 128 = unat s mod 128" by (simp add: mod_mod_cancel)
  then have "WIFSTOPPED s \<longrightarrow> \<not> WIFEXITED s \<and> \<not> WIFSIGNALED s"
    by (auto simp: WIFEXITED_iff WIFSIGNALED_iff WIFSTOPPED_iff)
  moreover have "WIFEXITED s \<longrightarrow> \<not> WIFSIGNALED s" by (simp add: WIFEXITED_iff WIFSIGNALED_iff)
  ultimately show ?thesis by blast
qed

text \<open>
  C28. The parent of \<open>do_exec\<close>: when the arguments are there and \<open>fork\<close> gave the parent a process
  identifier, \<open>do_exec\<close> returns false when \<open>waitpid\<close> fails, and for a child that exited it returns
  whether the exit code was 0, as documented. For a child killed by a signal it returns true,
  although the comment promises false unless the command succeeded.
\<close>

theorem do_exec_parent:
  assumes "count \<le> length args" and "pid \<noteq> 0" and "pid \<noteq> - 1"
    and "unat code < 256" and "0 < unat sig" and "unat sig < 127"
  shows "do_exec (- 1) execv w count args = Inr (Return False) \<and>
         do_exec pid execv (\<lambda>_. (- 1, st)) count args = Inr (Return False) \<and>
         do_exec pid execv (\<lambda>p. (p, W_EXITCODE code 0)) count args = Inr (Return (code = 0)) \<and>
         do_exec pid execv (\<lambda>p. (p, W_EXITCODE 0 sig)) count args = Inr (Return True)"
proof -
  have "unat (W_EXITCODE code 0) = unat code * 256" "unat (W_EXITCODE 0 sig) = unat sig"
    using assms(4,6) or_low_byte [of 0 code] or_low_byte [of sig 0] by (simp_all add: W_EXITCODE_def)
  then have "WIFEXITED (W_EXITCODE code 0)" "WEXITSTATUS (W_EXITCODE code 0) = code"
    "\<not> WIFEXITED (W_EXITCODE 0 sig)"
    using assms(4-6) by (simp_all add: WIFEXITED_iff word_unat_eq_iff unat_WEXITSTATUS mod_mult_right_eq
        mod_mult_self2_is_0 [of "unat code * 2" 128, simplified])
  with assms(1-3) show ?thesis
    by (simp add: do_exec_def command_array_def wait_result_def Let_def)
qed

theorem do_exec_parent_witness:
  "do_exec 77 (\<lambda>_. None) (\<lambda>p. (p, W_EXITCODE 0 9)) 2 [Some ''/bin/sh'', Some ''-c''] = Inr (Return True) \<and>
   do_exec 77 (\<lambda>_. None) (\<lambda>p. (p, W_EXITCODE 1 0)) 2 [Some ''/bin/sh'', Some ''-c''] = Inr (Return False)"
  using do_exec_parent [of 2 "[Some ''/bin/sh'', Some ''-c'']" 77 1 9] by simp

text \<open>
  The child of \<open>do_exec\<close>: the command that runs gets the first three of its \<open>count\<close> arguments
  and no more; with fewer than two the code reads past the end of its own array. So the vector is
  the documented one exactly for two or three arguments.
\<close>

lemma do_exec_child:
  assumes "length args = count"
  shows "do_exec 0 (\<lambda>_. None) w count (map Some args) =
         (if count < 2 then Inl OutOfBounds else Inr (Exec (take 3 args)))"
proof -
  consider "args = []" | a where "args = [a]" | a b where "args = [a, b]"
    | a b c r where "args = a # b # c # r" by (metis list.exhaust)
  then show ?thesis
    using assms
    by cases (auto simp: do_exec_def command_array_def exec_or_exit_def exec_vector_def arr_read_def
        nth_append numeral_2_eq_2)
qed

text \<open>
  \<open>do_exec_redirect\<close> keeps the process identifier in 16 bits. A failed \<open>fork\<close> is not noticed:
  the function waits for process 65535 instead. A parent whose child has an identifier that is a
  multiple of 65536 takes the child's branch and behaves in every way as the child does.
\<close>

lemma do_exec_redirect_pid:
  assumes "count \<le> length args"
  shows "do_exec_redirect (- 1) fd fd2 execv w count args = Inr (Return (wait_result (w 65535))) \<and>
         do_exec_redirect (65536 * n) fd fd2 execv w count args =
           do_exec_redirect 0 fd fd2 execv w count args"
proof -
  have "ucast (65536 * n :: s32) = (0 :: u16)"
    by (simp add: word_unat_eq_iff unsigned_ucast_eq unat_word_ariths take_bit_eq_mod mod_mod_cancel)
  moreover have "(ucast (- 1 :: s32) :: u16) = 0xffff" by (simp add: unsigned_minus_1_eq_mask mask_eq_exp_minus_1)
  ultimately show ?thesis
    using assms by (simp add: do_exec_redirect_def command_array_def Let_def)
qed

text \<open>
  The child of \<open>do_exec_redirect\<close>: with three arguments, and the output file opened and
  duplicated, the command runs with exactly its arguments. Any other count leaves defined
  behaviour: fewer arguments are read past the end of the array, and with more the vector has no
  terminating null pointer. When the file cannot be opened or duplicated the child returns false
  to its caller instead of exiting, so both processes continue there.
\<close>

lemma do_exec_redirect_child:
  assumes "length args = count"
  shows "(fd \<noteq> - 1 \<and> fd2 \<noteq> - 1 \<longrightarrow>
            do_exec_redirect 0 fd fd2 (\<lambda>_. None) w count (map Some args) =
              (if count = 3 then Inr (Exec args) else Inl OutOfBounds)) \<and>
         (3 \<le> count \<and> (fd = - 1 \<or> fd2 = - 1) \<longrightarrow>
            do_exec_redirect 0 fd fd2 execv w count (map Some args) = Inr (Return False))"
proof -
  consider "args = []" | a where "args = [a]" | a b where "args = [a, b]" | a b c where "args = [a, b, c]"
    | a b c d r where "args = a # b # c # d # r" by (metis list.exhaust)
  then show ?thesis
    using assms
    by cases (auto simp: do_exec_redirect_def command_array_def exec_or_exit_def exec_vector_def
        arr_read_def nth_append numeral_2_eq_2 numeral_3_eq_3)
qed

end
