(* ===== verification/Small_Programs.thy ===== *)
theory Small_Programs
  imports Server_Threads System_Calls
begin

section \<open>The timestamp thread, the writer and the test stub\<close>

text \<open>
  Models the timestamp thread of \<^verbatim>\<open>server/aesdsocket.cpp\<close>, which is compiled when the server logs to
  an ordinary file, with its structure from \<^verbatim>\<open>server/timestamp.h\<close>; the program
  \<^verbatim>\<open>finder-app/writer.c\<close>; and the functions of \<^verbatim>\<open>examples/autotest-validate/autotest-validate.c\<close>.
\<close>

subsection \<open>Timestamps\<close>

definition BUFFER_LEN :: u8 where "BUFFER_LEN = 100"

record timestamp_args =
  sTimeStamp_RFC2822 :: "byte list"
  timestamp_len :: u8
  ts_mutex :: addr

text \<open>First expiry and interval of the timer, each in seconds and microseconds.\<close>

definition timestamp_timer :: "(nat \<times> nat) \<times> (nat \<times> nat)" where
  "timestamp_timer = ((0, 10), (10, 0))"

text \<open>\<open>args_ok\<close> and \<open>buf\<close> are the results of the two \<open>malloc\<close> calls; the length is kept in 8 bits.\<close>

definition timestamp_thread_init ::
    "bool \<Rightarrow> byte list option \<Rightarrow> u32 \<Rightarrow> addr \<Rightarrow> (timestamp_args \<times> ((nat \<times> nat) \<times> (nat \<times> nat))) result" where
  "timestamp_thread_init args_ok buf strLen mutex =
     (if \<not> args_ok then Inl NullDeref
      else case buf of
             None \<Rightarrow> Inl NullDeref
           | Some b \<Rightarrow> Inr (\<lparr>sTimeStamp_RFC2822 = b, timestamp_len = ucast strLen, ts_mutex = mutex\<rparr>,
                            timestamp_timer))"

definition strcat :: "byte list \<Rightarrow> byte list \<Rightarrow> byte list result" where
  "strcat dest src =
     res_bind (c_string dest) (\<lambda>cur.
       if length cur + length src + 1 \<le> length dest
       then Inr (cur @ src @ [0] @ drop (length cur + length src + 1) dest)
       else Inl OutOfBounds)"

text \<open>The bytes of \<open>timestamp:\<close>.\<close>

definition timestamp_prefix :: "byte list" where
  "timestamp_prefix = [116, 105, 109, 101, 115, 116, 97, 109, 112, 58]"

definition fileBufferSize :: nat where
  "fileBufferSize = length timestamp_prefix + unat BUFFER_LEN"

definition timestamp_text :: "byte list \<Rightarrow> byte list result" where
  "timestamp_text stamp =
     res_bind (strcat (received fileBufferSize []) timestamp_prefix) (\<lambda>b.
     res_bind (strcat b stamp) (\<lambda>b. strcat b [10]))"

datatype ts_outcome = Sleep | Ended | Exit_process

record 'd ts_state =
  ts_k :: u8
  sigAlrmFlag :: bool
  ts_file :: 'd

text \<open>
  One round. \<open>stamp\<close> is \<open>None\<close> when \<open>localtime\<close> failed and otherwise the string \<open>strftime\<close>
  produced; \<open>locks\<close> and \<open>unlocks\<close> are the results of the mutex calls, \<open>opened\<close> whether \<open>fopen\<close> worked.
\<close>

definition timestamp_thread ::
    "'d logdev \<Rightarrow> bool \<Rightarrow> byte list option \<Rightarrow> (nat \<Rightarrow> s32) \<Rightarrow> (nat \<Rightarrow> s32) \<Rightarrow> bool \<Rightarrow> 'd ts_state \<Rightarrow>
       (ts_outcome \<times> 'd ts_state) result" where
  "timestamp_thread D terminating stamp locks unlocks opened st =
     (if terminating then Inr (Ended, st)
      else if \<not> sigAlrmFlag st then Inr (Sleep, st)
      else let st = st\<lparr>sigAlrmFlag := False\<rparr> in
        case stamp of
          None \<Rightarrow> Inr (Ended, st)
        | Some s \<Rightarrow>
            res_bind (timestamp_text s) (\<lambda>buf.
            let (mutexRes, k, _) = mutex_retry locks 20 (ts_k st) in
            if mutexRes \<noteq> 0 then Inr (Sleep, st\<lparr>ts_k := k\<rparr>)
            else if \<not> opened then Inr (Exit_process, st\<lparr>ts_k := 0\<rparr>)
            else res_bind (c_string buf) (\<lambda>out.
              let (_, k, _) = mutex_retry unlocks 20 0 in
              Inr (Sleep, st\<lparr>ts_k := k, ts_file := log_append D out (ts_file st)\<rparr>))))"

subsection \<open>The writer\<close>

text \<open>
  \<open>argv\<close> without its terminating null pointer; \<open>fopen\<close> says whether the path can be opened for
  writing, which truncates the file. The result is the exit status and the files.
\<close>

definition writer_main ::
    "string list \<Rightarrow> (string \<Rightarrow> bool) \<Rightarrow> (string \<rightharpoonup> string) \<Rightarrow> (s32 \<times> (string \<rightharpoonup> string)) result" where
  "writer_main argv fopen fs =
     (if length argv < 2 then Inr (1, fs)
      else let path = argv ! 1 in
        if fopen path
        then (if length argv = 2 then Inl NullDeref else Inr (0, fs(path \<mapsto> argv ! 2)))
        else Inr (1, fs))"

subsection \<open>The test stub\<close>

definition this_function_returns_true :: bool where
  "this_function_returns_true \<longleftrightarrow> True"

definition this_function_returns_false :: bool where
  "this_function_returns_false \<longleftrightarrow> False"

definition my_username :: string where
  "my_username = ''todo-please-enter-your-username-here-in-my_username''"

subsection \<open>Lemmas\<close>

lemma strcat_received:
  assumes "length xs + length ys < n" and "0 \<notin> set xs"
  shows "strcat (received n xs) ys = Inr (received n (xs @ ys))"
proof -
  have c: "c_string (received n xs) = Inr xs" using assms by (intro c_string_received) auto
  have "n - length xs = length ys + Suc (n - length xs - length ys - 1)" using assms(1) by simp
  then obtain m where m: "n - length xs = length ys + Suc m" ..
  then have "drop (length xs + length ys + 1) (received n xs) = replicate m 0"
    by (simp add: received_def)
  moreover have "n - length (xs @ ys) = Suc m" using m by simp
  ultimately show ?thesis using c assms(1) by (simp add: strcat_def received_def)
qed

text \<open>
  A due timestamp is logged: when the alarm came and the mutex, the clock and the file work, one
  round appends exactly the line \<open>timestamp:\<close> with the formatted time, and the fixed buffer is large
  enough for every stamp of up to 98 bytes.
\<close>

lemma timestamp_logged:
  assumes "sigAlrmFlag st" and "0 \<notin> set stamp" and "length stamp \<le> 98" and "locks 0 = 0" and "unlocks 0 = 0"
  shows "timestamp_thread D False (Some stamp) locks unlocks True st =
    Inr (Sleep, st\<lparr>sigAlrmFlag := False, ts_k := 0,
      ts_file := log_append D (timestamp_prefix @ stamp @ [10]) (ts_file st)\<rparr>)"
proof -
  have n: "fileBufferSize = 110" by (simp add: fileBufferSize_def timestamp_prefix_def BUFFER_LEN_def)
  have p: "length timestamp_prefix = 10" "0 \<notin> set timestamp_prefix" by (simp_all add: timestamp_prefix_def)
  have "strcat (received 110 []) timestamp_prefix = Inr (received 110 timestamp_prefix)"
    using strcat_received [of "[]" timestamp_prefix 110] p by simp
  moreover have "strcat (received 110 timestamp_prefix) stamp = Inr (received 110 (timestamp_prefix @ stamp))"
    using assms(3) p by (intro strcat_received) auto
  moreover have "strcat (received 110 (timestamp_prefix @ stamp)) [10] =
      Inr (received 110 (timestamp_prefix @ stamp @ [10]))"
    using strcat_received [of "timestamp_prefix @ stamp" "[10]" 110] assms(2,3) p by simp
  ultimately have t: "timestamp_text stamp = Inr (received 110 (timestamp_prefix @ stamp @ [10]))"
    by (simp add: timestamp_text_def n)
  have "c_string (received 110 (timestamp_prefix @ stamp @ [10])) = Inr (timestamp_prefix @ stamp @ [10])"
    using assms(2,3) p by (intro c_string_received) auto
  with t assms show ?thesis by (simp add: timestamp_thread_def mutex_retry_def Let_def)
qed

text \<open>
  The writer: with a path and a text it stores exactly the text and returns 0, or returns 1 and
  changes nothing when the file cannot be opened; without arguments it returns 1. With a path and
  no text the check lets it through and the missing argument is dereferenced.
\<close>

lemma writer_cases:
  "writer_main [] fopen fs = Inr (1, fs)" "writer_main [p] fopen fs = Inr (1, fs)"
  "writer_main [p, path] fopen fs = (if fopen path then Inl NullDeref else Inr (1, fs))"
  "writer_main (p # path # t # r) fopen fs = (if fopen path then Inr (0, fs(path \<mapsto> t)) else Inr (1, fs))"
  by (simp_all add: writer_main_def Let_def)

end
