(* ===== verification/Cec_Message.thy ===== *)
theory Cec_Message
  imports Aesd_Prelude
begin

section \<open>CEC messages: the structure and its accessors\<close>

text \<open>
  The message structure of \<open>linux/cec.h\<close>, one of the kernel headers vendored under
  \<open>src/finder-app/arm64_libc\<close>, with the inline functions of that header: initialisation, the
  addresses and the opcode, the reply addresses, the status test and the tests on logical
  addresses. The codec of \<open>linux/cec-funcs.h\<close>, one pair of a \<open>cec_msg_X\<close> encoder and a
  \<open>cec_ops_X\<close> decoder per message, is in the theories that import this one.

  Expressions are computed as C does: operands are promoted to 32 bits (\<open>to_int\<close>) and the value
  is cut to the width of what it is assigned to (\<open>to_u8\<close>, \<open>to_u16\<close>). All promoted operands are
  non-negative and no intermediate value reaches bit 31, so signed and unsigned shifts, divisions
  and comparisons agree. The payload \<open>msg[16]\<close> is a list whose length is the invariant \<open>cec_wf\<close>. A store
  outside it is undefined in C; the model records it in a field of its own, \<open>cm_overrun\<close>, that no store
  and no function resets but the one that initialises the structure.

  The interface locale \<open>cec_codec\<close> says what an encoder and its decoder promise each other; its
  lemmas show that what one device encodes is what another one decodes from the frame, that is,
  from the first \<open>len\<close> bytes of the payload, whatever the rest of the receiver's buffer holds.
\<close>

unbundle bit_operations_syntax

subsection \<open>Promotion and truncation\<close>

definition to_int :: "'a::len word \<Rightarrow> u32" where
  "to_int x = ucast x"

definition to_u8 :: "u32 \<Rightarrow> u8" where
  "to_u8 x = ucast x"

definition to_u16 :: "u32 \<Rightarrow> u16" where
  "to_u16 x = ucast x"

text \<open>The value of a C condition.\<close>

definition c_bool :: "bool \<Rightarrow> u32" where
  "c_bool b = (if b then 1 else 0)"

subsection \<open>The structure\<close>

named_theorems cec_const \<open>values of the macros of linux/cec.h\<close>
named_theorems cec_msgs \<open>definitions of the encoders\<close>
named_theorems cec_ops \<open>definitions of the decoders\<close>

definition CEC_MAX_MSG_SIZE :: nat where
  [cec_const]: "CEC_MAX_MSG_SIZE = 16"

record cec_msg =
  cm_tx_ts :: u64
  cm_rx_ts :: u64
  cm_len :: u32
  cm_timeout :: u32
  cm_sequence :: u32
  cm_flags :: u32
  cm_msg :: "u8 list"
  cm_reply :: u8
  cm_rx_status :: u8
  cm_tx_status :: u8
  cm_tx_arb_lost_cnt :: u8
  cm_tx_nack_cnt :: u8
  cm_tx_low_drive_cnt :: u8
  cm_tx_error_cnt :: u8
  cm_overrun :: bool

definition cec_wf :: "cec_msg \<Rightarrow> bool" where
  "cec_wf m = (length (cm_msg m) = CEC_MAX_MSG_SIZE)"

text \<open>\<open>msg->msg[i]\<close> read at an index below 16, and assigned.\<close>

definition msg_at :: "cec_msg \<Rightarrow> nat \<Rightarrow> u8" where
  "msg_at m i = cm_msg m ! i"

definition msg_put :: "cec_msg \<Rightarrow> nat \<Rightarrow> u8 \<Rightarrow> cec_msg" where
  "msg_put m i v =
     (if i < length (cm_msg m) then m\<lparr>cm_msg := (cm_msg m)[i := v]\<rparr> else m\<lparr>cm_overrun := True\<rparr>)"

text \<open>
  \<open>msg->msg[msg->len++] = v\<close>, and \<open>memcpy\<close> into the payload and out of it into a string buffer that
  is then terminated; copying past the end of either array is a fault.
\<close>

definition msg_push :: "cec_msg \<Rightarrow> u8 \<Rightarrow> cec_msg" where
  "msg_push m v = (msg_put m (unat (cm_len m)) v)\<lparr>cm_len := cm_len m + 1\<rparr>"

definition msg_copy :: "cec_msg \<Rightarrow> nat \<Rightarrow> u8 list \<Rightarrow> nat \<Rightarrow> cec_msg result" where
  "msg_copy m off src n =
     res_bind (mem_read src 0 n) (\<lambda>bs.
     res_bind (mem_write (cm_msg m) off bs) (\<lambda>payload. Inr (m\<lparr>cm_msg := payload\<rparr>)))"

definition copy_string :: "cec_msg \<Rightarrow> nat \<Rightarrow> nat \<Rightarrow> u8 list \<Rightarrow> u8 list result" where
  "copy_string m off n buf =
     res_bind (mem_read (cm_msg m) off n) (\<lambda>bs.
     res_bind (mem_write buf 0 bs) (\<lambda>buf. arr_write buf n 0))"

definition cec_msg_initiator :: "cec_msg \<Rightarrow> u8" where
  "cec_msg_initiator m = to_u8 (drop_bit 4 (to_int (msg_at m 0)))"

definition cec_msg_destination :: "cec_msg \<Rightarrow> u8" where
  "cec_msg_destination m = to_u8 (to_int (msg_at m 0) AND 0xf)"

definition cec_msg_opcode :: "cec_msg \<Rightarrow> s32" where
  "cec_msg_opcode m = (if cm_len m > 1 then to_int (msg_at m 1) else - 1)"

definition cec_msg_is_broadcast :: "cec_msg \<Rightarrow> s32" where
  "cec_msg_is_broadcast m = c_bool (to_int (msg_at m 0) AND 0xf = 0xf)"

definition cec_msg_zero :: cec_msg where
  "cec_msg_zero =
     \<lparr>cm_tx_ts = 0, cm_rx_ts = 0, cm_len = 0, cm_timeout = 0, cm_sequence = 0, cm_flags = 0,
      cm_msg = replicate CEC_MAX_MSG_SIZE 0, cm_reply = 0, cm_rx_status = 0, cm_tx_status = 0,
      cm_tx_arb_lost_cnt = 0, cm_tx_nack_cnt = 0, cm_tx_low_drive_cnt = 0, cm_tx_error_cnt = 0, cm_overrun = False\<rparr>"

definition cec_msg_init :: "cec_msg \<Rightarrow> u8 \<Rightarrow> u8 \<Rightarrow> cec_msg" where
  "cec_msg_init m initiator destination =
     (let m = cec_msg_zero;
          m = msg_put m 0 (to_u8 (push_bit 4 (to_int initiator) OR to_int destination));
          m = m\<lparr>cm_len := 1\<rparr>
      in m)"

definition cec_msg_set_reply_to :: "cec_msg \<Rightarrow> cec_msg \<Rightarrow> cec_msg" where
  "cec_msg_set_reply_to m orig =
     (let m = msg_put m 0
                (to_u8 (push_bit 4 (to_int (cec_msg_destination orig)) OR to_int (cec_msg_initiator orig)));
          m = m\<lparr>cm_timeout := 0\<rparr>;
          m = m\<lparr>cm_reply := 0\<rparr>
      in m)"

definition CEC_TX_STATUS_OK :: u32 where
  [cec_const]: "CEC_TX_STATUS_OK = 1"

definition CEC_RX_STATUS_OK :: u32 where
  [cec_const]: "CEC_RX_STATUS_OK = 1"

definition CEC_RX_STATUS_FEATURE_ABORT :: u32 where
  [cec_const]: "CEC_RX_STATUS_FEATURE_ABORT = 4"

definition cec_msg_status_is_ok :: "cec_msg \<Rightarrow> s32" where
  "cec_msg_status_is_ok m =
     (if cm_tx_status m \<noteq> 0 \<and> to_int (cm_tx_status m) AND CEC_TX_STATUS_OK = 0 then 0
      else if cm_rx_status m \<noteq> 0 \<and> to_int (cm_rx_status m) AND CEC_RX_STATUS_OK = 0 then 0
      else if cm_tx_status m = 0 \<and> cm_rx_status m = 0 then 0
      else c_bool (to_int (cm_rx_status m) AND CEC_RX_STATUS_FEATURE_ABORT = 0))"

subsection \<open>Logical addresses\<close>

definition CEC_LOG_ADDR_BACKUP_1 :: u8 where
  [cec_const]: "CEC_LOG_ADDR_BACKUP_1 = 12"

definition CEC_LOG_ADDR_SPECIFIC :: u8 where
  [cec_const]: "CEC_LOG_ADDR_SPECIFIC = 14"

definition CEC_LOG_ADDR_UNREGISTERED :: u8 where
  [cec_const]: "CEC_LOG_ADDR_UNREGISTERED = 15"

definition CEC_LOG_ADDR_MASK_TV :: u32 where
  [cec_const]: "CEC_LOG_ADDR_MASK_TV = push_bit 0 1"

definition CEC_LOG_ADDR_MASK_RECORD :: u32 where
  [cec_const]: "CEC_LOG_ADDR_MASK_RECORD = (push_bit 1 1 OR push_bit 2 1) OR push_bit 9 1"

definition CEC_LOG_ADDR_MASK_TUNER :: u32 where
  [cec_const]: "CEC_LOG_ADDR_MASK_TUNER =
     ((push_bit 3 1 OR push_bit 6 1) OR push_bit 7 1) OR push_bit 10 1"

definition CEC_LOG_ADDR_MASK_PLAYBACK :: u32 where
  [cec_const]: "CEC_LOG_ADDR_MASK_PLAYBACK = (push_bit 4 1 OR push_bit 8 1) OR push_bit 11 1"

definition CEC_LOG_ADDR_MASK_AUDIOSYSTEM :: u32 where
  [cec_const]: "CEC_LOG_ADDR_MASK_AUDIOSYSTEM = push_bit 5 1"

definition CEC_LOG_ADDR_MASK_BACKUP :: u32 where
  [cec_const]: "CEC_LOG_ADDR_MASK_BACKUP = push_bit 12 1 OR push_bit 13 1"

definition CEC_LOG_ADDR_MASK_SPECIFIC :: u32 where
  [cec_const]: "CEC_LOG_ADDR_MASK_SPECIFIC = push_bit 14 1"

definition CEC_LOG_ADDR_MASK_UNREGISTERED :: u32 where
  [cec_const]: "CEC_LOG_ADDR_MASK_UNREGISTERED = push_bit 15 1"

definition cec_has_tv :: "u16 \<Rightarrow> s32" where
  "cec_has_tv log_addr_mask = to_int log_addr_mask AND CEC_LOG_ADDR_MASK_TV"

definition cec_has_record :: "u16 \<Rightarrow> s32" where
  "cec_has_record log_addr_mask = to_int log_addr_mask AND CEC_LOG_ADDR_MASK_RECORD"

definition cec_has_tuner :: "u16 \<Rightarrow> s32" where
  "cec_has_tuner log_addr_mask = to_int log_addr_mask AND CEC_LOG_ADDR_MASK_TUNER"

definition cec_has_playback :: "u16 \<Rightarrow> s32" where
  "cec_has_playback log_addr_mask = to_int log_addr_mask AND CEC_LOG_ADDR_MASK_PLAYBACK"

definition cec_has_audiosystem :: "u16 \<Rightarrow> s32" where
  "cec_has_audiosystem log_addr_mask = to_int log_addr_mask AND CEC_LOG_ADDR_MASK_AUDIOSYSTEM"

definition cec_has_backup :: "u16 \<Rightarrow> s32" where
  "cec_has_backup log_addr_mask = to_int log_addr_mask AND CEC_LOG_ADDR_MASK_BACKUP"

definition cec_has_specific :: "u16 \<Rightarrow> s32" where
  "cec_has_specific log_addr_mask = to_int log_addr_mask AND CEC_LOG_ADDR_MASK_SPECIFIC"

definition cec_is_unregistered :: "u16 \<Rightarrow> s32" where
  "cec_is_unregistered log_addr_mask = to_int log_addr_mask AND CEC_LOG_ADDR_MASK_UNREGISTERED"

definition cec_is_unconfigured :: "u16 \<Rightarrow> s32" where
  "cec_is_unconfigured log_addr_mask = c_bool (to_int log_addr_mask = 0)"

definition CEC_MAX_LOG_ADDRS :: nat where
  [cec_const]: "CEC_MAX_LOG_ADDRS = 4"

record cec_log_addrs =
  la_log_addr :: "u8 list"
  la_log_addr_mask :: u16
  la_cec_version :: u8
  la_num_log_addrs :: u8
  la_vendor_id :: u32
  la_flags :: u32
  la_osd_name :: "u8 list"
  la_primary_device_type :: "u8 list"
  la_log_addr_type :: "u8 list"
  la_all_device_types :: "u8 list"
  la_features :: "u8 list list"

definition cec_las_wf :: "cec_log_addrs \<Rightarrow> bool" where
  "cec_las_wf las =
     (length (la_log_addr las) = CEC_MAX_LOG_ADDRS \<and> length (la_osd_name las) = 15 \<and>
      length (la_primary_device_type las) = CEC_MAX_LOG_ADDRS \<and>
      length (la_log_addr_type las) = CEC_MAX_LOG_ADDRS \<and>
      length (la_all_device_types las) = CEC_MAX_LOG_ADDRS \<and>
      length (la_features las) = CEC_MAX_LOG_ADDRS \<and> (\<forall>f \<in> set (la_features las). length f = 12))"

definition CEC_LOG_ADDRS_FL_CDC_ONLY :: u32 where
  [cec_const]: "CEC_LOG_ADDRS_FL_CDC_ONLY = push_bit 2 1"

definition CEC_OP_PRIM_DEVTYPE_TV :: u8 where
  [cec_const]: "CEC_OP_PRIM_DEVTYPE_TV = 0"

definition CEC_OP_PRIM_DEVTYPE_SWITCH :: u8 where
  [cec_const]: "CEC_OP_PRIM_DEVTYPE_SWITCH = 6"

definition CEC_OP_PRIM_DEVTYPE_PROCESSOR :: u8 where
  [cec_const]: "CEC_OP_PRIM_DEVTYPE_PROCESSOR = 7"

definition cec_is_2nd_tv :: "cec_log_addrs \<Rightarrow> s32" where
  "cec_is_2nd_tv las =
     c_bool (la_num_log_addrs las \<noteq> 0 \<and>
             la_log_addr las ! 0 \<ge> CEC_LOG_ADDR_SPECIFIC \<and>
             la_primary_device_type las ! 0 = CEC_OP_PRIM_DEVTYPE_TV)"

definition cec_is_processor :: "cec_log_addrs \<Rightarrow> s32" where
  "cec_is_processor las =
     c_bool (la_num_log_addrs las \<noteq> 0 \<and>
             la_log_addr las ! 0 \<ge> CEC_LOG_ADDR_BACKUP_1 \<and>
             la_primary_device_type las ! 0 = CEC_OP_PRIM_DEVTYPE_PROCESSOR)"

definition cec_is_switch :: "cec_log_addrs \<Rightarrow> s32" where
  "cec_is_switch las =
     c_bool (la_num_log_addrs las = 1 \<and>
             la_log_addr las ! 0 = CEC_LOG_ADDR_UNREGISTERED \<and>
             la_primary_device_type las ! 0 = CEC_OP_PRIM_DEVTYPE_SWITCH \<and>
             la_flags las AND CEC_LOG_ADDRS_FL_CDC_ONLY = 0)"

definition cec_is_cdc_only :: "cec_log_addrs \<Rightarrow> s32" where
  "cec_is_cdc_only las =
     c_bool (la_num_log_addrs las = 1 \<and>
             la_log_addr las ! 0 = CEC_LOG_ADDR_UNREGISTERED \<and>
             la_primary_device_type las ! 0 = CEC_OP_PRIM_DEVTYPE_SWITCH \<and>
             la_flags las AND CEC_LOG_ADDRS_FL_CDC_ONLY \<noteq> 0)"

subsection \<open>Frames\<close>

text \<open>
  What is transmitted of a message is its frame, the first \<open>len\<close> bytes of the payload. A receiver
  holds the message when its structure has the same length and frame; its other bytes and fields
  are its own.
\<close>

definition cec_frame :: "cec_msg \<Rightarrow> u8 list" where
  "cec_frame m = take (unat (cm_len m)) (cm_msg m)"

definition cec_delivered :: "cec_msg \<Rightarrow> cec_msg \<Rightarrow> bool" where
  "cec_delivered m m' = (cec_wf m' \<and> cm_len m' = cm_len m \<and> cec_frame m' = cec_frame m)"

text \<open>
  The contracts. An encoder keeps the structure well-formed and, for the arguments that fit its
  format (\<open>ok\<close>), puts its opcode into byte 1, makes a frame of 2 to 16 bytes and leaves the
  initiator's address alone. A codec is an encoder with a decoder that returns what was encoded
  (\<open>view\<close> is the part of the arguments that travels) and that reads nothing outside the frame.
\<close>

locale cec_encoder =
  fixes enc :: "'a \<Rightarrow> cec_msg \<Rightarrow> cec_msg"
    and opcode :: u8
    and ok :: "'a \<Rightarrow> bool"
  assumes enc_wf: "cec_wf m \<Longrightarrow> cec_wf (enc a m)"
    and enc_opcode: "cec_wf m \<Longrightarrow> ok a \<Longrightarrow> msg_at (enc a m) 1 = opcode"
    and enc_len: "cec_wf m \<Longrightarrow> ok a \<Longrightarrow> 2 \<le> unat (cm_len (enc a m)) \<and> unat (cm_len (enc a m)) \<le> 16"
    and enc_initiator: "cec_wf m \<Longrightarrow> ok a \<Longrightarrow> cec_msg_initiator (enc a m) = cec_msg_initiator m"

locale cec_codec = cec_encoder enc opcode ok
  for enc :: "'a \<Rightarrow> cec_msg \<Rightarrow> cec_msg" and opcode :: u8 and ok :: "'a \<Rightarrow> bool" +
  fixes dec :: "cec_msg \<Rightarrow> 'b"
    and view :: "'a \<Rightarrow> 'b"
  assumes dec_enc: "cec_wf m \<Longrightarrow> ok a \<Longrightarrow> dec (enc a m) = view a"
    and dec_frame: "cec_wf m \<Longrightarrow> ok a \<Longrightarrow> cec_delivered (enc a m) m' \<Longrightarrow> dec m' = dec (enc a m)"

subsection \<open>Lemmas on the structure\<close>

lemma cec_wf_upd [simp]:
  "cec_wf (msg_put m i v) = cec_wf m"
  "cec_wf (m\<lparr>cm_len := n\<rparr>) = cec_wf m"
  "cec_wf (m\<lparr>cm_reply := r\<rparr>) = cec_wf m"
  "cec_wf (m\<lparr>cm_timeout := t\<rparr>) = cec_wf m"
  by (simp_all add: cec_wf_def msg_put_def)

lemma msg_put_fields [simp]:
  "cm_len (msg_put m i v) = cm_len m"
  "cm_reply (msg_put m i v) = cm_reply m"
  "cm_timeout (msg_put m i v) = cm_timeout m"
  by (simp_all add: msg_put_def)

lemma msg_put_overrun [simp]: "cec_wf m \<Longrightarrow> cm_overrun (msg_put m i v) \<longleftrightarrow> cm_overrun m \<or> 16 \<le> i"
  by (auto simp: msg_put_def cec_wf_def cec_const)

lemma cec_zero_overrun [simp]: "\<not> cm_overrun cec_msg_zero"
  by (simp add: cec_msg_zero_def)

lemma msg_at_fields [simp]:
  "msg_at (m\<lparr>cm_len := n\<rparr>) i = msg_at m i"
  "msg_at (m\<lparr>cm_reply := r\<rparr>) i = msg_at m i"
  "msg_at (m\<lparr>cm_timeout := t\<rparr>) i = msg_at m i"
  by (simp_all add: msg_at_def)

lemma msg_at_put_other [simp]: "i \<noteq> j \<Longrightarrow> msg_at (msg_put m i v) j = msg_at m j"
  by (simp add: msg_at_def msg_put_def)

lemma msg_at_put_same [simp]: "cec_wf m \<Longrightarrow> i < 16 \<Longrightarrow> msg_at (msg_put m i v) i = v"
  by (simp add: msg_at_def msg_put_def cec_wf_def cec_const)

lemma cec_wf_zero [simp]: "cec_wf cec_msg_zero"
  by (simp add: cec_wf_def cec_msg_zero_def)

lemma c_bool_iff [simp]: "c_bool b = 0 \<longleftrightarrow> \<not> b" "c_bool b = 1 \<longleftrightarrow> b"
  by (simp_all add: c_bool_def)

lemma cec_delivered_at:
  assumes "cec_delivered m m'" "i < unat (cm_len m)"
  shows "msg_at m' i = msg_at m i"
proof -
  from assms(1) have "take (unat (cm_len m)) (cm_msg m') = take (unat (cm_len m)) (cm_msg m)"
    by (auto simp: cec_delivered_def cec_frame_def)
  then have "take (unat (cm_len m)) (cm_msg m') ! i = take (unat (cm_len m)) (cm_msg m) ! i" by simp
  with assms(2) show ?thesis by (simp add: msg_at_def)
qed

lemma cec_delivered_len: "cec_delivered m m' \<Longrightarrow> cm_len m' = cm_len m"
  by (simp add: cec_delivered_def)

lemma cec_delivered_reply [simp]: "cec_delivered (m\<lparr>cm_reply := r\<rparr>) m' = cec_delivered m m'"
  by (simp add: cec_delivered_def cec_frame_def)

lemma cec_delivered_refl: "cec_wf m \<Longrightarrow> cec_delivered m m"
  by (simp add: cec_delivered_def)

subsection \<open>Copying strings\<close>

lemma msg_copy_ok:
  assumes "cec_wf m" "off + n \<le> 16" "n \<le> length src"
  shows "msg_copy m off src n =
    Inr (m\<lparr>cm_msg := take off (cm_msg m) @ take n src @ drop (off + n) (cm_msg m)\<rparr>)"
  using assms by (simp add: msg_copy_def mem_read_def mem_write_def cec_wf_def cec_const)

lemma msg_copy_short: "length src < n \<Longrightarrow> msg_copy m off src n = Inl OutOfBounds"
  by (simp add: msg_copy_def mem_read_def)

lemma copy_string_ok:
  assumes "cec_wf m" "off + n \<le> 16" "n < length buf"
  shows "copy_string m off n buf = Inr (take n (drop off (cm_msg m)) @ 0 # drop (Suc n) buf)"
proof -
  have n: "length (take n (drop off (cm_msg m))) = n"
    using assms(1,2) by (simp add: cec_wf_def cec_const)
  then have "mem_write buf 0 (take n (drop off (cm_msg m))) =
      Inr (take n (drop off (cm_msg m)) @ drop n buf)"
    using assms(3) by (simp add: mem_write_def)
  moreover have "(take n (drop off (cm_msg m)) @ drop n buf)[n := 0] =
      take n (drop off (cm_msg m)) @ 0 # drop (Suc n) buf"
    using assms(3) n by (simp add: list_update_append Cons_nth_drop_Suc [symmetric])
  ultimately show ?thesis
    using assms n by (simp add: copy_string_def mem_read_def cec_wf_def cec_const arr_write_def)
qed

lemma copy_string_short:
  assumes "cec_wf m" "off + n \<le> 16" "length buf \<le> n"
  shows "copy_string m off n buf = Inl OutOfBounds"
proof (cases "length buf = n")
  case True
  with assms show ?thesis
    by (simp add: copy_string_def mem_read_def mem_write_def cec_wf_def cec_const)
next
  case False
  with assms show ?thesis
    by (simp add: copy_string_def mem_read_def mem_write_def cec_wf_def cec_const)
qed

lemma cec_frame_payload: "cec_frame (m\<lparr>cm_msg := p\<rparr>) = take (unat (cm_len m)) p"
  by (simp add: cec_frame_def)

text \<open>The bytes copied into a frame that ends with them are those a receiver finds there.\<close>

lemma payload_delivered:
  assumes "cec_wf m" "off + n \<le> 16" "n \<le> length src" "unat (cm_len m) = off + n"
    and "cec_delivered (m\<lparr>cm_msg := take off (cm_msg m) @ take n src @ drop (off + n) (cm_msg m)\<rparr>) m'"
  shows "take n (drop off (cm_msg m')) = take n src"
proof -
  let ?p = "take off (cm_msg m) @ take n src @ drop (off + n) (cm_msg m)"
  from assms(5) have len: "cm_len m' = cm_len m" by (simp add: cec_delivered_def)
  have "cec_frame m' = cec_frame (m\<lparr>cm_msg := ?p\<rparr>)" using assms(5) by (simp only: cec_delivered_def)
  then have "take (off + n) (cm_msg m') = take (off + n) ?p"
    by (simp only: cec_frame_payload) (simp only: cec_frame_def len assms(4))
  moreover have "length (take off (cm_msg m)) = off" "length (take n src) = n"
    using assms(1,2,3) by (simp_all add: cec_wf_def cec_const)
  ultimately have "drop off (take (off + n) (cm_msg m')) = take n src" by simp
  then show ?thesis by (simp add: drop_take)
qed

lemma string_delivered:
  assumes "cec_wf m" "off + n \<le> 16" "n \<le> length src" "unat (cm_len m) = off + n"
    and "cec_delivered (m\<lparr>cm_msg := take off (cm_msg m) @ take n src @ drop (off + n) (cm_msg m)\<rparr>) m'"
    and "n < length buf"
  shows "copy_string m' off n buf = Inr (take n src @ 0 # drop (Suc n) buf)"
proof -
  have "cec_wf m'" using assms(5) by (simp add: cec_delivered_def)
  then show ?thesis using copy_string_ok [of m' off n buf] payload_delivered [OF assms(1-5)] assms(2,6) by simp
qed

lemma msg_copy_keeps:
  assumes "cec_wf m" "off \<le> 16" "i < off"
  shows "msg_at (m\<lparr>cm_msg := take off (cm_msg m) @ bs\<rparr>) i = msg_at m i"
  using assms by (simp add: msg_at_def nth_append cec_wf_def cec_const)

lemma clamped_len:
  assumes "n < 2 ^ 32"
  shows "unat (if (of_nat n :: u32) > k then k else of_nat n) = min n (unat k)"
proof -
  have "unat (of_nat n :: u32) = n" using assms by (intro unat_of_nat_small) simp
  then show ?thesis by (auto simp: word_less_nat_alt)
qed

lemma string_len_encoded:
  assumes "n < 2 ^ 32" "unat off + unat k = 16"
  shows "unat (off + (if (of_nat n :: u32) > k then k else of_nat n)) = unat off + min n (unat k)"
  using clamped_len [OF assms(1), of k] assms(2) by (subst unat_add_small) auto

lemma string_len_decoded:
  fixes L off k :: u32
  assumes "unat L = unat off + n" "n \<le> unat k"
  shows "unat (if (if L > off then L - off else 0) > k then k else (if L > off then L - off else 0)) = n"
  using assms by (auto simp: word_less_nat_alt unat_sub_small)

text \<open>A string of which at most \<open>k\<close> bytes are sent from index \<open>off\<close> on.\<close>

lemma string_codec:
  assumes "cec_wf m" "off + k = 16" "unat (cm_len m) = off + min (length s) k"
  shows "\<exists>e. msg_copy m off (s @ 0 # rest) (min (length s) k) = Inr e \<and> cec_wf e \<and>
    cm_len e = cm_len m \<and> (\<forall>i < off. msg_at e i = msg_at m i) \<and>
    (\<forall>m' buf. cec_delivered e m' \<and> k < length buf \<longrightarrow>
       unat (cm_len m') = off + min (length s) k \<and>
       copy_string m' off (min (length s) k) buf = Inr (take k s @ 0 # drop (Suc (min (length s) k)) buf))"
proof -
  let ?n = "min (length s) k" and ?src = "s @ 0 # rest"
  let ?e = "m\<lparr>cm_msg := take off (cm_msg m) @ take ?n ?src @ drop (off + ?n) (cm_msg m)\<rparr>"
  have n: "off + ?n \<le> 16" "?n \<le> length ?src" using assms(2) by auto
  have t: "take ?n ?src = take k s" by (simp add: min_def)
  have "cec_wf ?e" using assms(1,2) by (simp add: cec_wf_def cec_const)
  moreover have "\<forall>i < off. msg_at ?e i = msg_at m i" using msg_copy_keeps [OF assms(1)] assms(2) by simp
  moreover have "copy_string m' off ?n buf = Inr (take k s @ 0 # drop (Suc ?n) buf)"
    "unat (cm_len m') = off + ?n"
    if "cec_delivered ?e m'" "k < length buf" for m' buf
    using string_delivered [OF assms(1) n assms(3) that(1), of buf] that t assms(3)
    by (simp_all add: cec_delivered_len)
  ultimately show ?thesis using msg_copy_ok [OF assms(1) n] by (intro exI [of _ ?e]) auto
qed

text \<open>
  A message that carries a string: \<open>g len\<close> is the structure before \<open>len\<close> bytes of the string are
  copied to index \<open>off\<close>, and the decoder copies what lies between \<open>off\<close> and the message's length.
\<close>

lemma string_message:
  fixes off k :: u32
  assumes "length s < 2 ^ 32" "unat off + unat k = 16"
    and g: "\<And>len. cec_wf (g len)" "\<And>len. cm_len (g len) = off + len"
  shows "\<exists>e. (let len = of_nat (length s); len = (if len > k then k else len)
      in msg_copy (g len) (unat off) (s @ 0 # rest) (unat len)) = Inr e \<and>
    (\<forall>m' buf. cec_delivered e m' \<and> unat k < length buf \<longrightarrow>
       (let len = (if cm_len m' > off then cm_len m' - off else 0); len = (if len > k then k else len)
        in copy_string m' (unat off) (unat len) buf) =
       Inr (take (unat k) s @ 0 # drop (Suc (min (length s) (unat k))) buf) \<and>
       (\<forall>i < unat off. msg_at m' i = msg_at (g (if of_nat (length s) > k then k else of_nat (length s))) i))"
proof -
  let ?l = "if (of_nat (length s) :: u32) > k then k else of_nat (length s)"
  let ?n = "min (length s) (unat k)"
  have l: "unat ?l = ?n" by (rule clamped_len [OF assms(1)])
  have len: "unat (cm_len (g ?l)) = unat off + ?n"
    unfolding g(2) by (rule string_len_encoded [OF assms(1,2)])
  obtain e where e: "msg_copy (g ?l) (unat off) (s @ 0 # rest) ?n = Inr e" "cm_len e = cm_len (g ?l)"
    and at: "\<forall>i < unat off. msg_at e i = msg_at (g ?l) i"
    and d: "\<And>m' buf. cec_delivered e m' \<Longrightarrow> unat k < length buf \<Longrightarrow>
      unat (cm_len m') = unat off + ?n \<and>
      copy_string m' (unat off) ?n buf = Inr (take (unat k) s @ 0 # drop (Suc ?n) buf)"
    using string_codec [OF g(1) assms(2) len, of rest] by blast
  have "(let len = (if cm_len m' > off then cm_len m' - off else 0); len = (if len > k then k else len)
        in copy_string m' (unat off) (unat len) buf) = Inr (take (unat k) s @ 0 # drop (Suc ?n) buf)"
    if "cec_delivered e m'" "unat k < length buf" for m' buf
    using d [OF that] string_len_decoded [of "cm_len m'" off ?n k] by (simp add: Let_def)
  moreover have "msg_at m' i = msg_at (g ?l) i" if "cec_delivered e m'" "i < unat off" for m' i
    using cec_delivered_at [OF that(1), of i] at that(2) e(2) len by simp
  ultimately show ?thesis using e(1) l by (simp add: Let_def)
qed

lemma c_string_append [simp]: "0 \<notin> set s \<Longrightarrow> c_string (s @ 0 # rest) = Inr s"
proof -
  assume "0 \<notin> set s"
  then have "takeWhile (\<lambda>b. b \<noteq> 0) (s @ 0 # rest) = s" by (subst takeWhile_append2) auto
  then show ?thesis by (simp add: c_string_def)
qed

subsection \<open>Packing fields into bytes\<close>

lemma mask_lits:
  "(0xff :: u32) = mask 8" "(0xf :: u32) = mask 4" "(0x7f :: u32) = mask 7"
  "(3 :: u32) = mask 2" "(0x3f :: u32) = mask 6"
  by (simp_all add: mask_eq_exp_minus_1)

lemma take_bit_small: "unat x < 2 ^ n \<Longrightarrow> take_bit n x = x" for x :: "'a::len word"
  by (rule word_unat_eq_iff [THEN iffD2]) (simp add: unsigned_take_bit_eq take_bit_nat_eq_self)

lemma unat_to_int_u8 [simp]: "unat (to_int (x :: u8)) = unat x"
  by (simp add: to_int_def)

lemma to_u8_to_int [simp]: "to_u8 (to_int x) = x"
  unfolding to_u8_def to_int_def by (rule bit_word_eqI) (auto simp: bit_simps)

lemma to_u16_to_int [simp]: "to_u16 (to_int x) = x"
  unfolding to_u16_def to_int_def by (rule bit_word_eqI) (auto simp: bit_simps)

lemma to_u8_c_bool [simp]: "to_u8 (c_bool b) = (if b then 1 else 0)"
  by (simp add: to_u8_def c_bool_def)

lemma be16_roundtrip [simp]:
  "to_u16 (push_bit 8 (to_int (to_u8 (drop_bit 8 (to_int a)))) OR to_int (to_u8 (to_int a AND 0xff))) = a"
  unfolding to_u16_def to_u8_def to_int_def
  by (rule bit_word_eqI) (auto simp: bit_simps mask_lits)

lemma be24_take_bit [simp]:
  "(push_bit 16 (to_int (to_u8 (drop_bit 16 v))) OR push_bit 8 (to_int (to_u8 (drop_bit 8 v AND 0xff)))) OR
   to_int (to_u8 (v AND 0xff)) = take_bit 24 v"
proof (rule bit_word_eqI)
  fix n
  show "bit ((push_bit 16 (to_int (to_u8 (drop_bit 16 v))) OR
      push_bit 8 (to_int (to_u8 (drop_bit 8 v AND 0xff)))) OR to_int (to_u8 (v AND 0xff))) n =
    bit (take_bit 24 v) n"
    unfolding to_u8_def to_int_def by (cases "16 \<le> n") (auto simp: bit_simps mask_lits)
qed

lemma be24_masked:
  "(push_bit 16 (to_int (to_u8 (drop_bit 16 v AND 0xff))) OR push_bit 8 (to_int (to_u8 (drop_bit 8 v AND 0xff)))) OR
   to_int (to_u8 (v AND 0xff)) = take_bit 24 v"
proof -
  have "to_u8 (drop_bit 16 v AND 0xff) = to_u8 (drop_bit 16 v)"
    unfolding to_u8_def by (rule bit_word_eqI) (auto simp: bit_simps mask_lits)
  then show ?thesis by simp
qed

lemma take_bit_24_small [simp]: "v < 0x1000000 \<Longrightarrow> take_bit 24 v = (v :: u32)"
  by (rule take_bit_small) (simp add: word_less_nat_alt)

lemma and_7f_small [simp]: "b < 128 \<Longrightarrow> to_int (b :: u8) AND 0x7f = to_int b"
  using take_bit_small [of "to_int b" 7]
  by (simp only: mask_lits(3) take_bit_eq_mask) (simp add: word_less_nat_alt)

text \<open>Two fields of \<open>8 - k\<close> and \<open>k\<close> bits in one byte, for every split \<open>k\<close>.\<close>

lemma two_fields:
  assumes "unat q < 2 ^ (8 - k)" "unat r < 2 ^ k" "k \<le> 8"
  shows "drop_bit k (to_int (to_u8 (push_bit k q OR r))) = q"
    and "to_int (to_u8 (push_bit k q OR r)) AND mask k = r"
proof -
  from assms have "take_bit (8 - k) q = q" "take_bit k r = r" by (simp_all add: take_bit_small)
  then obtain q' r' where qr: "q = take_bit (8 - k) q'" "r = take_bit k r'" by metis
  show "drop_bit k (to_int (to_u8 (push_bit k q OR r))) = q"
    unfolding to_u8_def to_int_def qr using assms(3)
    by (intro bit_word_eqI) (auto simp: bit_simps)
  show "to_int (to_u8 (push_bit k q OR r)) AND mask k = r"
    unfolding to_u8_def to_int_def qr using assms(3)
    by (intro bit_word_eqI) (auto simp: bit_simps)
qed

lemma two_fields_4 [simp]:
  assumes "a < 16" "b < 16"
  shows "to_u8 (drop_bit 4 (to_int (to_u8 (push_bit 4 (to_int a) OR to_int b)))) = a"
    and "to_u8 (to_int (to_u8 (push_bit 4 (to_int a) OR to_int b)) AND 0xf) = b"
  using two_fields [of "to_int a" 4 "to_int b"] assms
  by (simp_all add: word_less_nat_alt mask_lits(2))

lemma two_fields_7 [simp]:
  assumes "a < 2" "b < 128"
  shows "to_u8 (drop_bit 7 (to_int (to_u8 (push_bit 7 (to_int a) OR to_int b)))) = a"
    and "to_u8 (to_int (to_u8 (push_bit 7 (to_int a) OR to_int b)) AND 0x7f) = b"
  using two_fields [of "to_int a" 7 "to_int b"] assms
  by (simp_all add: word_less_nat_alt mask_lits(3))

text \<open>A binary coded decimal byte holds every value up to 159.\<close>

lemma bcd_roundtrip [simp]:
  assumes "h < 160"
  shows "to_u8 ((drop_bit 4 (to_int (to_u8 (push_bit 4 (to_int h div 10) OR (to_int h mod 10)))) * 10) +
     (to_int (to_u8 (push_bit 4 (to_int h div 10) OR (to_int h mod 10))) AND 0xf)) = (h :: u8)"
proof -
  have "unat (to_int h) < 160" using assms by (simp add: word_less_nat_alt)
  then have q: "unat (to_int h div 10) < 2 ^ (8 - 4)" by (simp add: unat_div)
  have r: "unat (to_int h mod 10) < 2 ^ 4" by (simp add: unat_mod)
  show ?thesis using two_fields [OF q r] by (simp add: mask_lits(2) div_mult_mod_eq)
qed

lemma initiator_or_broadcast [simp]:
  "to_u8 (drop_bit 4 (to_int (to_u8 (to_int b OR 0xf)))) = to_u8 (drop_bit 4 (to_int b))" for b :: u8
  unfolding to_u8_def to_int_def
  by (rule bit_word_eqI) (auto simp: bit_simps mask_lits dest: bit_imp_le_length)

subsection \<open>Addresses\<close>

lemma nibble_bounds: "cec_msg_initiator m < 16" "cec_msg_destination m < 16"
proof -
  have "unat (msg_at m 0) < 256" using unsigned_less [of "msg_at m 0"] by simp
  then have "unat (drop_bit 4 (to_int (msg_at m 0))) < 16"
    by (simp add: drop_bit_eq_div unat_div)
  then show "cec_msg_initiator m < 16"
    by (simp add: cec_msg_initiator_def to_u8_def word_less_nat_alt unat_ucast_down)
  have "unat (to_int (msg_at m 0) AND 0xf) = take_bit 4 (unat (msg_at m 0))"
    by (simp only: mask_lits take_bit_eq_mask [symmetric] unsigned_take_bit_eq unat_to_int_u8)
  moreover have "take_bit 4 (unat (msg_at m 0)) < 2 ^ 4" by (rule take_bit_nat_less_exp)
  ultimately show "cec_msg_destination m < 16"
    by (simp add: cec_msg_destination_def to_u8_def word_less_nat_alt unat_ucast_down)
qed

lemma cec_msg_init_spec:
  assumes "initiator < 16" "destination < 16"
  shows "cec_wf (cec_msg_init m initiator destination) \<and>
    cec_msg_initiator (cec_msg_init m initiator destination) = initiator \<and>
    cec_msg_destination (cec_msg_init m initiator destination) = destination \<and>
    cec_msg_opcode (cec_msg_init m initiator destination) = - 1"
  using assms by (simp add: cec_msg_init_def cec_msg_initiator_def cec_msg_destination_def cec_msg_opcode_def Let_def)

lemma set_reply_to_swaps:
  assumes "cec_wf m"
  shows "cec_msg_initiator (cec_msg_set_reply_to m orig) = cec_msg_destination orig"
    and "cec_msg_destination (cec_msg_set_reply_to m orig) = cec_msg_initiator orig"
  using assms nibble_bounds [of orig]
  by (simp_all add: cec_msg_set_reply_to_def Let_def cec_msg_initiator_def [of "msg_put _ _ _\<lparr>cm_timeout := 0, cm_reply := 0\<rparr>"]
      cec_msg_destination_def [of "msg_put _ _ _\<lparr>cm_timeout := 0, cm_reply := 0\<rparr>"])

text \<open>The tests on a mask of logical addresses, read as sets of addresses.\<close>

lemma and_push_bit_0: "w AND push_bit n 1 = 0 \<longleftrightarrow> \<not> bit w n" for w :: u32
  using and_exp_eq_0_iff_not_bit [of w n] by (simp add: push_bit_of_1)

lemma or_is_0: "a OR b = 0 \<longleftrightarrow> a = 0 \<and> b = 0" for a b :: u32
  by (auto simp: bit_eq_iff bit_or_iff)

lemma cec_has_iff:
  "cec_has_tv k \<noteq> 0 \<longleftrightarrow> bit k 0"
  "cec_has_record k \<noteq> 0 \<longleftrightarrow> bit k 1 \<or> bit k 2 \<or> bit k 9"
  "cec_has_tuner k \<noteq> 0 \<longleftrightarrow> bit k 3 \<or> bit k 6 \<or> bit k 7 \<or> bit k 10"
  "cec_has_playback k \<noteq> 0 \<longleftrightarrow> bit k 4 \<or> bit k 8 \<or> bit k 11"
  "cec_has_audiosystem k \<noteq> 0 \<longleftrightarrow> bit k 5"
  "cec_has_backup k \<noteq> 0 \<longleftrightarrow> bit k 12 \<or> bit k 13"
  "cec_has_specific k \<noteq> 0 \<longleftrightarrow> bit k 14"
  "cec_is_unregistered k \<noteq> 0 \<longleftrightarrow> bit k 15"
  unfolding cec_has_tv_def cec_has_record_def cec_has_tuner_def cec_has_playback_def cec_has_audiosystem_def
    cec_has_backup_def cec_has_specific_def cec_is_unregistered_def cec_const bit.conj_disj_distrib or_is_0
    and_push_bit_0
  by (simp_all add: to_int_def bit_simps)

lemma cec_is_unconfigured_iff: "cec_is_unconfigured k \<noteq> 0 \<longleftrightarrow> (\<forall>n. \<not> bit k n)"
proof -
  have "to_int k = 0 \<longleftrightarrow> k = 0" using to_u16_to_int [of k] by (auto simp: to_int_def to_u16_def)
  moreover have "k = 0 \<longleftrightarrow> (\<forall>n. \<not> bit k n)" by (auto intro: bit_word_eqI)
  ultimately show ?thesis by (simp only: cec_is_unconfigured_def c_bool_iff) simp
qed

text \<open>Every address of a mask is of one of the kinds.\<close>

lemma cec_kinds_cover:
  assumes "cec_is_unconfigured k = 0"
  shows "cec_has_tv k \<noteq> 0 \<or> cec_has_record k \<noteq> 0 \<or> cec_has_tuner k \<noteq> 0 \<or> cec_has_playback k \<noteq> 0 \<or>
    cec_has_audiosystem k \<noteq> 0 \<or> cec_has_backup k \<noteq> 0 \<or> cec_has_specific k \<noteq> 0 \<or> cec_is_unregistered k \<noteq> 0"
proof -
  from assms obtain n where n: "bit k n" using cec_is_unconfigured_iff by blast
  then have "n < 16" using bit_imp_le_length by fastforce
  with n have "\<exists>n < 16. bit k n" by blast
  then show ?thesis unfolding cec_has_iff by (simp add: numeral_eq_Suc Ex_less_Suc) blast
qed

text \<open>The special devices exclude each other.\<close>

lemma cec_special_exclusive:
  "cec_is_switch las \<noteq> 0 \<Longrightarrow> cec_is_cdc_only las = 0 \<and> cec_is_processor las = 0 \<and> cec_is_2nd_tv las = 0"
  "cec_is_cdc_only las \<noteq> 0 \<Longrightarrow> cec_is_processor las = 0 \<and> cec_is_2nd_tv las = 0"
  "cec_is_processor las \<noteq> 0 \<Longrightarrow> cec_is_2nd_tv las = 0"
  by (auto simp: cec_is_switch_def cec_is_cdc_only_def cec_is_processor_def cec_is_2nd_tv_def cec_const)

lemma cec_msg_status_is_ok_iff:
  "cec_msg_status_is_ok m \<noteq> 0 \<longleftrightarrow>
     (cm_tx_status m \<noteq> 0 \<or> cm_rx_status m \<noteq> 0) \<and>
     (cm_tx_status m \<noteq> 0 \<longrightarrow> bit (cm_tx_status m) 0) \<and> (cm_rx_status m \<noteq> 0 \<longrightarrow> bit (cm_rx_status m) 0) \<and>
     \<not> bit (cm_rx_status m) 2"
proof -
  have "to_int x AND 1 = 0 \<longleftrightarrow> \<not> bit x 0" "to_int x AND 4 = 0 \<longleftrightarrow> \<not> bit x 2" for x :: u8
    using and_exp_eq_0_iff_not_bit [of "to_int x" 0] and_exp_eq_0_iff_not_bit [of "to_int x" 2]
    by (simp_all add: to_int_def bit_simps)
  then show ?thesis by (auto simp: cec_msg_status_is_ok_def cec_const)
qed

lemma broadcast_iff: "cec_msg_is_broadcast m \<noteq> 0 \<longleftrightarrow> cec_msg_destination m = 0xf"
proof -
  have "to_int (cec_msg_destination m) = to_int (msg_at m 0) AND 0xf"
    unfolding cec_msg_destination_def to_u8_def to_int_def mask_lits
    by (rule bit_word_eqI) (auto simp: bit_simps)
  moreover have "to_int (0xf :: u8) = 0xf" by (simp add: to_int_def)
  ultimately show ?thesis
    using to_u8_to_int [of "cec_msg_destination m"] to_u8_to_int [of "0xf :: u8"]
    by (auto simp: cec_msg_is_broadcast_def)
qed

subsection \<open>Encoders and decoders\<close>

lemmas cec_frame_simps = Let_def cec_delivered_at cec_delivered_len cec_msg_initiator_def

context cec_encoder
begin

lemma delivered_opcode:
  assumes "cec_wf m" "ok a" "cec_delivered (enc a m) m'"
  shows "cec_msg_opcode m' = to_int opcode"
proof -
  note l = enc_len [OF assms(1,2)]
  then have "cm_len (enc a m) > 1" by (simp add: word_less_nat_alt)
  moreover have "msg_at m' 1 = opcode"
    using cec_delivered_at [OF assms(3), of 1] l enc_opcode [OF assms(1,2)] by simp
  ultimately show ?thesis using cec_delivered_len [OF assms(3)] by (simp add: cec_msg_opcode_def)
qed

lemma delivered_initiator:
  assumes "cec_wf m" "ok a" "cec_delivered (enc a m) m'"
  shows "cec_msg_initiator m' = cec_msg_initiator m"
proof -
  have "msg_at m' 0 = msg_at (enc a m) 0"
    using cec_delivered_at [OF assms(3), of 0] enc_len [OF assms(1,2)] by simp
  then show ?thesis using enc_initiator [OF assms(1,2)] by (simp add: cec_msg_initiator_def)
qed

end

context cec_codec
begin

lemma delivered_decodes:
  assumes "cec_wf m" "ok a" "cec_delivered (enc a m) m'"
  shows "dec m' = view a"
  using dec_frame [OF assms] dec_enc [OF assms(1,2)] by simp

lemma delivered_inj:
  assumes "cec_wf m" "cec_wf n" "ok a" "ok b" "cec_delivered (enc a m) m'" "cec_delivered (enc b n) m'"
  shows "view a = view b"
  using delivered_decodes [OF assms(1,3,5)] delivered_decodes [OF assms(2,4,6)] by simp

lemma delivered:
  assumes "cec_wf m" "ok a" "cec_delivered (enc a m) m'"
  shows "cec_msg_opcode m' = to_int opcode \<and> cec_msg_initiator m' = cec_msg_initiator m \<and>
         dec m' = view a"
  using delivered_opcode [OF assms] delivered_initiator [OF assms] delivered_decodes [OF assms]
  by simp

end

end
