(* ===== verification/Cec_Routing.thy ===== *)
theory Cec_Routing
  imports Cec_Opcodes
begin

section \<open>CEC codec: one touch play, routing, standby and recording\<close>

text \<open>
  The first features of \<open>linux/cec-funcs.h\<close>. An encoder \<open>cec_msg_X\<close> maps the message structure and
  its arguments to the updated structure, statement by statement; a decoder \<open>cec_ops_X\<close> maps the
  structure to the values stored through its output pointers, in the order of the parameters.
  Each pair with a fixed format is an interpretation of \<open>cec_codec\<close>.
\<close>

unbundle bit_operations_syntax

subsection \<open>One Touch Play Feature\<close>

definition cec_msg_active_source :: "cec_msg \<Rightarrow> u16 \<Rightarrow> cec_msg" where
  [cec_msgs]: "cec_msg_active_source m phys_addr =
     (let m = m\<lparr>cm_len := 4\<rparr>;
          m = msg_put m 0 (to_u8 (to_int (msg_at m 0) OR 0xf));
          m = msg_put m 1 CEC_MSG_ACTIVE_SOURCE;
          m = msg_put m 2 (to_u8 (drop_bit 8 (to_int phys_addr)));
          m = msg_put m 3 (to_u8 (to_int phys_addr AND 0xff))
      in m)"

definition cec_ops_active_source :: "cec_msg \<Rightarrow> u16" where
  [cec_ops]: "cec_ops_active_source m =
     to_u16 (push_bit 8 (to_int (msg_at m 2)) OR to_int (msg_at m 3))"

definition cec_msg_image_view_on :: "cec_msg \<Rightarrow> cec_msg" where
  [cec_msgs]: "cec_msg_image_view_on m =
     (let m = m\<lparr>cm_len := 2\<rparr>;
          m = msg_put m 1 CEC_MSG_IMAGE_VIEW_ON
      in m)"

definition cec_msg_text_view_on :: "cec_msg \<Rightarrow> cec_msg" where
  [cec_msgs]: "cec_msg_text_view_on m =
     (let m = m\<lparr>cm_len := 2\<rparr>;
          m = msg_put m 1 CEC_MSG_TEXT_VIEW_ON
      in m)"

subsection \<open>Routing Control Feature\<close>

definition cec_msg_inactive_source :: "cec_msg \<Rightarrow> u16 \<Rightarrow> cec_msg" where
  [cec_msgs]: "cec_msg_inactive_source m phys_addr =
     (let m = m\<lparr>cm_len := 4\<rparr>;
          m = msg_put m 1 CEC_MSG_INACTIVE_SOURCE;
          m = msg_put m 2 (to_u8 (drop_bit 8 (to_int phys_addr)));
          m = msg_put m 3 (to_u8 (to_int phys_addr AND 0xff))
      in m)"

definition cec_ops_inactive_source :: "cec_msg \<Rightarrow> u16" where
  [cec_ops]: "cec_ops_inactive_source m =
     to_u16 (push_bit 8 (to_int (msg_at m 2)) OR to_int (msg_at m 3))"

definition cec_msg_request_active_source :: "cec_msg \<Rightarrow> s32 \<Rightarrow> cec_msg"
    where
  [cec_msgs]: "cec_msg_request_active_source m reply =
     (let m = m\<lparr>cm_len := 2\<rparr>;
          m = msg_put m 0 (to_u8 (to_int (msg_at m 0) OR 0xf));
          m = msg_put m 1 CEC_MSG_REQUEST_ACTIVE_SOURCE;
          m = m\<lparr>cm_reply := if reply \<noteq> 0 then CEC_MSG_ACTIVE_SOURCE else 0\<rparr>
      in m)"

definition cec_msg_routing_information :: "cec_msg \<Rightarrow> u16 \<Rightarrow> cec_msg" where
  [cec_msgs]: "cec_msg_routing_information m phys_addr =
     (let m = m\<lparr>cm_len := 4\<rparr>;
          m = msg_put m 0 (to_u8 (to_int (msg_at m 0) OR 0xf));
          m = msg_put m 1 CEC_MSG_ROUTING_INFORMATION;
          m = msg_put m 2 (to_u8 (drop_bit 8 (to_int phys_addr)));
          m = msg_put m 3 (to_u8 (to_int phys_addr AND 0xff))
      in m)"

definition cec_ops_routing_information :: "cec_msg \<Rightarrow> u16" where
  [cec_ops]: "cec_ops_routing_information m =
     to_u16 (push_bit 8 (to_int (msg_at m 2)) OR to_int (msg_at m 3))"

definition cec_msg_routing_change :: "cec_msg \<Rightarrow> s32 \<Rightarrow> u16 \<Rightarrow>
    u16 \<Rightarrow> cec_msg" where
  [cec_msgs]: "cec_msg_routing_change m reply orig_phys_addr new_phys_addr =
     (let m = m\<lparr>cm_len := 6\<rparr>;
          m = msg_put m 0 (to_u8 (to_int (msg_at m 0) OR 0xf));
          m = msg_put m 1 CEC_MSG_ROUTING_CHANGE;
          m = msg_put m 2 (to_u8 (drop_bit 8 (to_int orig_phys_addr)));
          m = msg_put m 3 (to_u8 (to_int orig_phys_addr AND 0xff));
          m = msg_put m 4 (to_u8 (drop_bit 8 (to_int new_phys_addr)));
          m = msg_put m 5 (to_u8 (to_int new_phys_addr AND 0xff));
          m = m\<lparr>cm_reply := if reply \<noteq> 0 then CEC_MSG_ROUTING_INFORMATION else 0\<rparr>
      in m)"

definition cec_ops_routing_change :: "cec_msg \<Rightarrow> u16 \<times> u16" where
  [cec_ops]: "cec_ops_routing_change m =
     (to_u16 (push_bit 8 (to_int (msg_at m 2)) OR to_int (msg_at m 3)),
      to_u16 (push_bit 8 (to_int (msg_at m 4)) OR to_int (msg_at m 5)))"

definition cec_msg_set_stream_path :: "cec_msg \<Rightarrow> u16 \<Rightarrow> cec_msg" where
  [cec_msgs]: "cec_msg_set_stream_path m phys_addr =
     (let m = m\<lparr>cm_len := 4\<rparr>;
          m = msg_put m 0 (to_u8 (to_int (msg_at m 0) OR 0xf));
          m = msg_put m 1 CEC_MSG_SET_STREAM_PATH;
          m = msg_put m 2 (to_u8 (drop_bit 8 (to_int phys_addr)));
          m = msg_put m 3 (to_u8 (to_int phys_addr AND 0xff))
      in m)"

definition cec_ops_set_stream_path :: "cec_msg \<Rightarrow> u16" where
  [cec_ops]: "cec_ops_set_stream_path m =
     to_u16 (push_bit 8 (to_int (msg_at m 2)) OR to_int (msg_at m 3))"

subsection \<open>Standby Feature\<close>

definition cec_msg_standby :: "cec_msg \<Rightarrow> cec_msg" where
  [cec_msgs]: "cec_msg_standby m =
     (let m = m\<lparr>cm_len := 2\<rparr>;
          m = msg_put m 1 CEC_MSG_STANDBY
      in m)"

subsection \<open>One Touch Record Feature\<close>

definition cec_msg_record_off :: "cec_msg \<Rightarrow> s32 \<Rightarrow> cec_msg" where
  [cec_msgs]: "cec_msg_record_off m reply =
     (let m = m\<lparr>cm_len := 2\<rparr>;
          m = msg_put m 1 CEC_MSG_RECORD_OFF;
          m = m\<lparr>cm_reply := if reply \<noteq> 0 then CEC_MSG_RECORD_STATUS else 0\<rparr>
      in m)"

text \<open>
  The digital service identification is a structure with a union of three half-words, which the
  ARIB, ATSC, DVB and channel members share: the model keeps the half-words and reads each member
  from them, in the little-endian layout of the target. The sources of a recording and of a tuner
  are unions of four half-words in the same way.
\<close>

record cec_op_arib_data =
  arib_transport_id :: u16
  arib_service_id :: u16
  arib_orig_network_id :: u16

record cec_op_atsc_data =
  atsc_transport_id :: u16
  atsc_program_number :: u16

record cec_op_dvb_data =
  dvb_transport_id :: u16
  dvb_service_id :: u16
  dvb_orig_network_id :: u16

record cec_op_channel_data =
  ch_number_fmt :: u8
  ch_major :: u16
  ch_minor :: u16

record cec_op_digital_service_id =
  ds_service_id_method :: u8
  ds_dig_bcast_system :: u8
  ds_h0 :: u16
  ds_h1 :: u16
  ds_h2 :: u16

definition lo8 :: "u16 \<Rightarrow> u8" where
  "lo8 h = ucast h"

definition hi8 :: "u16 \<Rightarrow> u8" where
  "hi8 h = ucast (drop_bit 8 h)"

definition join8 :: "u8 \<Rightarrow> u8 \<Rightarrow> u16" where
  "join8 hi lo = push_bit 8 (ucast hi) OR ucast lo"

definition ds_arib :: "cec_op_digital_service_id \<Rightarrow> cec_op_arib_data" where
  "ds_arib d = \<lparr>arib_transport_id = ds_h0 d, arib_service_id = ds_h1 d, arib_orig_network_id = ds_h2 d\<rparr>"

definition ds_atsc :: "cec_op_digital_service_id \<Rightarrow> cec_op_atsc_data" where
  "ds_atsc d = \<lparr>atsc_transport_id = ds_h0 d, atsc_program_number = ds_h1 d\<rparr>"

definition ds_dvb :: "cec_op_digital_service_id \<Rightarrow> cec_op_dvb_data" where
  "ds_dvb d = \<lparr>dvb_transport_id = ds_h0 d, dvb_service_id = ds_h1 d, dvb_orig_network_id = ds_h2 d\<rparr>"

definition ds_channel :: "cec_op_digital_service_id \<Rightarrow> cec_op_channel_data" where
  "ds_channel d = \<lparr>ch_number_fmt = lo8 (ds_h0 d), ch_major = ds_h1 d, ch_minor = ds_h2 d\<rparr>"

record cec_union8 =
  un_h0 :: u16
  un_h1 :: u16
  un_h2 :: u16
  un_h3 :: u16

record cec_op_record_src =
  rs_type :: u8
  rs_un :: cec_union8

definition un_digital :: "cec_union8 \<Rightarrow> cec_op_digital_service_id" where
  "un_digital u =
     \<lparr>ds_service_id_method = lo8 (un_h0 u), ds_dig_bcast_system = hi8 (un_h0 u),
      ds_h0 = un_h1 u, ds_h1 = un_h2 u, ds_h2 = un_h3 u\<rparr>"

definition un_put_digital :: "cec_union8 \<Rightarrow> cec_op_digital_service_id \<Rightarrow> cec_union8" where
  "un_put_digital u d =
     u\<lparr>un_h0 := join8 (ds_dig_bcast_system d) (ds_service_id_method d),
       un_h1 := ds_h0 d, un_h2 := ds_h1 d, un_h3 := ds_h2 d\<rparr>"

definition un_ana_bcast_type :: "cec_union8 \<Rightarrow> u8" where
  "un_ana_bcast_type u = lo8 (un_h0 u)"

definition un_ana_freq :: "cec_union8 \<Rightarrow> u16" where
  "un_ana_freq u = un_h1 u"

definition un_bcast_system :: "cec_union8 \<Rightarrow> u8" where
  "un_bcast_system u = lo8 (un_h2 u)"

definition un_put_analog :: "cec_union8 \<Rightarrow> u8 \<Rightarrow> u16 \<Rightarrow> u8 \<Rightarrow> cec_union8" where
  "un_put_analog u ana_bcast_type ana_freq bcast_system =
     u\<lparr>un_h0 := join8 (hi8 (un_h0 u)) ana_bcast_type, un_h1 := ana_freq,
       un_h2 := join8 (hi8 (un_h2 u)) bcast_system\<rparr>"

definition un_plug :: "cec_union8 \<Rightarrow> u8" where
  "un_plug u = lo8 (un_h0 u)"

definition un_put_plug :: "cec_union8 \<Rightarrow> u8 \<Rightarrow> cec_union8" where
  "un_put_plug u plug = u\<lparr>un_h0 := join8 (hi8 (un_h0 u)) plug\<rparr>"

definition un_phys_addr :: "cec_union8 \<Rightarrow> u16" where
  "un_phys_addr u = un_h0 u"

definition un_put_phys_addr :: "cec_union8 \<Rightarrow> u16 \<Rightarrow> cec_union8" where
  "un_put_phys_addr u phys_addr = u\<lparr>un_h0 := phys_addr\<rparr>"

text \<open>The pointer \<open>msg\<close> of the C function points into the payload: it is the message and an index.\<close>

definition cec_set_digital_service_id ::
    "cec_msg \<Rightarrow> nat \<Rightarrow> cec_op_digital_service_id \<Rightarrow> cec_msg" where
  "cec_set_digital_service_id m p digital =
     (let m = msg_put m p (to_u8 (push_bit 7 (to_int (ds_service_id_method digital)) OR
                                  to_int (ds_dig_bcast_system digital)))
      in if ds_service_id_method digital = CEC_OP_SERVICE_ID_METHOD_BY_CHANNEL then
        (let ch = ds_channel digital;
             m = msg_put m (p + 1) (to_u8 (push_bit 2 (to_int (ch_number_fmt ch)) OR
                                           drop_bit 8 (to_int (ch_major ch))));
             m = msg_put m (p + 2) (to_u8 (to_int (ch_major ch) AND 0xff));
             m = msg_put m (p + 3) (to_u8 (drop_bit 8 (to_int (ch_minor ch))));
             m = msg_put m (p + 4) (to_u8 (to_int (ch_minor ch) AND 0xff));
             m = msg_put m (p + 5) 0;
             m = msg_put m (p + 6) 0
         in m)
      else if ds_dig_bcast_system digital \<in>
          {CEC_OP_DIG_SERVICE_BCAST_SYSTEM_ATSC_GEN, CEC_OP_DIG_SERVICE_BCAST_SYSTEM_ATSC_CABLE,
           CEC_OP_DIG_SERVICE_BCAST_SYSTEM_ATSC_SAT, CEC_OP_DIG_SERVICE_BCAST_SYSTEM_ATSC_T} then
        (let atsc = ds_atsc digital;
             m = msg_put m (p + 1) (to_u8 (drop_bit 8 (to_int (atsc_transport_id atsc))));
             m = msg_put m (p + 2) (to_u8 (to_int (atsc_transport_id atsc) AND 0xff));
             m = msg_put m (p + 3) (to_u8 (drop_bit 8 (to_int (atsc_program_number atsc))));
             m = msg_put m (p + 4) (to_u8 (to_int (atsc_program_number atsc) AND 0xff));
             m = msg_put m (p + 5) 0;
             m = msg_put m (p + 6) 0
         in m)
      else
        (let dvb = ds_dvb digital;
             m = msg_put m (p + 1) (to_u8 (drop_bit 8 (to_int (dvb_transport_id dvb))));
             m = msg_put m (p + 2) (to_u8 (to_int (dvb_transport_id dvb) AND 0xff));
             m = msg_put m (p + 3) (to_u8 (drop_bit 8 (to_int (dvb_service_id dvb))));
             m = msg_put m (p + 4) (to_u8 (to_int (dvb_service_id dvb) AND 0xff));
             m = msg_put m (p + 5) (to_u8 (drop_bit 8 (to_int (dvb_orig_network_id dvb))));
             m = msg_put m (p + 6) (to_u8 (to_int (dvb_orig_network_id dvb) AND 0xff))
         in m))"

definition cec_get_digital_service_id ::
    "cec_msg \<Rightarrow> nat \<Rightarrow> cec_op_digital_service_id \<Rightarrow> cec_op_digital_service_id" where
  "cec_get_digital_service_id m p digital =
     (let digital = digital\<lparr>ds_service_id_method := to_u8 (drop_bit 7 (to_int (msg_at m p)))\<rparr>;
          digital = digital\<lparr>ds_dig_bcast_system := to_u8 (to_int (msg_at m p) AND 0x7f)\<rparr>
      in if ds_service_id_method digital = CEC_OP_SERVICE_ID_METHOD_BY_CHANNEL then
        (let digital = digital\<lparr>ds_h0 := join8 (hi8 (ds_h0 digital))
                                 (to_u8 (drop_bit 2 (to_int (msg_at m (p + 1)))))\<rparr>;
             digital = digital\<lparr>ds_h1 := to_u16 (push_bit 6 (to_int (msg_at m (p + 1)) AND 3) OR
                                               to_int (msg_at m (p + 2)))\<rparr>;
             digital = digital\<lparr>ds_h2 := to_u16 (push_bit 8 (to_int (msg_at m (p + 3))) OR
                                               to_int (msg_at m (p + 4)))\<rparr>
         in digital)
      else
        (let digital = digital\<lparr>ds_h0 := to_u16 (push_bit 8 (to_int (msg_at m (p + 1))) OR
                                               to_int (msg_at m (p + 2)))\<rparr>;
             digital = digital\<lparr>ds_h1 := to_u16 (push_bit 8 (to_int (msg_at m (p + 3))) OR
                                               to_int (msg_at m (p + 4)))\<rparr>;
             digital = digital\<lparr>ds_h2 := to_u16 (push_bit 8 (to_int (msg_at m (p + 5))) OR
                                               to_int (msg_at m (p + 6)))\<rparr>
         in digital))"

definition cec_msg_record_on_own :: "cec_msg \<Rightarrow> cec_msg" where
  [cec_msgs]: "cec_msg_record_on_own m =
     (let m = m\<lparr>cm_len := 3\<rparr>;
          m = msg_put m 1 CEC_MSG_RECORD_ON;
          m = msg_put m 2 CEC_OP_RECORD_SRC_OWN
      in m)"

definition cec_msg_record_on_digital :: "cec_msg \<Rightarrow> cec_op_digital_service_id \<Rightarrow> cec_msg" where
  [cec_msgs]: "cec_msg_record_on_digital m digital =
     (let m = m\<lparr>cm_len := 10\<rparr>;
          m = msg_put m 1 CEC_MSG_RECORD_ON;
          m = msg_put m 2 CEC_OP_RECORD_SRC_DIGITAL;
          m = cec_set_digital_service_id m 3 digital
      in m)"

definition cec_msg_record_on_analog :: "cec_msg \<Rightarrow> u8 \<Rightarrow> u16 \<Rightarrow>
    u8 \<Rightarrow> cec_msg" where
  [cec_msgs]: "cec_msg_record_on_analog m ana_bcast_type ana_freq bcast_system =
     (let m = m\<lparr>cm_len := 7\<rparr>;
          m = msg_put m 1 CEC_MSG_RECORD_ON;
          m = msg_put m 2 CEC_OP_RECORD_SRC_ANALOG;
          m = msg_put m 3 ana_bcast_type;
          m = msg_put m 4 (to_u8 (drop_bit 8 (to_int ana_freq)));
          m = msg_put m 5 (to_u8 (to_int ana_freq AND 0xff));
          m = msg_put m 6 bcast_system
      in m)"

definition cec_msg_record_on_plug :: "cec_msg \<Rightarrow> u8 \<Rightarrow> cec_msg" where
  [cec_msgs]: "cec_msg_record_on_plug m plug =
     (let m = m\<lparr>cm_len := 4\<rparr>;
          m = msg_put m 1 CEC_MSG_RECORD_ON;
          m = msg_put m 2 CEC_OP_RECORD_SRC_EXT_PLUG;
          m = msg_put m 3 plug
      in m)"

definition cec_msg_record_on_phys_addr :: "cec_msg \<Rightarrow> u16 \<Rightarrow> cec_msg" where
  [cec_msgs]: "cec_msg_record_on_phys_addr m phys_addr =
     (let m = m\<lparr>cm_len := 5\<rparr>;
          m = msg_put m 1 CEC_MSG_RECORD_ON;
          m = msg_put m 2 CEC_OP_RECORD_SRC_EXT_PHYS_ADDR;
          m = msg_put m 3 (to_u8 (drop_bit 8 (to_int phys_addr)));
          m = msg_put m 4 (to_u8 (to_int phys_addr AND 0xff))
      in m)"

definition cec_msg_record_on :: "cec_msg \<Rightarrow> s32 \<Rightarrow> cec_op_record_src \<Rightarrow> cec_msg" where
  [cec_msgs]: "cec_msg_record_on m reply rec_src =
     (let u = rs_un rec_src;
          m = (if rs_type rec_src = CEC_OP_RECORD_SRC_OWN then cec_msg_record_on_own m
               else if rs_type rec_src = CEC_OP_RECORD_SRC_DIGITAL then
                 cec_msg_record_on_digital m (un_digital u)
               else if rs_type rec_src = CEC_OP_RECORD_SRC_ANALOG then
                 cec_msg_record_on_analog m (un_ana_bcast_type u) (un_ana_freq u) (un_bcast_system u)
               else if rs_type rec_src = CEC_OP_RECORD_SRC_EXT_PLUG then
                 cec_msg_record_on_plug m (un_plug u)
               else if rs_type rec_src = CEC_OP_RECORD_SRC_EXT_PHYS_ADDR then
                 cec_msg_record_on_phys_addr m (un_phys_addr u)
               else m);
          m = m\<lparr>cm_reply := if reply \<noteq> 0 then CEC_MSG_RECORD_STATUS else 0\<rparr>
      in m)"

definition cec_ops_record_on :: "cec_msg \<Rightarrow> cec_op_record_src \<Rightarrow> cec_op_record_src" where
  [cec_ops]: "cec_ops_record_on m rec_src =
     (let rec_src = rec_src\<lparr>rs_type := msg_at m 2\<rparr>;
          u = rs_un rec_src
      in if rs_type rec_src = CEC_OP_RECORD_SRC_OWN then rec_src
      else if rs_type rec_src = CEC_OP_RECORD_SRC_DIGITAL then
        rec_src\<lparr>rs_un := un_put_digital u (cec_get_digital_service_id m 3 (un_digital u))\<rparr>
      else if rs_type rec_src = CEC_OP_RECORD_SRC_ANALOG then
        rec_src\<lparr>rs_un := un_put_analog u (msg_at m 3)
                   (to_u16 (push_bit 8 (to_int (msg_at m 4)) OR to_int (msg_at m 5))) (msg_at m 6)\<rparr>
      else if rs_type rec_src = CEC_OP_RECORD_SRC_EXT_PLUG then
        rec_src\<lparr>rs_un := un_put_plug u (msg_at m 3)\<rparr>
      else if rs_type rec_src = CEC_OP_RECORD_SRC_EXT_PHYS_ADDR then
        rec_src\<lparr>rs_un := un_put_phys_addr u
                   (to_u16 (push_bit 8 (to_int (msg_at m 3)) OR to_int (msg_at m 4)))\<rparr>
      else rec_src)"

definition cec_msg_record_status :: "cec_msg \<Rightarrow> u8 \<Rightarrow> cec_msg" where
  [cec_msgs]: "cec_msg_record_status m rec_status =
     (let m = m\<lparr>cm_len := 3\<rparr>;
          m = msg_put m 1 CEC_MSG_RECORD_STATUS;
          m = msg_put m 2 rec_status
      in m)"

definition cec_ops_record_status :: "cec_msg \<Rightarrow> u8" where
  [cec_ops]: "cec_ops_record_status m = msg_at m 2"

definition cec_msg_record_tv_screen :: "cec_msg \<Rightarrow> s32 \<Rightarrow> cec_msg" where
  [cec_msgs]: "cec_msg_record_tv_screen m reply =
     (let m = m\<lparr>cm_len := 2\<rparr>;
          m = msg_put m 1 CEC_MSG_RECORD_TV_SCREEN;
          m = m\<lparr>cm_reply := if reply \<noteq> 0 then CEC_MSG_RECORD_ON else 0\<rparr>
      in m)"

subsection \<open>Specification\<close>

text \<open>What a digital service identification and a recording source mean, apart from their layout.\<close>

datatype dig_service =
    By_channel u8 u8 u16 u16
  | By_atsc u8 u16 u16
  | By_dvb u8 u16 u16 u16

definition dig_service_of :: "cec_op_digital_service_id \<Rightarrow> dig_service" where
  "dig_service_of d =
     (if ds_service_id_method d = CEC_OP_SERVICE_ID_METHOD_BY_CHANNEL then
        By_channel (ds_dig_bcast_system d) (ch_number_fmt (ds_channel d)) (ch_major (ds_channel d))
          (ch_minor (ds_channel d))
      else if ds_dig_bcast_system d \<in>
          {CEC_OP_DIG_SERVICE_BCAST_SYSTEM_ATSC_GEN, CEC_OP_DIG_SERVICE_BCAST_SYSTEM_ATSC_CABLE,
           CEC_OP_DIG_SERVICE_BCAST_SYSTEM_ATSC_SAT, CEC_OP_DIG_SERVICE_BCAST_SYSTEM_ATSC_T} then
        By_atsc (ds_dig_bcast_system d) (atsc_transport_id (ds_atsc d)) (atsc_program_number (ds_atsc d))
      else
        By_dvb (ds_dig_bcast_system d) (dvb_transport_id (ds_dvb d)) (dvb_service_id (ds_dvb d))
          (dvb_orig_network_id (ds_dvb d)))"

text \<open>The method has one bit, the system seven, the channel format six and the major number ten.\<close>

definition dig_fits :: "cec_op_digital_service_id \<Rightarrow> bool" where
  "dig_fits d =
     (ds_service_id_method d < 2 \<and> ds_dig_bcast_system d < 128 \<and>
      (ds_service_id_method d = CEC_OP_SERVICE_ID_METHOD_BY_CHANNEL \<longrightarrow>
         ch_number_fmt (ds_channel d) < 64 \<and> ch_major (ds_channel d) < 1024))"

definition dig_ok :: "cec_op_digital_service_id \<Rightarrow> bool" where
  "dig_ok d =
     (dig_fits d \<and>
      (ds_service_id_method d = CEC_OP_SERVICE_ID_METHOD_BY_CHANNEL \<longrightarrow> ch_major (ds_channel d) < 256))"

datatype rec_source =
    Rec_own
  | Rec_digital dig_service
  | Rec_analog u8 u16 u8
  | Rec_plug u8
  | Rec_phys_addr u16
  | Rec_unknown

definition rec_source_of :: "cec_op_record_src \<Rightarrow> rec_source" where
  "rec_source_of r =
     (if rs_type r = CEC_OP_RECORD_SRC_OWN then Rec_own
      else if rs_type r = CEC_OP_RECORD_SRC_DIGITAL then Rec_digital (dig_service_of (un_digital (rs_un r)))
      else if rs_type r = CEC_OP_RECORD_SRC_ANALOG then
        Rec_analog (un_ana_bcast_type (rs_un r)) (un_ana_freq (rs_un r)) (un_bcast_system (rs_un r))
      else if rs_type r = CEC_OP_RECORD_SRC_EXT_PLUG then Rec_plug (un_plug (rs_un r))
      else if rs_type r = CEC_OP_RECORD_SRC_EXT_PHYS_ADDR then Rec_phys_addr (un_phys_addr (rs_un r))
      else Rec_unknown)"

definition rec_source_ok :: "cec_op_record_src \<Rightarrow> bool" where
  "rec_source_ok r =
     (rec_source_of r \<noteq> Rec_unknown \<and>
      (rs_type r = CEC_OP_RECORD_SRC_DIGITAL \<longrightarrow> dig_ok (un_digital (rs_un r))))"

subsection \<open>What is encoded is what is decoded\<close>

interpretation active_source: cec_codec
    "\<lambda>phys_addr m. cec_msg_active_source m phys_addr"
    CEC_MSG_ACTIVE_SOURCE "\<lambda>_. True"
    cec_ops_active_source "\<lambda>a. a"
  by unfold_locales (auto simp: cec_msgs cec_ops cec_frame_simps)

interpretation inactive_source: cec_codec
    "\<lambda>phys_addr m. cec_msg_inactive_source m phys_addr"
    CEC_MSG_INACTIVE_SOURCE "\<lambda>_. True"
    cec_ops_inactive_source "\<lambda>a. a"
  by unfold_locales (auto simp: cec_msgs cec_ops cec_frame_simps)

interpretation routing_information: cec_codec
    "\<lambda>phys_addr m. cec_msg_routing_information m phys_addr"
    CEC_MSG_ROUTING_INFORMATION "\<lambda>_. True"
    cec_ops_routing_information "\<lambda>a. a"
  by unfold_locales (auto simp: cec_msgs cec_ops cec_frame_simps)

interpretation routing_change: cec_codec
    "\<lambda>(orig_phys_addr, new_phys_addr) m.
       cec_msg_routing_change m reply orig_phys_addr new_phys_addr"
    CEC_MSG_ROUTING_CHANGE "\<lambda>_. True"
    cec_ops_routing_change "\<lambda>a. a"
  for reply
  by unfold_locales (auto simp: cec_msgs cec_ops cec_frame_simps)

interpretation set_stream_path: cec_codec
    "\<lambda>phys_addr m. cec_msg_set_stream_path m phys_addr"
    CEC_MSG_SET_STREAM_PATH "\<lambda>_. True"
    cec_ops_set_stream_path "\<lambda>a. a"
  by unfold_locales (auto simp: cec_msgs cec_ops cec_frame_simps)

interpretation record_status: cec_codec
    "\<lambda>rec_status m. cec_msg_record_status m rec_status"
    CEC_MSG_RECORD_STATUS "\<lambda>_. True"
    cec_ops_record_status "\<lambda>a. a"
  by unfold_locales (auto simp: cec_msgs cec_ops cec_frame_simps)

subsection \<open>Unions\<close>

lemma half_words [simp]:
  "lo8 (join8 h l) = l" "hi8 (join8 h l) = h" "join8 (hi8 w) (lo8 w) = w"
  unfolding lo8_def hi8_def join8_def
  by (rule bit_word_eqI, auto simp: bit_simps dest: bit_imp_le_length)+

lemma un_digital_put [simp]: "un_digital (un_put_digital u d) = d"
  by (simp add: un_digital_def un_put_digital_def)

lemma un_analog_put [simp]:
  "un_ana_bcast_type (un_put_analog u t f s) = t" "un_ana_freq (un_put_analog u t f s) = f"
  "un_bcast_system (un_put_analog u t f s) = s"
  by (simp_all add: un_ana_bcast_type_def un_ana_freq_def un_bcast_system_def un_put_analog_def)

lemma un_plug_put [simp]: "un_plug (un_put_plug u p) = p"
  by (simp add: un_plug_def un_put_plug_def)

lemma un_phys_addr_put [simp]: "un_phys_addr (un_put_phys_addr u a) = a"
  by (simp add: un_phys_addr_def un_put_phys_addr_def)

subsection \<open>Digital services\<close>

lemma cec_set_digital_frame [simp]:
  "cec_wf (cec_set_digital_service_id m p d) = cec_wf m"
  "cm_len (cec_set_digital_service_id m p d) = cm_len m"
  "cm_reply (cec_set_digital_service_id m p d) = cm_reply m"
  by (simp_all add: cec_set_digital_service_id_def Let_def)

lemma cec_set_digital_overrun [simp]:
  "cec_wf m \<Longrightarrow> p + 7 \<le> 16 \<Longrightarrow> cm_overrun (cec_set_digital_service_id m p d) = cm_overrun m"
  by (simp add: cec_set_digital_service_id_def Let_def)

lemma cec_set_digital_other [simp]:
  "i < p \<or> p + 7 \<le> i \<Longrightarrow> msg_at (cec_set_digital_service_id m p d) i = msg_at m i"
  by (auto simp: cec_set_digital_service_id_def Let_def)

lemma cec_get_digital_cong:
  assumes "\<And>i. p \<le> i \<Longrightarrow> i < p + 7 \<Longrightarrow> msg_at m' i = msg_at m i"
  shows "cec_get_digital_service_id m' p d = cec_get_digital_service_id m p d"
  by (simp add: cec_get_digital_service_id_def Let_def assms)

lemma cec_get_digital_reply [simp]:
  "cec_get_digital_service_id (m\<lparr>cm_reply := r\<rparr>) p d = cec_get_digital_service_id m p d"
  by (rule cec_get_digital_cong) simp

text \<open>
  The ten bits of the major channel number: the two high ones share a byte with the format, and the
  decoder puts them back at bit 6.
\<close>

lemma channel_bytes:
  assumes "f < 64" "j < 1024"
  shows "to_u8 (drop_bit 2 (to_int (to_u8 (push_bit 2 (to_int f) OR drop_bit 8 (to_int j))))) = f"
    and "to_u16 (push_bit 6 (to_int (to_u8 (push_bit 2 (to_int f) OR drop_bit 8 (to_int j))) AND 3) OR
           to_int (to_u8 (to_int j AND 0xff))) =
         push_bit 6 (drop_bit 8 j) OR take_bit 8 j"
proof -
  have "unat (to_int j) < 1024" using assms(2) by (simp add: to_int_def unat_ucast_up word_less_nat_alt)
  then have r: "unat (drop_bit 8 (to_int j)) < 2 ^ 2" by (simp add: drop_bit_eq_div unat_div)
  have q: "unat (to_int f) < 2 ^ (8 - 2)" using assms(1) by (simp add: word_less_nat_alt)
  note two = two_fields [OF q r]
  show "to_u8 (drop_bit 2 (to_int (to_u8 (push_bit 2 (to_int f) OR drop_bit 8 (to_int j))))) = f"
    using two(1) by simp
  have "to_u16 (push_bit 6 (drop_bit 8 (to_int j)) OR to_int (to_u8 (to_int j AND 0xff))) =
      push_bit 6 (drop_bit 8 j) OR take_bit 8 j"
    unfolding to_u16_def to_u8_def to_int_def
    by (rule bit_word_eqI) (auto simp: bit_simps mask_lits(1) dest: bit_imp_le_length)
  then show "to_u16 (push_bit 6 (to_int (to_u8 (push_bit 2 (to_int f) OR drop_bit 8 (to_int j))) AND 3) OR
      to_int (to_u8 (to_int j AND 0xff))) = push_bit 6 (drop_bit 8 j) OR take_bit 8 j"
    using two(2) by (simp add: mask_lits(4))
qed

lemma take_bit_8_iff: "take_bit 8 j = j \<longleftrightarrow> j < (256 :: u16)"
proof
  assume "take_bit 8 j = j"
  then have "unat j = take_bit 8 (unat j)" by (metis unsigned_take_bit_eq)
  moreover have "take_bit 8 (unat j) < 2 ^ 8" by (rule take_bit_nat_less_exp)
  ultimately show "j < 256" by (simp add: word_less_nat_alt)
next
  assume "j < 256"
  then show "take_bit 8 j = j" by (intro take_bit_small) (simp add: word_less_nat_alt)
qed

lemma major_shift_iff:
  assumes "j < 1024"
  shows "push_bit 6 (drop_bit 8 j) OR take_bit 8 j = j \<longleftrightarrow> j < (256 :: u16)" (is "?l = j \<longleftrightarrow> _")
proof -
  have ten: "take_bit 10 j = j" using assms by (intro take_bit_small) (simp add: word_less_nat_alt)
  have high: "\<not> bit j n" if "10 \<le> n" for n
    using that ten by (metis bit_take_bit_iff not_le)
  have "take_bit 8 j = j" if eq: "?l = j"
  proof (rule bit_word_eqI)
    fix n
    assume n: "n < LENGTH(16)"
    have "bit j n = bit ?l n" by (simp add: eq)
    also have "\<dots> = (6 \<le> n \<and> bit j (n + 2) \<or> n < 8 \<and> bit j n)"
      using n by (auto simp: bit_simps ac_simps)
    finally show "bit (take_bit 8 j) n = bit j n"
      using high [of "n + 2"] by (cases "n < 8") (auto simp: bit_simps)
  qed
  moreover have "?l = j" if t: "take_bit 8 j = j"
  proof -
    have "drop_bit 8 j = 0"
      by (rule bit_word_eqI) (use t in \<open>auto simp: bit_simps dest!: arg_cong [where f = "\<lambda>w. bit w (8 + _)"]\<close>)
    then show ?thesis by (simp add: t)
  qed
  ultimately show ?thesis using take_bit_8_iff by blast
qed

lemma cec_get_set_digital:
  assumes "cec_wf m" "p + 7 \<le> 16" "dig_fits d"
  shows "dig_service_of (cec_get_digital_service_id (cec_set_digital_service_id m p d) p d0) =
    (if ds_service_id_method d = CEC_OP_SERVICE_ID_METHOD_BY_CHANNEL then
       By_channel (ds_dig_bcast_system d) (ch_number_fmt (ds_channel d))
         (push_bit 6 (drop_bit 8 (ch_major (ds_channel d))) OR take_bit 8 (ch_major (ds_channel d)))
         (ch_minor (ds_channel d))
     else dig_service_of d)"
proof -
  from assms(3) have fit: "ds_service_id_method d < 2" "ds_dig_bcast_system d < 128"
    and ch: "ds_service_id_method d = CEC_OP_SERVICE_ID_METHOD_BY_CHANNEL \<Longrightarrow>
      lo8 (ds_h0 d) < 64 \<and> ds_h1 d < 1024"
    by (auto simp: dig_fits_def ds_channel_def)
  show ?thesis
  proof (cases "ds_service_id_method d = CEC_OP_SERVICE_ID_METHOD_BY_CHANNEL")
    case True
    with fit ch assms(1,2) show ?thesis
      by (simp add: cec_set_digital_service_id_def cec_get_digital_service_id_def Let_def
          dig_service_of_def ds_channel_def channel_bytes del: push_bit_and)
  next
    case False
    with fit assms(1,2) show ?thesis
      by (simp add: cec_set_digital_service_id_def cec_get_digital_service_id_def Let_def
          dig_service_of_def ds_atsc_def ds_dvb_def)
  qed
qed

lemma cec_get_set_digital_ok [simp]:
  assumes "cec_wf m" "p + 7 \<le> 16" "dig_ok d"
  shows "dig_service_of (cec_get_digital_service_id (cec_set_digital_service_id m p d) p d0) = dig_service_of d"
proof -
  have "push_bit 6 (drop_bit 8 (ch_major (ds_channel d))) OR take_bit 8 (ch_major (ds_channel d)) =
      ch_major (ds_channel d)" if "ds_service_id_method d = CEC_OP_SERVICE_ID_METHOD_BY_CHANNEL"
    using assms(3) that major_shift_iff by (auto simp: dig_ok_def dig_fits_def)
  moreover have "dig_fits d" using assms(3) by (simp add: dig_ok_def)
  ultimately show ?thesis using cec_get_set_digital [OF assms(1,2), of d d0] by (auto simp: dig_service_of_def)
qed

lemma digital_delivered_cong:
  assumes "cec_delivered (cec_set_digital_service_id m p d) m'" "p + 7 \<le> unat (cm_len m)"
  shows "cec_get_digital_service_id m' p d0 =
    cec_get_digital_service_id (cec_set_digital_service_id m p d) p d0"
  using cec_delivered_at [OF assms(1)] assms(2) by (intro cec_get_digital_cong) simp

subsection \<open>Recording sources\<close>

lemma rec_types_distinct [simp]:
  "CEC_OP_RECORD_SRC_OWN \<noteq> CEC_OP_RECORD_SRC_DIGITAL"
  "CEC_OP_RECORD_SRC_OWN \<noteq> CEC_OP_RECORD_SRC_ANALOG"
  "CEC_OP_RECORD_SRC_OWN \<noteq> CEC_OP_RECORD_SRC_EXT_PLUG"
  "CEC_OP_RECORD_SRC_OWN \<noteq> CEC_OP_RECORD_SRC_EXT_PHYS_ADDR"
  "CEC_OP_RECORD_SRC_DIGITAL \<noteq> CEC_OP_RECORD_SRC_OWN"
  "CEC_OP_RECORD_SRC_DIGITAL \<noteq> CEC_OP_RECORD_SRC_ANALOG"
  "CEC_OP_RECORD_SRC_DIGITAL \<noteq> CEC_OP_RECORD_SRC_EXT_PLUG"
  "CEC_OP_RECORD_SRC_DIGITAL \<noteq> CEC_OP_RECORD_SRC_EXT_PHYS_ADDR"
  "CEC_OP_RECORD_SRC_ANALOG \<noteq> CEC_OP_RECORD_SRC_OWN"
  "CEC_OP_RECORD_SRC_ANALOG \<noteq> CEC_OP_RECORD_SRC_DIGITAL"
  "CEC_OP_RECORD_SRC_ANALOG \<noteq> CEC_OP_RECORD_SRC_EXT_PLUG"
  "CEC_OP_RECORD_SRC_ANALOG \<noteq> CEC_OP_RECORD_SRC_EXT_PHYS_ADDR"
  "CEC_OP_RECORD_SRC_EXT_PLUG \<noteq> CEC_OP_RECORD_SRC_OWN"
  "CEC_OP_RECORD_SRC_EXT_PLUG \<noteq> CEC_OP_RECORD_SRC_DIGITAL"
  "CEC_OP_RECORD_SRC_EXT_PLUG \<noteq> CEC_OP_RECORD_SRC_ANALOG"
  "CEC_OP_RECORD_SRC_EXT_PLUG \<noteq> CEC_OP_RECORD_SRC_EXT_PHYS_ADDR"
  "CEC_OP_RECORD_SRC_EXT_PHYS_ADDR \<noteq> CEC_OP_RECORD_SRC_OWN"
  "CEC_OP_RECORD_SRC_EXT_PHYS_ADDR \<noteq> CEC_OP_RECORD_SRC_DIGITAL"
  "CEC_OP_RECORD_SRC_EXT_PHYS_ADDR \<noteq> CEC_OP_RECORD_SRC_ANALOG"
  "CEC_OP_RECORD_SRC_EXT_PHYS_ADDR \<noteq> CEC_OP_RECORD_SRC_EXT_PLUG"
  by (simp_all add: cec_const)

lemma rec_source_ok_cases:
  assumes "rec_source_ok r"
  obtains (own) "rs_type r = CEC_OP_RECORD_SRC_OWN"
    | (digital) "rs_type r = CEC_OP_RECORD_SRC_DIGITAL" "dig_ok (un_digital (rs_un r))"
    | (analog) "rs_type r = CEC_OP_RECORD_SRC_ANALOG"
    | (plug) "rs_type r = CEC_OP_RECORD_SRC_EXT_PLUG"
    | (phys_addr) "rs_type r = CEC_OP_RECORD_SRC_EXT_PHYS_ADDR"
  using assms by (auto simp: rec_source_ok_def rec_source_of_def split: if_splits)

lemma cec_msg_record_on_wf: "cec_wf m \<Longrightarrow> cec_wf (cec_msg_record_on m reply r)"
  by (simp add: cec_msgs Let_def)

lemmas record_on_simps = cec_msgs cec_ops cec_frame_simps rec_source_of_def digital_delivered_cong

interpretation record_on: cec_codec
    "\<lambda>rec_src m. cec_msg_record_on m reply rec_src"
    CEC_MSG_RECORD_ON rec_source_ok
    "\<lambda>m. rec_source_of (cec_ops_record_on m old)" rec_source_of
  for reply old
proof
  fix m :: cec_msg and r m'
  assume m: "cec_wf m"
  then show "cec_wf (cec_msg_record_on m reply r)" by (rule cec_msg_record_on_wf)
  assume r: "rec_source_ok r"
  then show "msg_at (cec_msg_record_on m reply r) 1 = CEC_MSG_RECORD_ON"
    by (cases rule: rec_source_ok_cases) (simp_all add: m record_on_simps)
  show "2 \<le> unat (cm_len (cec_msg_record_on m reply r)) \<and> unat (cm_len (cec_msg_record_on m reply r)) \<le> 16"
    using r by (cases rule: rec_source_ok_cases) (simp_all add: m record_on_simps)
  show "cec_msg_initiator (cec_msg_record_on m reply r) = cec_msg_initiator m"
    using r by (cases rule: rec_source_ok_cases) (simp_all add: m record_on_simps)
  show "rec_source_of (cec_ops_record_on (cec_msg_record_on m reply r) old) = rec_source_of r"
    using r by (cases rule: rec_source_ok_cases) (simp_all add: m record_on_simps)
  assume "cec_delivered (cec_msg_record_on m reply r) m'"
  with r show "rec_source_of (cec_ops_record_on m' old) =
      rec_source_of (cec_ops_record_on (cec_msg_record_on m reply r) old)"
    by (cases rule: rec_source_ok_cases) (simp_all add: m record_on_simps)
qed

end
