(* ===== verification/Cec_Timer.thy ===== *)
theory Cec_Timer
  imports Cec_Routing
begin

section \<open>CEC codec: timer programming\<close>

text \<open>
  The timer messages: hours and minutes travel in binary coded decimal, digital timers carry a
  digital service identification, and the title is a counted string of at most 14 bytes.
\<close>

unbundle bit_operations_syntax

subsection \<open>Timer Programming Feature\<close>

definition cec_msg_timer_status ::
    "cec_msg \<Rightarrow> u8 \<Rightarrow> u8 \<Rightarrow> u8 \<Rightarrow> u8 \<Rightarrow> u8 \<Rightarrow> u8 \<Rightarrow> cec_msg" where
  [cec_msgs]: "cec_msg_timer_status m timer_overlap_warning media_info prog_info prog_error
      duration_hr duration_min =
     (let m = m\<lparr>cm_len := 3\<rparr>;
          m = msg_put m 1 CEC_MSG_TIMER_STATUS;
          m = msg_put m 2 (to_u8 (push_bit 7 (to_int timer_overlap_warning) OR
                                  push_bit 5 (to_int media_info) OR
                                  (if prog_info \<noteq> 0 then 0x10 else 0) OR
                                  to_int (if prog_info \<noteq> 0 then prog_info else prog_error)))
      in if prog_info = CEC_OP_PROG_INFO_NOT_ENOUGH_SPACE \<or>
            prog_info = CEC_OP_PROG_INFO_MIGHT_NOT_BE_ENOUGH_SPACE \<or>
            prog_error = CEC_OP_PROG_ERROR_DUPLICATE then
        (let m = m\<lparr>cm_len := cm_len m + 2\<rparr>;
             m = msg_put m 3 (to_u8 (push_bit 4 (to_int duration_hr div 10) OR (to_int duration_hr mod 10)));
             m = msg_put m 4 (to_u8 (push_bit 4 (to_int duration_min div 10) OR (to_int duration_min mod 10)))
         in m)
      else m)"

definition cec_ops_timer_status :: "cec_msg \<Rightarrow> u8 \<times> u8 \<times> u8 \<times> u8 \<times> u8 \<times> u8" where
  [cec_ops]: "cec_ops_timer_status m =
     (let timer_overlap_warning = to_u8 (drop_bit 7 (to_int (msg_at m 2)));
          media_info = to_u8 (drop_bit 5 (to_int (msg_at m 2)) AND 3);
          (prog_info, prog_error) =
            (if to_int (msg_at m 2) AND 0x10 \<noteq> 0 then (to_u8 (to_int (msg_at m 2) AND 0xf), 0)
             else (0, to_u8 (to_int (msg_at m 2) AND 0xf)));
          (duration_hr, duration_min) =
            (if prog_info = CEC_OP_PROG_INFO_NOT_ENOUGH_SPACE \<or>
                prog_info = CEC_OP_PROG_INFO_MIGHT_NOT_BE_ENOUGH_SPACE \<or>
                prog_error = CEC_OP_PROG_ERROR_DUPLICATE then
               (to_u8 ((drop_bit 4 (to_int (msg_at m 3)) * 10) + (to_int (msg_at m 3) AND 0xf)),
                to_u8 ((drop_bit 4 (to_int (msg_at m 4)) * 10) + (to_int (msg_at m 4) AND 0xf)))
             else (0, 0))
      in (timer_overlap_warning, media_info, prog_info, prog_error, duration_hr, duration_min))"

definition cec_msg_timer_cleared_status :: "cec_msg \<Rightarrow> u8 \<Rightarrow> cec_msg" where
  [cec_msgs]: "cec_msg_timer_cleared_status m timer_cleared_status =
     (let m = m\<lparr>cm_len := 3\<rparr>;
          m = msg_put m 1 CEC_MSG_TIMER_CLEARED_STATUS;
          m = msg_put m 2 timer_cleared_status
      in m)"

definition cec_ops_timer_cleared_status :: "cec_msg \<Rightarrow> u8" where
  [cec_ops]: "cec_ops_timer_cleared_status m = msg_at m 2"

definition cec_msg_clear_analogue_timer :: "cec_msg \<Rightarrow> s32 \<Rightarrow> u8
    \<Rightarrow> u8 \<Rightarrow> u8 \<Rightarrow> u8 \<Rightarrow> u8 \<Rightarrow> u8
    \<Rightarrow> u8 \<Rightarrow> u8 \<Rightarrow> u16 \<Rightarrow> u8 \<Rightarrow> cec_msg"
    where
  [cec_msgs]: "cec_msg_clear_analogue_timer m reply day month start_hr start_min duration_hr
      duration_min recording_seq ana_bcast_type ana_freq bcast_system =
     (let m = m\<lparr>cm_len := 13\<rparr>;
          m = msg_put m 1 CEC_MSG_CLEAR_ANALOGUE_TIMER;
          m = msg_put m 2 day;
          m = msg_put m 3 month;
          m = msg_put m 4 (to_u8 (push_bit 4 (to_int start_hr div 10) OR (to_int start_hr mod 10)));
          m = msg_put m 5 (to_u8 (push_bit 4 (to_int start_min div 10) OR (to_int start_min mod 10)));
          m = msg_put m 6 (to_u8 (push_bit 4 (to_int duration_hr div 10) OR (to_int duration_hr mod 10)));
          m = msg_put m 7 (to_u8 (push_bit 4 (to_int duration_min div 10) OR (to_int duration_min mod 10)));
          m = msg_put m 8 recording_seq;
          m = msg_put m 9 ana_bcast_type;
          m = msg_put m 10 (to_u8 (drop_bit 8 (to_int ana_freq)));
          m = msg_put m 11 (to_u8 (to_int ana_freq AND 0xff));
          m = msg_put m 12 bcast_system;
          m = m\<lparr>cm_reply := if reply \<noteq> 0 then CEC_MSG_TIMER_CLEARED_STATUS else 0\<rparr>
      in m)"

definition cec_ops_clear_analogue_timer :: "cec_msg \<Rightarrow> u8 \<times> u8 \<times> u8
    \<times> u8 \<times> u8 \<times> u8 \<times> u8 \<times> u8 \<times> u16 \<times> u8" where
  [cec_ops]: "cec_ops_clear_analogue_timer m =
     (msg_at m 2,
      msg_at m 3,
      to_u8 ((drop_bit 4 (to_int (msg_at m 4)) * 10) + (to_int (msg_at m 4) AND 0xf)),
      to_u8 ((drop_bit 4 (to_int (msg_at m 5)) * 10) + (to_int (msg_at m 5) AND 0xf)),
      to_u8 ((drop_bit 4 (to_int (msg_at m 6)) * 10) + (to_int (msg_at m 6) AND 0xf)),
      to_u8 ((drop_bit 4 (to_int (msg_at m 7)) * 10) + (to_int (msg_at m 7) AND 0xf)),
      msg_at m 8,
      msg_at m 9,
      to_u16 (push_bit 8 (to_int (msg_at m 10)) OR to_int (msg_at m 11)),
      msg_at m 12)"

definition cec_msg_clear_digital_timer ::
    "cec_msg \<Rightarrow> s32 \<Rightarrow> u8 \<Rightarrow> u8 \<Rightarrow> u8 \<Rightarrow> u8 \<Rightarrow> u8 \<Rightarrow> u8 \<Rightarrow> u8 \<Rightarrow> cec_op_digital_service_id \<Rightarrow> cec_msg" where
  [cec_msgs]: "cec_msg_clear_digital_timer m reply day month start_hr start_min duration_hr duration_min
      recording_seq digital =
     (let m = m\<lparr>cm_len := 16\<rparr>;
          m = m\<lparr>cm_reply := if reply \<noteq> 0 then CEC_MSG_TIMER_CLEARED_STATUS else 0\<rparr>;
          m = msg_put m 1 CEC_MSG_CLEAR_DIGITAL_TIMER;
          m = msg_put m 2 day;
          m = msg_put m 3 month;
          m = msg_put m 4 (to_u8 (push_bit 4 (to_int start_hr div 10) OR (to_int start_hr mod 10)));
          m = msg_put m 5 (to_u8 (push_bit 4 (to_int start_min div 10) OR (to_int start_min mod 10)));
          m = msg_put m 6 (to_u8 (push_bit 4 (to_int duration_hr div 10) OR (to_int duration_hr mod 10)));
          m = msg_put m 7 (to_u8 (push_bit 4 (to_int duration_min div 10) OR (to_int duration_min mod 10)));
          m = msg_put m 8 recording_seq;
          m = cec_set_digital_service_id m 9 digital
      in m)"

definition cec_ops_clear_digital_timer ::
    "cec_msg \<Rightarrow> cec_op_digital_service_id \<Rightarrow>
       u8 \<times> u8 \<times> u8 \<times> u8 \<times> u8 \<times> u8 \<times> u8 \<times> cec_op_digital_service_id" where
  [cec_ops]: "cec_ops_clear_digital_timer m digital =
     (msg_at m 2,
      msg_at m 3,
      to_u8 ((drop_bit 4 (to_int (msg_at m 4)) * 10) + (to_int (msg_at m 4) AND 0xf)),
      to_u8 ((drop_bit 4 (to_int (msg_at m 5)) * 10) + (to_int (msg_at m 5) AND 0xf)),
      to_u8 ((drop_bit 4 (to_int (msg_at m 6)) * 10) + (to_int (msg_at m 6) AND 0xf)),
      to_u8 ((drop_bit 4 (to_int (msg_at m 7)) * 10) + (to_int (msg_at m 7) AND 0xf)),
      msg_at m 8,
      cec_get_digital_service_id m 9 digital)"

definition cec_msg_clear_ext_timer :: "cec_msg \<Rightarrow> s32 \<Rightarrow> u8 \<Rightarrow> u8
    \<Rightarrow> u8 \<Rightarrow> u8 \<Rightarrow> u8 \<Rightarrow> u8 \<Rightarrow> u8
    \<Rightarrow> u8 \<Rightarrow> u8 \<Rightarrow> u16 \<Rightarrow> cec_msg" where
  [cec_msgs]: "cec_msg_clear_ext_timer m reply day month start_hr start_min duration_hr duration_min
      recording_seq ext_src_spec plug phys_addr =
     (let m = m\<lparr>cm_len := 13\<rparr>;
          m = msg_put m 1 CEC_MSG_CLEAR_EXT_TIMER;
          m = msg_put m 2 day;
          m = msg_put m 3 month;
          m = msg_put m 4 (to_u8 (push_bit 4 (to_int start_hr div 10) OR (to_int start_hr mod 10)));
          m = msg_put m 5 (to_u8 (push_bit 4 (to_int start_min div 10) OR (to_int start_min mod 10)));
          m = msg_put m 6 (to_u8 (push_bit 4 (to_int duration_hr div 10) OR (to_int duration_hr mod 10)));
          m = msg_put m 7 (to_u8 (push_bit 4 (to_int duration_min div 10) OR (to_int duration_min mod 10)));
          m = msg_put m 8 recording_seq;
          m = msg_put m 9 ext_src_spec;
          m = msg_put m 10 plug;
          m = msg_put m 11 (to_u8 (drop_bit 8 (to_int phys_addr)));
          m = msg_put m 12 (to_u8 (to_int phys_addr AND 0xff));
          m = m\<lparr>cm_reply := if reply \<noteq> 0 then CEC_MSG_TIMER_CLEARED_STATUS else 0\<rparr>
      in m)"

definition cec_ops_clear_ext_timer :: "cec_msg \<Rightarrow> u8 \<times> u8 \<times> u8 \<times>
    u8 \<times> u8 \<times> u8 \<times> u8 \<times> u8 \<times> u8 \<times> u16" where
  [cec_ops]: "cec_ops_clear_ext_timer m =
     (msg_at m 2,
      msg_at m 3,
      to_u8 ((drop_bit 4 (to_int (msg_at m 4)) * 10) + (to_int (msg_at m 4) AND 0xf)),
      to_u8 ((drop_bit 4 (to_int (msg_at m 5)) * 10) + (to_int (msg_at m 5) AND 0xf)),
      to_u8 ((drop_bit 4 (to_int (msg_at m 6)) * 10) + (to_int (msg_at m 6) AND 0xf)),
      to_u8 ((drop_bit 4 (to_int (msg_at m 7)) * 10) + (to_int (msg_at m 7) AND 0xf)),
      msg_at m 8,
      msg_at m 9,
      msg_at m 10,
      to_u16 (push_bit 8 (to_int (msg_at m 11)) OR to_int (msg_at m 12)))"

definition cec_msg_set_analogue_timer :: "cec_msg \<Rightarrow> s32 \<Rightarrow> u8 \<Rightarrow>
    u8 \<Rightarrow> u8 \<Rightarrow> u8 \<Rightarrow> u8 \<Rightarrow> u8 \<Rightarrow> u8
    \<Rightarrow> u8 \<Rightarrow> u16 \<Rightarrow> u8 \<Rightarrow> cec_msg" where
  [cec_msgs]: "cec_msg_set_analogue_timer m reply day month start_hr start_min duration_hr
      duration_min recording_seq ana_bcast_type ana_freq bcast_system =
     (let m = m\<lparr>cm_len := 13\<rparr>;
          m = msg_put m 1 CEC_MSG_SET_ANALOGUE_TIMER;
          m = msg_put m 2 day;
          m = msg_put m 3 month;
          m = msg_put m 4 (to_u8 (push_bit 4 (to_int start_hr div 10) OR (to_int start_hr mod 10)));
          m = msg_put m 5 (to_u8 (push_bit 4 (to_int start_min div 10) OR (to_int start_min mod 10)));
          m = msg_put m 6 (to_u8 (push_bit 4 (to_int duration_hr div 10) OR (to_int duration_hr mod 10)));
          m = msg_put m 7 (to_u8 (push_bit 4 (to_int duration_min div 10) OR (to_int duration_min mod 10)));
          m = msg_put m 8 recording_seq;
          m = msg_put m 9 ana_bcast_type;
          m = msg_put m 10 (to_u8 (drop_bit 8 (to_int ana_freq)));
          m = msg_put m 11 (to_u8 (to_int ana_freq AND 0xff));
          m = msg_put m 12 bcast_system;
          m = m\<lparr>cm_reply := if reply \<noteq> 0 then CEC_MSG_TIMER_STATUS else 0\<rparr>
      in m)"

definition cec_ops_set_analogue_timer :: "cec_msg \<Rightarrow> u8 \<times> u8 \<times> u8
    \<times> u8 \<times> u8 \<times> u8 \<times> u8 \<times> u8 \<times> u16 \<times> u8" where
  [cec_ops]: "cec_ops_set_analogue_timer m =
     (msg_at m 2,
      msg_at m 3,
      to_u8 ((drop_bit 4 (to_int (msg_at m 4)) * 10) + (to_int (msg_at m 4) AND 0xf)),
      to_u8 ((drop_bit 4 (to_int (msg_at m 5)) * 10) + (to_int (msg_at m 5) AND 0xf)),
      to_u8 ((drop_bit 4 (to_int (msg_at m 6)) * 10) + (to_int (msg_at m 6) AND 0xf)),
      to_u8 ((drop_bit 4 (to_int (msg_at m 7)) * 10) + (to_int (msg_at m 7) AND 0xf)),
      msg_at m 8,
      msg_at m 9,
      to_u16 (push_bit 8 (to_int (msg_at m 10)) OR to_int (msg_at m 11)),
      msg_at m 12)"

definition cec_msg_set_digital_timer ::
    "cec_msg \<Rightarrow> s32 \<Rightarrow> u8 \<Rightarrow> u8 \<Rightarrow> u8 \<Rightarrow> u8 \<Rightarrow> u8 \<Rightarrow> u8 \<Rightarrow> u8 \<Rightarrow> cec_op_digital_service_id \<Rightarrow> cec_msg" where
  [cec_msgs]: "cec_msg_set_digital_timer m reply day month start_hr start_min duration_hr duration_min
      recording_seq digital =
     (let m = m\<lparr>cm_len := 16\<rparr>;
          m = m\<lparr>cm_reply := if reply \<noteq> 0 then CEC_MSG_TIMER_STATUS else 0\<rparr>;
          m = msg_put m 1 CEC_MSG_SET_DIGITAL_TIMER;
          m = msg_put m 2 day;
          m = msg_put m 3 month;
          m = msg_put m 4 (to_u8 (push_bit 4 (to_int start_hr div 10) OR (to_int start_hr mod 10)));
          m = msg_put m 5 (to_u8 (push_bit 4 (to_int start_min div 10) OR (to_int start_min mod 10)));
          m = msg_put m 6 (to_u8 (push_bit 4 (to_int duration_hr div 10) OR (to_int duration_hr mod 10)));
          m = msg_put m 7 (to_u8 (push_bit 4 (to_int duration_min div 10) OR (to_int duration_min mod 10)));
          m = msg_put m 8 recording_seq;
          m = cec_set_digital_service_id m 9 digital
      in m)"

definition cec_ops_set_digital_timer ::
    "cec_msg \<Rightarrow> cec_op_digital_service_id \<Rightarrow>
       u8 \<times> u8 \<times> u8 \<times> u8 \<times> u8 \<times> u8 \<times> u8 \<times> cec_op_digital_service_id" where
  [cec_ops]: "cec_ops_set_digital_timer m digital =
     (msg_at m 2,
      msg_at m 3,
      to_u8 ((drop_bit 4 (to_int (msg_at m 4)) * 10) + (to_int (msg_at m 4) AND 0xf)),
      to_u8 ((drop_bit 4 (to_int (msg_at m 5)) * 10) + (to_int (msg_at m 5) AND 0xf)),
      to_u8 ((drop_bit 4 (to_int (msg_at m 6)) * 10) + (to_int (msg_at m 6) AND 0xf)),
      to_u8 ((drop_bit 4 (to_int (msg_at m 7)) * 10) + (to_int (msg_at m 7) AND 0xf)),
      msg_at m 8,
      cec_get_digital_service_id m 9 digital)"

definition cec_msg_set_ext_timer :: "cec_msg \<Rightarrow> s32 \<Rightarrow> u8 \<Rightarrow> u8
    \<Rightarrow> u8 \<Rightarrow> u8 \<Rightarrow> u8 \<Rightarrow> u8 \<Rightarrow> u8
    \<Rightarrow> u8 \<Rightarrow> u8 \<Rightarrow> u16 \<Rightarrow> cec_msg" where
  [cec_msgs]: "cec_msg_set_ext_timer m reply day month start_hr start_min duration_hr duration_min
      recording_seq ext_src_spec plug phys_addr =
     (let m = m\<lparr>cm_len := 13\<rparr>;
          m = msg_put m 1 CEC_MSG_SET_EXT_TIMER;
          m = msg_put m 2 day;
          m = msg_put m 3 month;
          m = msg_put m 4 (to_u8 (push_bit 4 (to_int start_hr div 10) OR (to_int start_hr mod 10)));
          m = msg_put m 5 (to_u8 (push_bit 4 (to_int start_min div 10) OR (to_int start_min mod 10)));
          m = msg_put m 6 (to_u8 (push_bit 4 (to_int duration_hr div 10) OR (to_int duration_hr mod 10)));
          m = msg_put m 7 (to_u8 (push_bit 4 (to_int duration_min div 10) OR (to_int duration_min mod 10)));
          m = msg_put m 8 recording_seq;
          m = msg_put m 9 ext_src_spec;
          m = msg_put m 10 plug;
          m = msg_put m 11 (to_u8 (drop_bit 8 (to_int phys_addr)));
          m = msg_put m 12 (to_u8 (to_int phys_addr AND 0xff));
          m = m\<lparr>cm_reply := if reply \<noteq> 0 then CEC_MSG_TIMER_STATUS else 0\<rparr>
      in m)"

definition cec_ops_set_ext_timer :: "cec_msg \<Rightarrow> u8 \<times> u8 \<times> u8 \<times> u8
    \<times> u8 \<times> u8 \<times> u8 \<times> u8 \<times> u8 \<times> u16" where
  [cec_ops]: "cec_ops_set_ext_timer m =
     (msg_at m 2,
      msg_at m 3,
      to_u8 ((drop_bit 4 (to_int (msg_at m 4)) * 10) + (to_int (msg_at m 4) AND 0xf)),
      to_u8 ((drop_bit 4 (to_int (msg_at m 5)) * 10) + (to_int (msg_at m 5) AND 0xf)),
      to_u8 ((drop_bit 4 (to_int (msg_at m 6)) * 10) + (to_int (msg_at m 6) AND 0xf)),
      to_u8 ((drop_bit 4 (to_int (msg_at m 7)) * 10) + (to_int (msg_at m 7) AND 0xf)),
      msg_at m 8,
      msg_at m 9,
      msg_at m 10,
      to_u16 (push_bit 8 (to_int (msg_at m 11)) OR to_int (msg_at m 12)))"

definition cec_msg_set_timer_program_title :: "cec_msg \<Rightarrow> u8 list \<Rightarrow> cec_msg result" where
  "cec_msg_set_timer_program_title m prog_title =
     res_bind (c_string prog_title) (\<lambda>s.
       let len = of_nat (length s) :: u32;
           len = (if len > 14 then 14 else len);
           m = m\<lparr>cm_len := 2 + len\<rparr>;
           m = msg_put m 1 CEC_MSG_SET_TIMER_PROGRAM_TITLE
       in msg_copy m 2 prog_title (unat len))"

definition cec_ops_set_timer_program_title :: "cec_msg \<Rightarrow> u8 list \<Rightarrow> u8 list result" where
  "cec_ops_set_timer_program_title m prog_title =
     (let len = (if cm_len m > 2 then cm_len m - 2 else 0);
          len = (if len > 14 then 14 else len)
      in copy_string m 2 (unat len) prog_title)"

subsection \<open>Specification\<close>

text \<open>
  The arguments of a timer status that its format can carry: the programmed information and the
  error exclude each other, and the duration travels only with three of their values.
\<close>

definition timer_status_ok :: "u8 \<times> u8 \<times> u8 \<times> u8 \<times> u8 \<times> u8 \<Rightarrow> bool" where
  "timer_status_ok = (\<lambda>(timer_overlap_warning, media_info, prog_info, prog_error, duration_hr, duration_min).
     timer_overlap_warning < 2 \<and> media_info < 4 \<and> prog_info < 16 \<and> prog_error < 16 \<and>
     (prog_info = 0 \<or> prog_error = 0) \<and> duration_hr < 160 \<and> duration_min < 160 \<and>
     (prog_info = CEC_OP_PROG_INFO_NOT_ENOUGH_SPACE \<or>
      prog_info = CEC_OP_PROG_INFO_MIGHT_NOT_BE_ENOUGH_SPACE \<or>
      prog_error = CEC_OP_PROG_ERROR_DUPLICATE \<or> duration_hr = 0 \<and> duration_min = 0))"

text \<open>The arguments of a digital timer, and what of them travels.\<close>

type_synonym digital_timer = "u8 \<times> u8 \<times> u8 \<times> u8 \<times> u8 \<times> u8 \<times> u8 \<times> cec_op_digital_service_id"

definition digital_timer_ok :: "digital_timer \<Rightarrow> bool" where
  "digital_timer_ok = (\<lambda>(day, month, start_hr, start_min, duration_hr, duration_min, recording_seq, digital).
     start_hr < 160 \<and> start_min < 160 \<and> duration_hr < 160 \<and> duration_min < 160 \<and> dig_ok digital)"

definition digital_timer_of ::
    "digital_timer \<Rightarrow> u8 \<times> u8 \<times> u8 \<times> u8 \<times> u8 \<times> u8 \<times> u8 \<times> dig_service" where
  "digital_timer_of = (\<lambda>(day, month, start_hr, start_min, duration_hr, duration_min, recording_seq, digital).
     (day, month, start_hr, start_min, duration_hr, duration_min, recording_seq, dig_service_of digital))"

subsection \<open>What is encoded is what is decoded\<close>

interpretation timer_cleared_status: cec_codec
    "\<lambda>timer_cleared_status m. cec_msg_timer_cleared_status m timer_cleared_status"
    CEC_MSG_TIMER_CLEARED_STATUS "\<lambda>_. True"
    cec_ops_timer_cleared_status "\<lambda>a. a"
  by unfold_locales (simp_all add: cec_msgs cec_ops cec_frame_simps split_beta)

interpretation clear_analogue_timer: cec_codec
    "\<lambda>(day, month, start_hr, start_min, duration_hr, duration_min, recording_seq, ana_bcast_type, ana_freq, bcast_system) m.
       cec_msg_clear_analogue_timer m reply day month start_hr start_min duration_hr duration_min recording_seq ana_bcast_type ana_freq bcast_system"
    CEC_MSG_CLEAR_ANALOGUE_TIMER "\<lambda>(day, month, start_hr, start_min, duration_hr, duration_min, recording_seq, ana_bcast_type, ana_freq, bcast_system).
       start_hr < 160 \<and> start_min < 160 \<and> duration_hr < 160 \<and> duration_min < 160"
    cec_ops_clear_analogue_timer "\<lambda>a. a"
  for reply
  by unfold_locales (simp_all add: cec_msgs cec_ops cec_frame_simps split_beta)

interpretation clear_ext_timer: cec_codec
    "\<lambda>(day, month, start_hr, start_min, duration_hr, duration_min, recording_seq, ext_src_spec, plug, phys_addr) m.
       cec_msg_clear_ext_timer m reply day month start_hr start_min duration_hr duration_min recording_seq ext_src_spec plug phys_addr"
    CEC_MSG_CLEAR_EXT_TIMER "\<lambda>(day, month, start_hr, start_min, duration_hr, duration_min, recording_seq, ext_src_spec, plug, phys_addr).
       start_hr < 160 \<and> start_min < 160 \<and> duration_hr < 160 \<and> duration_min < 160"
    cec_ops_clear_ext_timer "\<lambda>a. a"
  for reply
  by unfold_locales (simp_all add: cec_msgs cec_ops cec_frame_simps split_beta)

interpretation set_analogue_timer: cec_codec
    "\<lambda>(day, month, start_hr, start_min, duration_hr, duration_min, recording_seq, ana_bcast_type, ana_freq, bcast_system) m.
       cec_msg_set_analogue_timer m reply day month start_hr start_min duration_hr duration_min recording_seq ana_bcast_type ana_freq bcast_system"
    CEC_MSG_SET_ANALOGUE_TIMER "\<lambda>(day, month, start_hr, start_min, duration_hr, duration_min, recording_seq, ana_bcast_type, ana_freq, bcast_system).
       start_hr < 160 \<and> start_min < 160 \<and> duration_hr < 160 \<and> duration_min < 160"
    cec_ops_set_analogue_timer "\<lambda>a. a"
  for reply
  by unfold_locales (simp_all add: cec_msgs cec_ops cec_frame_simps split_beta)

interpretation set_ext_timer: cec_codec
    "\<lambda>(day, month, start_hr, start_min, duration_hr, duration_min, recording_seq, ext_src_spec, plug, phys_addr) m.
       cec_msg_set_ext_timer m reply day month start_hr start_min duration_hr duration_min recording_seq ext_src_spec plug phys_addr"
    CEC_MSG_SET_EXT_TIMER "\<lambda>(day, month, start_hr, start_min, duration_hr, duration_min, recording_seq, ext_src_spec, plug, phys_addr).
       start_hr < 160 \<and> start_min < 160 \<and> duration_hr < 160 \<and> duration_min < 160"
    cec_ops_set_ext_timer "\<lambda>a. a"
  for reply
  by unfold_locales (simp_all add: cec_msgs cec_ops cec_frame_simps split_beta)

subsection \<open>Timer status\<close>

lemma timer_status_byte:
  fixes q mi v :: u8 and f :: bool
  assumes "q < 2" "mi < 4" "v < 16"
  defines "b \<equiv> to_u8 (push_bit 7 (to_int q) OR push_bit 5 (to_int mi) OR (if f then 0x10 else 0) OR to_int v)"
  shows "to_u8 (drop_bit 7 (to_int b)) = q"
    and "to_u8 (drop_bit 5 (to_int b) AND 3) = mi"
    and "to_int b AND 0x10 = 0 \<longleftrightarrow> \<not> f"
    and "to_u8 (to_int b AND 0xf) = v"
proof -
  have "take_bit 1 q = q" "take_bit 2 mi = mi" "take_bit 4 v = v"
    using assms(1-3) by (intro take_bit_small; simp add: word_less_nat_alt)+
  then obtain q' m' v' where t: "q = take_bit 1 q'" "mi = take_bit 2 m'" "v = take_bit 4 v'" by metis
  define c where "c = (0x10 :: u32)"
  have bc: "bit c n \<longleftrightarrow> n = 4" for n
    using bit_exp_iff [of 4 n, where 'a = u32] by (auto simp: c_def possible_bit_def)
  note b = b_def [folded c_def, unfolded t to_u8_def to_int_def]
  show "to_u8 (drop_bit 7 (to_int b)) = q"
    unfolding b t to_u8_def to_int_def
    by (rule bit_word_eqI) (auto simp: bit_simps bc dest: bit_imp_le_length)
  show "to_u8 (drop_bit 5 (to_int b) AND 3) = mi"
    unfolding b t to_u8_def to_int_def mask_lits
    by (rule bit_word_eqI) (auto simp: bit_simps bc dest: bit_imp_le_length)
  have "to_int b AND 0x10 = 0 \<longleftrightarrow> \<not> bit (to_int b) 4"
    using and_exp_eq_0_iff_not_bit [of "to_int b" 4] by simp
  also have "\<dots> \<longleftrightarrow> \<not> f"
    unfolding b to_int_def by (auto simp: bit_simps bc)
  finally show "to_int b AND 0x10 = 0 \<longleftrightarrow> \<not> f" .
  show "to_u8 (to_int b AND 0xf) = v"
    unfolding b t to_u8_def to_int_def mask_lits
    by (rule bit_word_eqI) (auto simp: bit_simps bc dest: bit_imp_le_length)
qed

lemma timer_status_fields:
  assumes "cec_wf m"
  shows "msg_at (cec_msg_timer_status m q mi pi pe hr mn) 0 = msg_at m 0"
    and "msg_at (cec_msg_timer_status m q mi pi pe hr mn) 1 = CEC_MSG_TIMER_STATUS"
    and "cec_wf (cec_msg_timer_status m q mi pi pe hr mn)"
    and "cm_len (cec_msg_timer_status m q mi pi pe hr mn) =
      (if pi = CEC_OP_PROG_INFO_NOT_ENOUGH_SPACE \<or> pi = CEC_OP_PROG_INFO_MIGHT_NOT_BE_ENOUGH_SPACE \<or>
          pe = CEC_OP_PROG_ERROR_DUPLICATE then 5 else 3)"
  using assms by (simp_all add: cec_msgs Let_def)

lemma timer_status_decoded:
  assumes m: "cec_wf m" and ok: "timer_status_ok (q, mi, pi, pe, hr, mn)"
  shows "cec_ops_timer_status (cec_msg_timer_status m q mi pi pe hr mn) = (q, mi, pi, pe, hr, mn)"
proof -
  from ok have b: "q < 2" "mi < 4" "pi < 16" "pe < 16" and d: "hr < 160" "mn < 160" and "pi = 0 \<or> pe = 0"
    and z: "pi = CEC_OP_PROG_INFO_NOT_ENOUGH_SPACE \<or> pi = CEC_OP_PROG_INFO_MIGHT_NOT_BE_ENOUGH_SPACE \<or>
      pe = CEC_OP_PROG_ERROR_DUPLICATE \<or> hr = 0 \<and> mn = 0"
    by (auto simp: timer_status_ok_def)
  then consider "pi = 0" | "pi \<noteq> 0" "pe = 0" by blast
  then show ?thesis
  proof cases
    case 1
    then show ?thesis using m b d z timer_status_byte [OF b(1,2,4), of False]
      by (auto simp: cec_msgs cec_ops Let_def cec_const)
  next
    case 2
    then show ?thesis using m b d z timer_status_byte [OF b(1,2,3), of True]
      by (auto simp: cec_msgs cec_ops Let_def cec_const)
  qed
qed

text \<open>The decoder looks at bytes 3 and 4 only where byte 2 announces a duration.\<close>

lemma timer_ops_split:
  assumes "cec_ops_timer_status e = (q, mi, pi, pe, hr, mn)" "msg_at m' 2 = msg_at e 2"
    and "pi = CEC_OP_PROG_INFO_NOT_ENOUGH_SPACE \<or> pi = CEC_OP_PROG_INFO_MIGHT_NOT_BE_ENOUGH_SPACE \<or>
      pe = CEC_OP_PROG_ERROR_DUPLICATE \<Longrightarrow> msg_at m' 3 = msg_at e 3 \<and> msg_at m' 4 = msg_at e 4"
  shows "cec_ops_timer_status m' = (q, mi, pi, pe, hr, mn)"
  using assms unfolding cec_ops_timer_status_def Let_def split_beta
  by (cases "to_int (msg_at e 2) AND 0x10 \<noteq> 0") (auto split: if_splits)

lemma timer_status_frame:
  assumes m: "cec_wf m" and ok: "timer_status_ok (q, mi, pi, pe, hr, mn)"
    and del: "cec_delivered (cec_msg_timer_status m q mi pi pe hr mn) m'"
  shows "cec_ops_timer_status m' = (q, mi, pi, pe, hr, mn)"
proof (rule timer_ops_split [OF timer_status_decoded [OF m ok]])
  note at = cec_delivered_at [OF del] and f = timer_status_fields(4) [OF m]
  show "msg_at m' 2 = msg_at (cec_msg_timer_status m q mi pi pe hr mn) 2"
    using at [of 2] f by (auto split: if_splits)
  show "msg_at m' 3 = msg_at (cec_msg_timer_status m q mi pi pe hr mn) 3 \<and>
      msg_at m' 4 = msg_at (cec_msg_timer_status m q mi pi pe hr mn) 4"
    if "pi = CEC_OP_PROG_INFO_NOT_ENOUGH_SPACE \<or> pi = CEC_OP_PROG_INFO_MIGHT_NOT_BE_ENOUGH_SPACE \<or>
      pe = CEC_OP_PROG_ERROR_DUPLICATE"
    using at [of 3] at [of 4] f that by simp
qed

interpretation timer_status: cec_codec
    "\<lambda>(timer_overlap_warning, media_info, prog_info, prog_error, duration_hr, duration_min) m.
       cec_msg_timer_status m timer_overlap_warning media_info prog_info prog_error
         duration_hr duration_min"
    CEC_MSG_TIMER_STATUS timer_status_ok
    cec_ops_timer_status "\<lambda>a. a"
  by unfold_locales
    (auto simp: timer_status_fields [simplified] timer_status_decoded timer_status_frame cec_msg_initiator_def
      split: if_splits)

subsection \<open>Digital timers\<close>

lemmas digital_timer_simps = cec_msgs cec_ops cec_frame_simps digital_timer_ok_def digital_timer_of_def

interpretation clear_digital_timer: cec_codec
    "\<lambda>(day, month, start_hr, start_min, duration_hr, duration_min, recording_seq, digital) m.
       cec_msg_clear_digital_timer m reply day month start_hr start_min duration_hr duration_min
         recording_seq digital"
    CEC_MSG_CLEAR_DIGITAL_TIMER digital_timer_ok
    "\<lambda>m. digital_timer_of (cec_ops_clear_digital_timer m old)" digital_timer_of
  for reply old
  by unfold_locales (simp_all add: digital_timer_simps digital_delivered_cong split_beta)

interpretation set_digital_timer: cec_codec
    "\<lambda>(day, month, start_hr, start_min, duration_hr, duration_min, recording_seq, digital) m.
       cec_msg_set_digital_timer m reply day month start_hr start_min duration_hr duration_min
         recording_seq digital"
    CEC_MSG_SET_DIGITAL_TIMER digital_timer_ok
    "\<lambda>m. digital_timer_of (cec_ops_set_digital_timer m old)" digital_timer_of
  for reply old
  by unfold_locales (simp_all add: digital_timer_simps digital_delivered_cong split_beta)

subsection \<open>Program titles\<close>

lemma program_title_delivered:
  assumes "cec_wf m" "0 \<notin> set s" "length s < 2 ^ 32"
  shows "\<exists>e. cec_msg_set_timer_program_title m (s @ 0 # rest) = Inr e \<and>
    (\<forall>m' buf. cec_delivered e m' \<and> 14 < length buf \<longrightarrow>
       cec_ops_set_timer_program_title m' buf = Inr (take 14 s @ 0 # drop (Suc (min (length s) 14)) buf))"
  using string_message [of s 2 14 "\<lambda>len. msg_put (m\<lparr>cm_len := 2 + len\<rparr>) 1 CEC_MSG_SET_TIMER_PROGRAM_TITLE" rest]
    assms
  by (auto simp: cec_msg_set_timer_program_title_def cec_ops_set_timer_program_title_def Let_def split del: if_split)

end
