(* ===== verification/Cec_Device.thy ===== *)
theory Cec_Device
  imports Cec_Routing
begin

section \<open>CEC codec: system information, deck and tuner control\<close>

text \<open>
  Version, physical address, menu language and feature reports, the deck messages and the tuner
  status, which is analogue or digital according to the length of the message.
\<close>

unbundle bit_operations_syntax

subsection \<open>System Information Feature\<close>

definition cec_msg_cec_version :: "cec_msg \<Rightarrow> u8 \<Rightarrow> cec_msg" where
  [cec_msgs]: "cec_msg_cec_version m cec_version =
     (let m = m\<lparr>cm_len := 3\<rparr>;
          m = msg_put m 1 CEC_MSG_CEC_VERSION;
          m = msg_put m 2 cec_version
      in m)"

definition cec_ops_cec_version :: "cec_msg \<Rightarrow> u8" where
  [cec_ops]: "cec_ops_cec_version m = msg_at m 2"

definition cec_msg_get_cec_version :: "cec_msg \<Rightarrow> s32 \<Rightarrow> cec_msg" where
  [cec_msgs]: "cec_msg_get_cec_version m reply =
     (let m = m\<lparr>cm_len := 2\<rparr>;
          m = msg_put m 1 CEC_MSG_GET_CEC_VERSION;
          m = m\<lparr>cm_reply := if reply \<noteq> 0 then CEC_MSG_CEC_VERSION else 0\<rparr>
      in m)"

definition cec_msg_report_physical_addr :: "cec_msg \<Rightarrow> u16 \<Rightarrow> u8
    \<Rightarrow> cec_msg" where
  [cec_msgs]: "cec_msg_report_physical_addr m phys_addr prim_devtype =
     (let m = m\<lparr>cm_len := 5\<rparr>;
          m = msg_put m 0 (to_u8 (to_int (msg_at m 0) OR 0xf));
          m = msg_put m 1 CEC_MSG_REPORT_PHYSICAL_ADDR;
          m = msg_put m 2 (to_u8 (drop_bit 8 (to_int phys_addr)));
          m = msg_put m 3 (to_u8 (to_int phys_addr AND 0xff));
          m = msg_put m 4 prim_devtype
      in m)"

definition cec_ops_report_physical_addr :: "cec_msg \<Rightarrow> u16 \<times> u8" where
  [cec_ops]: "cec_ops_report_physical_addr m =
     (to_u16 (push_bit 8 (to_int (msg_at m 2)) OR to_int (msg_at m 3)),
      msg_at m 4)"

definition cec_msg_give_physical_addr :: "cec_msg \<Rightarrow> s32 \<Rightarrow> cec_msg" where
  [cec_msgs]: "cec_msg_give_physical_addr m reply =
     (let m = m\<lparr>cm_len := 2\<rparr>;
          m = msg_put m 1 CEC_MSG_GIVE_PHYSICAL_ADDR;
          m = m\<lparr>cm_reply := if reply \<noteq> 0 then CEC_MSG_REPORT_PHYSICAL_ADDR else 0\<rparr>
      in m)"

definition cec_msg_set_menu_language :: "cec_msg \<Rightarrow> u8 list \<Rightarrow> cec_msg result" where
  "cec_msg_set_menu_language m language =
     (let m = m\<lparr>cm_len := 5\<rparr>;
          m = msg_put m 0 (to_u8 (to_int (msg_at m 0) OR 0xf));
          m = msg_put m 1 CEC_MSG_SET_MENU_LANGUAGE
      in msg_copy m 2 language 3)"

definition cec_ops_set_menu_language :: "cec_msg \<Rightarrow> u8 list \<Rightarrow> u8 list result" where
  "cec_ops_set_menu_language m language = copy_string m 2 3 language"

definition cec_msg_get_menu_language :: "cec_msg \<Rightarrow> s32 \<Rightarrow> cec_msg" where
  [cec_msgs]: "cec_msg_get_menu_language m reply =
     (let m = m\<lparr>cm_len := 2\<rparr>;
          m = msg_put m 1 CEC_MSG_GET_MENU_LANGUAGE;
          m = m\<lparr>cm_reply := if reply \<noteq> 0 then CEC_MSG_SET_MENU_LANGUAGE else 0\<rparr>
      in m)"

definition cec_msg_report_features :: "cec_msg \<Rightarrow> u8 \<Rightarrow> u8 \<Rightarrow> u8
    \<Rightarrow> u8 \<Rightarrow> cec_msg" where
  [cec_msgs]: "cec_msg_report_features m cec_version all_device_types rc_profile dev_features =
     (let m = m\<lparr>cm_len := 6\<rparr>;
          m = msg_put m 0 (to_u8 (to_int (msg_at m 0) OR 0xf));
          m = msg_put m 1 CEC_MSG_REPORT_FEATURES;
          m = msg_put m 2 cec_version;
          m = msg_put m 3 all_device_types;
          m = msg_put m 4 rc_profile;
          m = msg_put m 5 dev_features
      in m)"

text \<open>
  The operands are found by scanning the extension bits; the pointers returned point into the
  payload and are indices of it, \<open>None\<close> for \<open>NULL\<close>.
\<close>

function feat_ext_loop :: "cec_msg \<Rightarrow> nat \<Rightarrow> nat \<Rightarrow> nat" where
  "feat_ext_loop m stop p =
     (if p < stop \<and> to_int (msg_at m p) AND to_int CEC_OP_FEAT_EXT \<noteq> 0 then feat_ext_loop m stop (p + 1)
      else p)"
  by pat_completeness auto
termination
  by (relation "measure (\<lambda>(m, stop, p). stop - p)") auto

definition cec_ops_report_features :: "cec_msg \<Rightarrow> u8 \<times> u8 \<times> nat option \<times> nat option" where
  "cec_ops_report_features m =
     (let p = 4;
          cec_version = msg_at m 2;
          all_device_types = msg_at m 3;
          rc_profile = Some p;
          dev_features = None;
          p = feat_ext_loop m 14 p;
          (dev_features, p) =
            (if to_int (msg_at m p) AND to_int CEC_OP_FEAT_EXT = 0 then (Some (p + 1), feat_ext_loop m 15 p)
             else (dev_features, p));
          (rc_profile, dev_features) =
            (if to_int (msg_at m p) AND to_int CEC_OP_FEAT_EXT \<noteq> 0 then (None, None)
             else (rc_profile, dev_features))
      in (cec_version, all_device_types, rc_profile, dev_features))"

definition cec_msg_give_features :: "cec_msg \<Rightarrow> s32 \<Rightarrow> cec_msg" where
  [cec_msgs]: "cec_msg_give_features m reply =
     (let m = m\<lparr>cm_len := 2\<rparr>;
          m = msg_put m 1 CEC_MSG_GIVE_FEATURES;
          m = m\<lparr>cm_reply := if reply \<noteq> 0 then CEC_MSG_REPORT_FEATURES else 0\<rparr>
      in m)"

subsection \<open>Deck Control Feature\<close>

definition cec_msg_deck_control :: "cec_msg \<Rightarrow> u8 \<Rightarrow> cec_msg" where
  [cec_msgs]: "cec_msg_deck_control m deck_control_mode =
     (let m = m\<lparr>cm_len := 3\<rparr>;
          m = msg_put m 1 CEC_MSG_DECK_CONTROL;
          m = msg_put m 2 deck_control_mode
      in m)"

definition cec_ops_deck_control :: "cec_msg \<Rightarrow> u8" where
  [cec_ops]: "cec_ops_deck_control m = msg_at m 2"

definition cec_msg_deck_status :: "cec_msg \<Rightarrow> u8 \<Rightarrow> cec_msg" where
  [cec_msgs]: "cec_msg_deck_status m deck_info =
     (let m = m\<lparr>cm_len := 3\<rparr>;
          m = msg_put m 1 CEC_MSG_DECK_STATUS;
          m = msg_put m 2 deck_info
      in m)"

definition cec_ops_deck_status :: "cec_msg \<Rightarrow> u8" where
  [cec_ops]: "cec_ops_deck_status m = msg_at m 2"

definition cec_msg_give_deck_status :: "cec_msg \<Rightarrow> s32 \<Rightarrow> u8 \<Rightarrow>
    cec_msg" where
  [cec_msgs]: "cec_msg_give_deck_status m reply status_req =
     (let m = m\<lparr>cm_len := 3\<rparr>;
          m = msg_put m 1 CEC_MSG_GIVE_DECK_STATUS;
          m = msg_put m 2 status_req;
          m = m\<lparr>cm_reply := if reply \<noteq> 0 then CEC_MSG_DECK_STATUS else 0\<rparr>
      in m)"

definition cec_ops_give_deck_status :: "cec_msg \<Rightarrow> u8" where
  [cec_ops]: "cec_ops_give_deck_status m = msg_at m 2"

definition cec_msg_play :: "cec_msg \<Rightarrow> u8 \<Rightarrow> cec_msg" where
  [cec_msgs]: "cec_msg_play m play_mode =
     (let m = m\<lparr>cm_len := 3\<rparr>;
          m = msg_put m 1 CEC_MSG_PLAY;
          m = msg_put m 2 play_mode
      in m)"

definition cec_ops_play :: "cec_msg \<Rightarrow> u8" where
  [cec_ops]: "cec_ops_play m = msg_at m 2"

subsection \<open>Tuner Control Feature\<close>

definition cec_msg_tuner_device_status_analog :: "cec_msg \<Rightarrow> u8 \<Rightarrow> u8
    \<Rightarrow> u8 \<Rightarrow> u16 \<Rightarrow> u8 \<Rightarrow> cec_msg" where
  [cec_msgs]: "cec_msg_tuner_device_status_analog m rec_flag tuner_display_info ana_bcast_type
      ana_freq bcast_system =
     (let m = m\<lparr>cm_len := 7\<rparr>;
          m = msg_put m 1 CEC_MSG_TUNER_DEVICE_STATUS;
          m = msg_put m 2 (to_u8 (push_bit 7 (to_int rec_flag) OR to_int tuner_display_info));
          m = msg_put m 3 ana_bcast_type;
          m = msg_put m 4 (to_u8 (drop_bit 8 (to_int ana_freq)));
          m = msg_put m 5 (to_u8 (to_int ana_freq AND 0xff));
          m = msg_put m 6 bcast_system
      in m)"

record cec_op_tuner_device_info =
  ti_rec_flag :: u8
  ti_tuner_display_info :: u8
  ti_is_analog :: u8
  ti_un :: cec_union8

definition cec_msg_tuner_device_status_digital ::
    "cec_msg \<Rightarrow> u8 \<Rightarrow> u8 \<Rightarrow> cec_op_digital_service_id \<Rightarrow> cec_msg" where
  [cec_msgs]: "cec_msg_tuner_device_status_digital m rec_flag tuner_display_info digital =
     (let m = m\<lparr>cm_len := 10\<rparr>;
          m = msg_put m 1 CEC_MSG_TUNER_DEVICE_STATUS;
          m = msg_put m 2 (to_u8 (push_bit 7 (to_int rec_flag) OR to_int tuner_display_info));
          m = cec_set_digital_service_id m 3 digital
      in m)"

definition cec_msg_tuner_device_status :: "cec_msg \<Rightarrow> cec_op_tuner_device_info \<Rightarrow> cec_msg" where
  [cec_msgs]: "cec_msg_tuner_device_status m tuner_dev_info =
     (if ti_is_analog tuner_dev_info \<noteq> 0 then
        cec_msg_tuner_device_status_analog m (ti_rec_flag tuner_dev_info)
          (ti_tuner_display_info tuner_dev_info)
          (un_ana_bcast_type (ti_un tuner_dev_info))
          (un_ana_freq (ti_un tuner_dev_info))
          (un_bcast_system (ti_un tuner_dev_info))
      else
        cec_msg_tuner_device_status_digital m (ti_rec_flag tuner_dev_info)
          (ti_tuner_display_info tuner_dev_info)
          (un_digital (ti_un tuner_dev_info)))"

definition cec_ops_tuner_device_status ::
    "cec_msg \<Rightarrow> cec_op_tuner_device_info \<Rightarrow> cec_op_tuner_device_info" where
  [cec_ops]: "cec_ops_tuner_device_status m tuner_dev_info =
     (let ti = tuner_dev_info\<lparr>ti_is_analog := to_u8 (c_bool (cm_len m < 10))\<rparr>;
          ti = ti\<lparr>ti_rec_flag := to_u8 (drop_bit 7 (to_int (msg_at m 2)))\<rparr>;
          ti = ti\<lparr>ti_tuner_display_info := to_u8 (to_int (msg_at m 2) AND 0x7f)\<rparr>
      in if ti_is_analog ti \<noteq> 0 then
        ti\<lparr>ti_un := un_put_analog (ti_un ti) (msg_at m 3)
              (to_u16 (push_bit 8 (to_int (msg_at m 4)) OR to_int (msg_at m 5))) (msg_at m 6)\<rparr>
      else
        ti\<lparr>ti_un := un_put_digital (ti_un ti) (cec_get_digital_service_id m 3 (un_digital (ti_un ti)))\<rparr>)"

definition cec_msg_give_tuner_device_status :: "cec_msg \<Rightarrow> s32 \<Rightarrow> u8
    \<Rightarrow> cec_msg" where
  [cec_msgs]: "cec_msg_give_tuner_device_status m reply status_req =
     (let m = m\<lparr>cm_len := 3\<rparr>;
          m = msg_put m 1 CEC_MSG_GIVE_TUNER_DEVICE_STATUS;
          m = msg_put m 2 status_req;
          m = m\<lparr>cm_reply := if reply \<noteq> 0 then CEC_MSG_TUNER_DEVICE_STATUS else 0\<rparr>
      in m)"

definition cec_ops_give_tuner_device_status :: "cec_msg \<Rightarrow> u8" where
  [cec_ops]: "cec_ops_give_tuner_device_status m = msg_at m 2"

definition cec_msg_select_analogue_service :: "cec_msg \<Rightarrow> u8 \<Rightarrow> u16
    \<Rightarrow> u8 \<Rightarrow> cec_msg" where
  [cec_msgs]: "cec_msg_select_analogue_service m ana_bcast_type ana_freq bcast_system =
     (let m = m\<lparr>cm_len := 6\<rparr>;
          m = msg_put m 1 CEC_MSG_SELECT_ANALOGUE_SERVICE;
          m = msg_put m 2 ana_bcast_type;
          m = msg_put m 3 (to_u8 (drop_bit 8 (to_int ana_freq)));
          m = msg_put m 4 (to_u8 (to_int ana_freq AND 0xff));
          m = msg_put m 5 bcast_system
      in m)"

definition cec_ops_select_analogue_service :: "cec_msg \<Rightarrow> u8 \<times> u16 \<times> u8"
    where
  [cec_ops]: "cec_ops_select_analogue_service m =
     (msg_at m 2,
      to_u16 (push_bit 8 (to_int (msg_at m 3)) OR to_int (msg_at m 4)),
      msg_at m 5)"

definition cec_msg_select_digital_service :: "cec_msg \<Rightarrow> cec_op_digital_service_id \<Rightarrow> cec_msg" where
  [cec_msgs]: "cec_msg_select_digital_service m digital =
     (let m = m\<lparr>cm_len := 9\<rparr>;
          m = msg_put m 1 CEC_MSG_SELECT_DIGITAL_SERVICE;
          m = cec_set_digital_service_id m 2 digital
      in m)"

definition cec_ops_select_digital_service ::
    "cec_msg \<Rightarrow> cec_op_digital_service_id \<Rightarrow> cec_op_digital_service_id" where
  [cec_ops]: "cec_ops_select_digital_service m digital = cec_get_digital_service_id m 2 digital"

definition cec_msg_tuner_step_decrement :: "cec_msg \<Rightarrow> cec_msg" where
  [cec_msgs]: "cec_msg_tuner_step_decrement m =
     (let m = m\<lparr>cm_len := 2\<rparr>;
          m = msg_put m 1 CEC_MSG_TUNER_STEP_DECREMENT
      in m)"

definition cec_msg_tuner_step_increment :: "cec_msg \<Rightarrow> cec_msg" where
  [cec_msgs]: "cec_msg_tuner_step_increment m =
     (let m = m\<lparr>cm_len := 2\<rparr>;
          m = msg_put m 1 CEC_MSG_TUNER_STEP_INCREMENT
      in m)"

subsection \<open>Specification\<close>

definition feat_ext :: "cec_msg \<Rightarrow> nat \<Rightarrow> bool" where
  "feat_ext m i = (to_int (msg_at m i) AND to_int CEC_OP_FEAT_EXT \<noteq> 0)"

datatype tuner_info =
    Tuner_analog u8 u8 u8 u16 u8
  | Tuner_digital u8 u8 dig_service

definition tuner_info_of :: "cec_op_tuner_device_info \<Rightarrow> tuner_info" where
  "tuner_info_of t =
     (if ti_is_analog t \<noteq> 0 then
        Tuner_analog (ti_rec_flag t) (ti_tuner_display_info t)
          (un_ana_bcast_type (ti_un t)) (un_ana_freq (ti_un t)) (un_bcast_system (ti_un t))
      else Tuner_digital (ti_rec_flag t) (ti_tuner_display_info t) (dig_service_of (un_digital (ti_un t))))"

definition tuner_info_ok :: "cec_op_tuner_device_info \<Rightarrow> bool" where
  "tuner_info_ok t =
     (ti_rec_flag t < 2 \<and> ti_tuner_display_info t < 128 \<and>
      (ti_is_analog t = 0 \<longrightarrow> dig_ok (un_digital (ti_un t))))"

subsection \<open>What is encoded is what is decoded\<close>

interpretation cec_version: cec_codec
    "\<lambda>cec_version m. cec_msg_cec_version m cec_version"
    CEC_MSG_CEC_VERSION "\<lambda>_. True"
    cec_ops_cec_version "\<lambda>a. a"
  by unfold_locales (auto simp: cec_msgs cec_ops cec_frame_simps)

interpretation report_physical_addr: cec_codec
    "\<lambda>(phys_addr, prim_devtype) m. cec_msg_report_physical_addr m phys_addr prim_devtype"
    CEC_MSG_REPORT_PHYSICAL_ADDR "\<lambda>_. True"
    cec_ops_report_physical_addr "\<lambda>a. a"
  by unfold_locales (auto simp: cec_msgs cec_ops cec_frame_simps)

interpretation deck_control: cec_codec
    "\<lambda>deck_control_mode m. cec_msg_deck_control m deck_control_mode"
    CEC_MSG_DECK_CONTROL "\<lambda>_. True"
    cec_ops_deck_control "\<lambda>a. a"
  by unfold_locales (auto simp: cec_msgs cec_ops cec_frame_simps)

interpretation deck_status: cec_codec
    "\<lambda>deck_info m. cec_msg_deck_status m deck_info"
    CEC_MSG_DECK_STATUS "\<lambda>_. True"
    cec_ops_deck_status "\<lambda>a. a"
  by unfold_locales (auto simp: cec_msgs cec_ops cec_frame_simps)

interpretation give_deck_status: cec_codec
    "\<lambda>status_req m. cec_msg_give_deck_status m reply status_req"
    CEC_MSG_GIVE_DECK_STATUS "\<lambda>_. True"
    cec_ops_give_deck_status "\<lambda>a. a"
  for reply
  by unfold_locales (auto simp: cec_msgs cec_ops cec_frame_simps)

interpretation play: cec_codec
    "\<lambda>play_mode m. cec_msg_play m play_mode"
    CEC_MSG_PLAY "\<lambda>_. True"
    cec_ops_play "\<lambda>a. a"
  by unfold_locales (auto simp: cec_msgs cec_ops cec_frame_simps)

interpretation give_tuner_device_status: cec_codec
    "\<lambda>status_req m. cec_msg_give_tuner_device_status m reply status_req"
    CEC_MSG_GIVE_TUNER_DEVICE_STATUS "\<lambda>_. True"
    cec_ops_give_tuner_device_status "\<lambda>a. a"
  for reply
  by unfold_locales (auto simp: cec_msgs cec_ops cec_frame_simps)

interpretation select_analogue_service: cec_codec
    "\<lambda>(ana_bcast_type, ana_freq, bcast_system) m.
       cec_msg_select_analogue_service m ana_bcast_type ana_freq bcast_system"
    CEC_MSG_SELECT_ANALOGUE_SERVICE "\<lambda>_. True"
    cec_ops_select_analogue_service "\<lambda>a. a"
  by unfold_locales (auto simp: cec_msgs cec_ops cec_frame_simps)

subsection \<open>Feature reports\<close>

lemmas feat_ext_loop_unfold = feat_ext_loop.simps [folded feat_ext_def]

declare feat_ext_loop.simps [simp del]

text \<open>The loop stops at the first operand without the extension bit, or at \<open>stop\<close>.\<close>

lemma feat_ext_loop_spec:
  "p \<le> stop \<Longrightarrow> p \<le> feat_ext_loop m stop p \<and> feat_ext_loop m stop p \<le> stop \<and>
     (\<forall>i. p \<le> i \<and> i < feat_ext_loop m stop p \<longrightarrow> feat_ext m i) \<and>
     (feat_ext_loop m stop p < stop \<longrightarrow> \<not> feat_ext m (feat_ext_loop m stop p))"
proof (induction m stop p rule: feat_ext_loop.induct)
  case (1 m stop p)
  show ?case
  proof (cases "p < stop \<and> feat_ext m p")
    case True
    then have ih: "p + 1 \<le> feat_ext_loop m stop (p + 1) \<and> feat_ext_loop m stop (p + 1) \<le> stop \<and>
        (\<forall>i. p + 1 \<le> i \<and> i < feat_ext_loop m stop (p + 1) \<longrightarrow> feat_ext m i) \<and>
        (feat_ext_loop m stop (p + 1) < stop \<longrightarrow> \<not> feat_ext m (feat_ext_loop m stop (p + 1)))"
      using "1.IH" by (simp add: feat_ext_def)
    have "feat_ext_loop m stop p = feat_ext_loop m stop (p + 1)"
      using True by (simp add: feat_ext_loop_unfold [of m stop p])
    moreover have "feat_ext m i" if "p \<le> i" "i < feat_ext_loop m stop (p + 1)" for i
      using that ih True by (cases "i = p") auto
    ultimately show ?thesis using ih by auto
  next
    case False
    then show ?thesis using "1.prems" by (simp add: feat_ext_loop_unfold [of m stop p]) auto
  qed
qed

lemma feat_ext_loop_stays: "\<not> feat_ext m p \<Longrightarrow> feat_ext_loop m stop p = p"
  by (simp add: feat_ext_loop_unfold [of m stop p])

text \<open>
  The second loop starts at the operand the first one stopped at, which has no extension bit: it
  never advances, and the device features are not scanned.
\<close>

lemma cec_ops_report_features_eq:
  "cec_ops_report_features m =
     (let p = feat_ext_loop m 14 4
      in if feat_ext m p then (msg_at m 2, msg_at m 3, None, None)
         else (msg_at m 2, msg_at m 3, Some 4, Some (p + 1)))"
  by (cases "feat_ext m (feat_ext_loop m 14 4)")
    (simp_all add: cec_ops_report_features_def Let_def feat_ext_def feat_ext_loop_stays)

lemma report_features_in_range:
  assumes "cec_ops_report_features m = (v, t, rc, Some d)"
  shows "rc = Some 4 \<and> 5 \<le> d \<and> d \<le> 15 \<and> \<not> feat_ext m (d - 1) \<and> (\<forall>i. 4 \<le> i \<and> i < d - 1 \<longrightarrow> feat_ext m i)"
  using assms feat_ext_loop_spec [of 4 14 m]
  by (auto simp: cec_ops_report_features_eq Let_def split: if_splits)

subsection \<open>Tuner status\<close>

interpretation select_digital_service: cec_codec
    "\<lambda>digital m. cec_msg_select_digital_service m digital"
    CEC_MSG_SELECT_DIGITAL_SERVICE dig_ok
    "\<lambda>m. dig_service_of (cec_ops_select_digital_service m old)" dig_service_of
  for old
  by unfold_locales (simp_all add: cec_msgs cec_ops cec_frame_simps digital_delivered_cong)

lemmas tuner_simps = cec_msgs cec_ops cec_frame_simps tuner_info_of_def tuner_info_ok_def

interpretation tuner_device_status: cec_codec
    "\<lambda>tuner_dev_info m. cec_msg_tuner_device_status m tuner_dev_info"
    CEC_MSG_TUNER_DEVICE_STATUS tuner_info_ok
    "\<lambda>m. tuner_info_of (cec_ops_tuner_device_status m old)" tuner_info_of
  for old
proof
  fix m :: cec_msg and t m'
  assume m: "cec_wf m"
  then show "cec_wf (cec_msg_tuner_device_status m t)" by (simp add: cec_msgs Let_def)
  assume t: "tuner_info_ok t"
  show "msg_at (cec_msg_tuner_device_status m t) 1 = CEC_MSG_TUNER_DEVICE_STATUS"
    using m by (simp add: tuner_simps)
  show "2 \<le> unat (cm_len (cec_msg_tuner_device_status m t)) \<and>
      unat (cm_len (cec_msg_tuner_device_status m t)) \<le> 16"
    by (simp add: tuner_simps)
  show "cec_msg_initiator (cec_msg_tuner_device_status m t) = cec_msg_initiator m"
    by (simp add: tuner_simps)
  show "tuner_info_of (cec_ops_tuner_device_status (cec_msg_tuner_device_status m t) old) = tuner_info_of t"
    using m t by (cases "ti_is_analog t = 0") (simp_all add: tuner_simps)
  assume "cec_delivered (cec_msg_tuner_device_status m t) m'"
  then show "tuner_info_of (cec_ops_tuner_device_status m' old) =
      tuner_info_of (cec_ops_tuner_device_status (cec_msg_tuner_device_status m t) old)"
    using m t by (cases "ti_is_analog t = 0")
      (simp_all add: tuner_simps digital_delivered_cong)
qed

subsection \<open>Menu language\<close>

lemma menu_language_delivered:
  assumes "cec_wf m" "3 \<le> length language"
  shows "\<exists>e. cec_msg_set_menu_language m language = Inr e \<and>
    (\<forall>m' buf. cec_delivered e m' \<and> 4 \<le> length buf \<longrightarrow>
       cec_ops_set_menu_language m' buf = Inr (take 3 language @ 0 # drop 4 buf))"
proof -
  let ?m = "msg_put (msg_put (m\<lparr>cm_len := 5\<rparr>) 0 (to_u8 (to_int (msg_at m 0) OR 0xf))) 1 CEC_MSG_SET_MENU_LANGUAGE"
  let ?e = "?m\<lparr>cm_msg := take 2 (cm_msg ?m) @ take 3 language @ drop (2 + 3) (cm_msg ?m)\<rparr>"
  have wf: "cec_wf ?m" using assms(1) by simp
  have "cec_msg_set_menu_language m language = Inr ?e"
    using msg_copy_ok [OF wf, of 2 3 language] assms(2) by (simp add: cec_msg_set_menu_language_def Let_def)
  moreover have "cec_ops_set_menu_language m' buf = Inr (take 3 language @ 0 # drop 4 buf)"
    if "cec_delivered ?e m'" "4 \<le> length buf" for m' buf
    using string_delivered [OF wf, of 2 3 language m' buf] that assms(2)
    by (simp add: cec_ops_set_menu_language_def)
  ultimately show ?thesis by blast
qed

lemma menu_language_short:
  "length language < 3 \<Longrightarrow> cec_msg_set_menu_language m language = Inl OutOfBounds"
  by (simp add: cec_msg_set_menu_language_def Let_def msg_copy_short)

end
