(* ===== verification/Cec_Vendor.thy ===== *)
theory Cec_Vendor
  imports Cec_Routing
begin

section \<open>CEC codec: vendor commands and on-screen display\<close>

text \<open>
  Messages with a payload of variable size: vendor commands, which the decoder returns as a
  pointer into the message and a size, and display strings, which it copies out.
\<close>

unbundle bit_operations_syntax

subsection \<open>Vendor Specific Commands Feature\<close>

definition cec_msg_device_vendor_id :: "cec_msg \<Rightarrow> u32 \<Rightarrow> cec_msg" where
  [cec_msgs]: "cec_msg_device_vendor_id m vendor_id =
     (let m = m\<lparr>cm_len := 5\<rparr>;
          m = msg_put m 0 (to_u8 (to_int (msg_at m 0) OR 0xf));
          m = msg_put m 1 CEC_MSG_DEVICE_VENDOR_ID;
          m = msg_put m 2 (to_u8 (drop_bit 16 vendor_id));
          m = msg_put m 3 (to_u8 (drop_bit 8 vendor_id AND 0xff));
          m = msg_put m 4 (to_u8 (vendor_id AND 0xff))
      in m)"

definition cec_ops_device_vendor_id :: "cec_msg \<Rightarrow> u32" where
  [cec_ops]: "cec_ops_device_vendor_id m =
     (push_bit 16 (to_int (msg_at m 2)) OR push_bit 8 (to_int (msg_at m 3))) OR to_int (msg_at m 4)"

definition cec_msg_give_device_vendor_id :: "cec_msg \<Rightarrow> s32 \<Rightarrow> cec_msg"
    where
  [cec_msgs]: "cec_msg_give_device_vendor_id m reply =
     (let m = m\<lparr>cm_len := 2\<rparr>;
          m = msg_put m 1 CEC_MSG_GIVE_DEVICE_VENDOR_ID;
          m = m\<lparr>cm_reply := if reply \<noteq> 0 then CEC_MSG_DEVICE_VENDOR_ID else 0\<rparr>
      in m)"

definition cec_msg_vendor_command :: "cec_msg \<Rightarrow> u8 \<Rightarrow> u8 list \<Rightarrow> cec_msg result" where
  "cec_msg_vendor_command m sz vendor_cmd =
     (let sz = (if sz > 14 then 14 else sz);
          m = m\<lparr>cm_len := 2 + to_int sz\<rparr>;
          m = msg_put m 1 CEC_MSG_VENDOR_COMMAND
      in msg_copy m 2 vendor_cmd (unat sz))"

text \<open>The decoders return a pointer into the payload: it is given by its index.\<close>

definition cec_ops_vendor_command :: "cec_msg \<Rightarrow> u8 \<times> nat" where
  "cec_ops_vendor_command m =
     (let sz = to_u8 (cm_len m - 2);
          sz = (if sz > 14 then 14 else sz)
      in (sz, 2))"

definition cec_msg_vendor_command_with_id :: "cec_msg \<Rightarrow> u32 \<Rightarrow> u8 \<Rightarrow> u8 list \<Rightarrow> cec_msg result" where
  "cec_msg_vendor_command_with_id m vendor_id sz vendor_cmd =
     (let sz = (if sz > 11 then 11 else sz);
          m = m\<lparr>cm_len := 5 + to_int sz\<rparr>;
          m = msg_put m 1 CEC_MSG_VENDOR_COMMAND_WITH_ID;
          m = msg_put m 2 (to_u8 (drop_bit 16 vendor_id));
          m = msg_put m 3 (to_u8 (drop_bit 8 vendor_id AND 0xff));
          m = msg_put m 4 (to_u8 (vendor_id AND 0xff))
      in msg_copy m 5 vendor_cmd (unat sz))"

definition cec_ops_vendor_command_with_id :: "cec_msg \<Rightarrow> u32 \<times> u8 \<times> nat" where
  "cec_ops_vendor_command_with_id m =
     (let sz = to_u8 (cm_len m - 5);
          sz = (if sz > 11 then 11 else sz);
          vendor_id = (push_bit 16 (to_int (msg_at m 2)) OR push_bit 8 (to_int (msg_at m 3))) OR
                      to_int (msg_at m 4)
      in (vendor_id, sz, 5))"

definition cec_msg_vendor_remote_button_down :: "cec_msg \<Rightarrow> u8 \<Rightarrow> u8 list \<Rightarrow> cec_msg result" where
  "cec_msg_vendor_remote_button_down m sz rc_code =
     (let sz = (if sz > 14 then 14 else sz);
          m = m\<lparr>cm_len := 2 + to_int sz\<rparr>;
          m = msg_put m 1 CEC_MSG_VENDOR_REMOTE_BUTTON_DOWN
      in msg_copy m 2 rc_code (unat sz))"

definition cec_ops_vendor_remote_button_down :: "cec_msg \<Rightarrow> u8 \<times> nat" where
  "cec_ops_vendor_remote_button_down m =
     (let sz = to_u8 (cm_len m - 2);
          sz = (if sz > 14 then 14 else sz)
      in (sz, 2))"

definition cec_msg_vendor_remote_button_up :: "cec_msg \<Rightarrow> cec_msg" where
  [cec_msgs]: "cec_msg_vendor_remote_button_up m =
     (let m = m\<lparr>cm_len := 2\<rparr>;
          m = msg_put m 1 CEC_MSG_VENDOR_REMOTE_BUTTON_UP
      in m)"

subsection \<open>OSD Display Feature\<close>

definition cec_msg_set_osd_string :: "cec_msg \<Rightarrow> u8 \<Rightarrow> u8 list \<Rightarrow> cec_msg result" where
  "cec_msg_set_osd_string m disp_ctl osd =
     res_bind (c_string osd) (\<lambda>s.
       let len = of_nat (length s) :: u32;
           len = (if len > 13 then 13 else len);
           m = m\<lparr>cm_len := 3 + len\<rparr>;
           m = msg_put m 1 CEC_MSG_SET_OSD_STRING;
           m = msg_put m 2 disp_ctl
       in msg_copy m 3 osd (unat len))"

definition cec_ops_set_osd_string :: "cec_msg \<Rightarrow> u8 list \<Rightarrow> (u8 \<times> u8 list) result" where
  "cec_ops_set_osd_string m osd =
     (let len = (if cm_len m > 3 then cm_len m - 3 else 0);
          disp_ctl = msg_at m 2;
          len = (if len > 13 then 13 else len)
      in res_bind (copy_string m 3 (unat len) osd) (\<lambda>osd. Inr (disp_ctl, osd)))"

subsection \<open>Device OSD Transfer Feature\<close>

definition cec_msg_set_osd_name :: "cec_msg \<Rightarrow> u8 list \<Rightarrow> cec_msg result" where
  "cec_msg_set_osd_name m name =
     res_bind (c_string name) (\<lambda>s.
       let len = of_nat (length s) :: u32;
           len = (if len > 14 then 14 else len);
           m = m\<lparr>cm_len := 2 + len\<rparr>;
           m = msg_put m 1 CEC_MSG_SET_OSD_NAME
       in msg_copy m 2 name (unat len))"

definition cec_ops_set_osd_name :: "cec_msg \<Rightarrow> u8 list \<Rightarrow> u8 list result" where
  "cec_ops_set_osd_name m name =
     (let len = (if cm_len m > 2 then cm_len m - 2 else 0);
          len = (if len > 14 then 14 else len)
      in copy_string m 2 (unat len) name)"

definition cec_msg_give_osd_name :: "cec_msg \<Rightarrow> s32 \<Rightarrow> cec_msg" where
  [cec_msgs]: "cec_msg_give_osd_name m reply =
     (let m = m\<lparr>cm_len := 2\<rparr>;
          m = msg_put m 1 CEC_MSG_GIVE_OSD_NAME;
          m = m\<lparr>cm_reply := if reply \<noteq> 0 then CEC_MSG_SET_OSD_NAME else 0\<rparr>
      in m)"

subsection \<open>What is encoded is what is decoded\<close>

interpretation device_vendor_id: cec_codec
    "\<lambda>vendor_id m. cec_msg_device_vendor_id m vendor_id"
    CEC_MSG_DEVICE_VENDOR_ID "\<lambda>vendor_id. vendor_id < 0x1000000"
    cec_ops_device_vendor_id "\<lambda>a. a"
  by unfold_locales (auto simp: cec_msgs cec_ops cec_frame_simps)

subsection \<open>Display strings\<close>

lemma osd_name_delivered:
  assumes "cec_wf m" "0 \<notin> set s" "length s < 2 ^ 32"
  shows "\<exists>e. cec_msg_set_osd_name m (s @ 0 # rest) = Inr e \<and>
    (\<forall>m' buf. cec_delivered e m' \<and> 14 < length buf \<longrightarrow>
       cec_ops_set_osd_name m' buf = Inr (take 14 s @ 0 # drop (Suc (min (length s) 14)) buf))"
  using string_message [of s 2 14 "\<lambda>len. msg_put (m\<lparr>cm_len := 2 + len\<rparr>) 1 CEC_MSG_SET_OSD_NAME" rest] assms
  by (auto simp: cec_msg_set_osd_name_def cec_ops_set_osd_name_def Let_def split del: if_split)

lemma osd_string_delivered:
  assumes "cec_wf m" "0 \<notin> set s" "length s < 2 ^ 32"
  shows "\<exists>e. cec_msg_set_osd_string m disp_ctl (s @ 0 # rest) = Inr e \<and>
    (\<forall>m' buf. cec_delivered e m' \<and> 13 < length buf \<longrightarrow>
       cec_ops_set_osd_string m' buf =
         Inr (disp_ctl, take 13 s @ 0 # drop (Suc (min (length s) 13)) buf))"
  using string_message [of s 3 13 "\<lambda>len. msg_put (msg_put (m\<lparr>cm_len := 3 + len\<rparr>) 1 CEC_MSG_SET_OSD_STRING) 2 disp_ctl" rest]
    assms
  by (auto simp: cec_msg_set_osd_string_def cec_ops_set_osd_string_def Let_def split del: if_split)

lemma unterminated_name:
  "0 \<notin> set name \<Longrightarrow> cec_msg_set_osd_name m name = Inl OutOfBounds"
  by (simp add: cec_msg_set_osd_name_def c_string_def)

subsection \<open>Vendor commands\<close>

lemma clamped_size: "unat (if s > k then k else s) = min (unat s) (unat k)" for s k :: u8
  by (simp add: word_less_nat_alt)

text \<open>
  The size that is decoded is the length of the message without its header, wrapped to a byte and
  then clamped: below the header's length it becomes the maximum.
\<close>

lemma blob_message:
  fixes off :: u32 and k sz :: u8
  assumes k: "unat off + unat k = 16" and cmd: "min (unat sz) (unat k) \<le> length cmd"
    and g: "\<And>len. cec_wf (g len)" "\<And>len. cm_len (g len) = off + len"
  shows "\<exists>e. (let sz = (if sz > k then k else sz) in msg_copy (g (to_int sz)) (unat off) cmd (unat sz)) = Inr e \<and>
    (\<forall>m'. cec_delivered e m' \<longrightarrow>
       (let n = to_u8 (cm_len m' - off); n = (if n > k then k else n)
        in unat n = min (unat sz) (unat k) \<and> take (unat n) (drop (unat off) (cm_msg m')) = take (unat n) cmd) \<and>
       (\<forall>i < unat off. msg_at m' i = msg_at (g (to_int (if sz > k then k else sz))) i))"
proof -
  let ?z = "if sz > k then k else sz"
  let ?m = "g (to_int ?z)" and ?n = "unat ?z"
  let ?e = "?m\<lparr>cm_msg := take (unat off) (cm_msg ?m) @ take ?n cmd @ drop (unat off + ?n) (cm_msg ?m)\<rparr>"
  have n: "unat off + ?n \<le> 16" "?n \<le> length cmd" using k cmd clamped_size [of k sz] by auto
  have len: "unat (cm_len ?m) = unat off + ?n"
    unfolding g(2) using n(1) by (subst unat_add_small) simp_all
  have "to_u8 (cm_len m' - off) = ?z" if "cec_delivered ?e m'" for m'
    using cec_delivered_len [OF that] by (simp add: g(2) split del: if_split)
  moreover have "take ?n (drop (unat off) (cm_msg m')) = take ?n cmd" if "cec_delivered ?e m'" for m'
    by (rule payload_delivered [OF g(1) n len that])
  moreover have "msg_at m' i = msg_at ?m i" if "cec_delivered ?e m'" "i < unat off" for m' i
    using cec_delivered_at [OF that(1), of i] msg_copy_keeps [OF g(1), of "unat off" i] that(2) n(1) len by simp
  moreover have "(if ?z > k then k else ?z) = ?z" by auto
  ultimately show ?thesis
    using msg_copy_ok [OF g(1) n] clamped_size [of k sz]
    by (intro exI [of _ ?e]) (simp add: Let_def split del: if_split)
qed

lemma vendor_command_delivered:
  assumes "cec_wf m" "min (unat sz) 14 \<le> length cmd"
  shows "\<exists>e. cec_msg_vendor_command m sz cmd = Inr e \<and>
    (\<forall>m'. cec_delivered e m' \<longrightarrow>
       (case cec_ops_vendor_command m' of (n, p) \<Rightarrow>
          unat n = min (unat sz) 14 \<and> take (unat n) (drop p (cm_msg m')) = take (unat n) cmd))"
  using blob_message [of 2 14 sz cmd "\<lambda>len. msg_put (m\<lparr>cm_len := 2 + len\<rparr>) 1 CEC_MSG_VENDOR_COMMAND"] assms
  by (auto simp: cec_msg_vendor_command_def cec_ops_vendor_command_def Let_def split del: if_split)

lemma vendor_remote_button_down_delivered:
  assumes "cec_wf m" "min (unat sz) 14 \<le> length rc"
  shows "\<exists>e. cec_msg_vendor_remote_button_down m sz rc = Inr e \<and>
    (\<forall>m'. cec_delivered e m' \<longrightarrow>
       (case cec_ops_vendor_remote_button_down m' of (n, p) \<Rightarrow>
          unat n = min (unat sz) 14 \<and> take (unat n) (drop p (cm_msg m')) = take (unat n) rc))"
  using blob_message [of 2 14 sz rc
      "\<lambda>len. msg_put (m\<lparr>cm_len := 2 + len\<rparr>) 1 CEC_MSG_VENDOR_REMOTE_BUTTON_DOWN"] assms
  by (auto simp: cec_msg_vendor_remote_button_down_def cec_ops_vendor_remote_button_down_def Let_def
      split del: if_split)

lemma vendor_command_with_id_delivered:
  assumes "cec_wf m" "min (unat sz) 11 \<le> length cmd"
  shows "\<exists>e. cec_msg_vendor_command_with_id m vendor_id sz cmd = Inr e \<and>
    (\<forall>m'. cec_delivered e m' \<longrightarrow>
       (case cec_ops_vendor_command_with_id m' of (vid, n, p) \<Rightarrow>
          vid = take_bit 24 vendor_id \<and> unat n = min (unat sz) 11 \<and>
          take (unat n) (drop p (cm_msg m')) = take (unat n) cmd))"
  using blob_message [of 5 11 sz cmd
      "\<lambda>len. msg_put (msg_put (msg_put (msg_put (m\<lparr>cm_len := 5 + len\<rparr>) 1 CEC_MSG_VENDOR_COMMAND_WITH_ID)
         2 (to_u8 (drop_bit 16 vendor_id))) 3 (to_u8 (drop_bit 8 vendor_id AND 0xff)))
         4 (to_u8 (vendor_id AND 0xff))"] assms
  by (auto simp: cec_msg_vendor_command_with_id_def cec_ops_vendor_command_with_id_def Let_def
      split del: if_split)

text \<open>A frame shorter than the header: the size wraps and the clamp makes it the maximum.\<close>

lemma vendor_command_short_frame:
  assumes "cm_len m < 2"
  shows "cec_ops_vendor_command m = (14, 2)"
proof -
  from assms have "cm_len m = 0 \<or> cm_len m = 1" by (simp add: word_less_nat_alt word_unat_eq_iff) linarith
  moreover have "to_u8 (- 1) = 255" by (simp add: to_u8_def unsigned_minus_1_eq_mask mask_eq_exp_minus_1)
  ultimately show ?thesis by (auto simp: cec_ops_vendor_command_def to_u8_def Let_def)
qed

end
