(* ===== verification/Cec_Control.thy ===== *)
theory Cec_Control
  imports Cec_Routing
begin

section \<open>CEC codec: menus, user controls, power status and aborts\<close>

text \<open>
  Menu and user control messages, with the optional operand of a user control, the power status
  and the general protocol messages, among them the reply that turns a message into its abort.
\<close>

unbundle bit_operations_syntax

subsection \<open>Device Menu Control Feature\<close>

definition cec_msg_menu_status :: "cec_msg \<Rightarrow> u8 \<Rightarrow> cec_msg" where
  [cec_msgs]: "cec_msg_menu_status m menu_state =
     (let m = m\<lparr>cm_len := 3\<rparr>;
          m = msg_put m 1 CEC_MSG_MENU_STATUS;
          m = msg_put m 2 menu_state
      in m)"

definition cec_ops_menu_status :: "cec_msg \<Rightarrow> u8" where
  [cec_ops]: "cec_ops_menu_status m = msg_at m 2"

definition cec_msg_menu_request :: "cec_msg \<Rightarrow> s32 \<Rightarrow> u8 \<Rightarrow>
    cec_msg" where
  [cec_msgs]: "cec_msg_menu_request m reply menu_req =
     (let m = m\<lparr>cm_len := 3\<rparr>;
          m = msg_put m 1 CEC_MSG_MENU_REQUEST;
          m = msg_put m 2 menu_req;
          m = m\<lparr>cm_reply := if reply \<noteq> 0 then CEC_MSG_MENU_STATUS else 0\<rparr>
      in m)"

definition cec_ops_menu_request :: "cec_msg \<Rightarrow> u8" where
  [cec_ops]: "cec_ops_menu_request m = msg_at m 2"

text \<open>
  The optional operand of a user control is a union of a channel identifier and of single bytes,
  kept as its three half-words; every single-byte member is the low byte of the first one.
\<close>

record cec_op_ui_command =
  uc_ui_cmd :: u8
  uc_has_opt_arg :: u8
  uc_h0 :: u16
  uc_h1 :: u16
  uc_h2 :: u16

definition uc_play_mode :: "cec_op_ui_command \<Rightarrow> u8" where
  "uc_play_mode c = lo8 (uc_h0 c)"

definition uc_channel_identifier :: "cec_op_ui_command \<Rightarrow> cec_op_channel_data" where
  "uc_channel_identifier c = \<lparr>ch_number_fmt = lo8 (uc_h0 c), ch_major = uc_h1 c, ch_minor = uc_h2 c\<rparr>"

definition cec_msg_user_control_pressed :: "cec_msg \<Rightarrow> cec_op_ui_command \<Rightarrow> cec_msg" where
  [cec_msgs]: "cec_msg_user_control_pressed m ui_cmd =
     (let m = m\<lparr>cm_len := 3\<rparr>;
          m = msg_put m 1 CEC_MSG_USER_CONTROL_PRESSED;
          m = msg_put m 2 (uc_ui_cmd ui_cmd)
      in if uc_has_opt_arg ui_cmd = 0 then m
      else if uc_ui_cmd ui_cmd \<in> {0x56, 0x57, 0x60, 0x68, 0x69, 0x6a} then
        (let m = m\<lparr>cm_len := cm_len m + 1\<rparr>;
             m = msg_put m 3 (uc_play_mode ui_cmd)
         in m)
      else if uc_ui_cmd ui_cmd = 0x67 then
        (let ch = uc_channel_identifier ui_cmd;
             m = m\<lparr>cm_len := cm_len m + 4\<rparr>;
             m = msg_put m 3 (to_u8 (push_bit 2 (to_int (ch_number_fmt ch)) OR drop_bit 8 (to_int (ch_major ch))));
             m = msg_put m 4 (to_u8 (to_int (ch_major ch) AND 0xff));
             m = msg_put m 5 (to_u8 (drop_bit 8 (to_int (ch_minor ch))));
             m = msg_put m 6 (to_u8 (to_int (ch_minor ch) AND 0xff))
         in m)
      else m)"

definition cec_ops_user_control_pressed :: "cec_msg \<Rightarrow> cec_op_ui_command \<Rightarrow> cec_op_ui_command" where
  [cec_ops]: "cec_ops_user_control_pressed m ui_cmd =
     (let c = ui_cmd\<lparr>uc_ui_cmd := msg_at m 2\<rparr>;
          c = c\<lparr>uc_has_opt_arg := 0\<rparr>
      in if cm_len m = 3 then c
      else if uc_ui_cmd c \<in> {0x56, 0x57, 0x60, 0x68, 0x69, 0x6a} then
        (let c = c\<lparr>uc_h0 := join8 (hi8 (uc_h0 c)) (msg_at m 3)\<rparr>;
             c = c\<lparr>uc_has_opt_arg := 1\<rparr>
         in c)
      else if uc_ui_cmd c = 0x67 then
        (if cm_len m < 7 then c
         else
           (let c = c\<lparr>uc_has_opt_arg := 1\<rparr>;
                c = c\<lparr>uc_h0 := join8 (hi8 (uc_h0 c)) (to_u8 (drop_bit 2 (to_int (msg_at m 3))))\<rparr>;
                c = c\<lparr>uc_h1 := to_u16 (push_bit 6 (to_int (msg_at m 3) AND 3) OR to_int (msg_at m 4))\<rparr>;
                c = c\<lparr>uc_h2 := to_u16 (push_bit 8 (to_int (msg_at m 5)) OR to_int (msg_at m 6))\<rparr>
            in c))
      else c)"

definition cec_msg_user_control_released :: "cec_msg \<Rightarrow> cec_msg" where
  [cec_msgs]: "cec_msg_user_control_released m =
     (let m = m\<lparr>cm_len := 2\<rparr>;
          m = msg_put m 1 CEC_MSG_USER_CONTROL_RELEASED
      in m)"

subsection \<open>Power Status Feature\<close>

definition cec_msg_report_power_status :: "cec_msg \<Rightarrow> u8 \<Rightarrow> cec_msg" where
  [cec_msgs]: "cec_msg_report_power_status m pwr_state =
     (let m = m\<lparr>cm_len := 3\<rparr>;
          m = msg_put m 1 CEC_MSG_REPORT_POWER_STATUS;
          m = msg_put m 2 pwr_state
      in m)"

definition cec_ops_report_power_status :: "cec_msg \<Rightarrow> u8" where
  [cec_ops]: "cec_ops_report_power_status m = msg_at m 2"

definition cec_msg_give_device_power_status :: "cec_msg \<Rightarrow> s32 \<Rightarrow> cec_msg"
    where
  [cec_msgs]: "cec_msg_give_device_power_status m reply =
     (let m = m\<lparr>cm_len := 2\<rparr>;
          m = msg_put m 1 CEC_MSG_GIVE_DEVICE_POWER_STATUS;
          m = m\<lparr>cm_reply := if reply \<noteq> 0 then CEC_MSG_REPORT_POWER_STATUS else 0\<rparr>
      in m)"

subsection \<open>General Protocol Messages\<close>

definition cec_msg_feature_abort :: "cec_msg \<Rightarrow> u8 \<Rightarrow> u8 \<Rightarrow>
    cec_msg" where
  [cec_msgs]: "cec_msg_feature_abort m abort_msg reason =
     (let m = m\<lparr>cm_len := 4\<rparr>;
          m = msg_put m 1 CEC_MSG_FEATURE_ABORT;
          m = msg_put m 2 abort_msg;
          m = msg_put m 3 reason
      in m)"

definition cec_ops_feature_abort :: "cec_msg \<Rightarrow> u8 \<times> u8" where
  [cec_ops]: "cec_ops_feature_abort m =
     (msg_at m 2,
      msg_at m 3)"

definition cec_msg_reply_feature_abort :: "cec_msg \<Rightarrow> u8 \<Rightarrow> cec_msg" where
  [cec_msgs]: "cec_msg_reply_feature_abort m reason =
     (let m = cec_msg_set_reply_to m m;
          m = m\<lparr>cm_len := 4\<rparr>;
          m = msg_put m 2 (msg_at m 1);
          m = msg_put m 3 reason;
          m = msg_put m 1 CEC_MSG_FEATURE_ABORT
      in m)"

definition cec_msg_abort :: "cec_msg \<Rightarrow> cec_msg" where
  [cec_msgs]: "cec_msg_abort m =
     (let m = m\<lparr>cm_len := 2\<rparr>;
          m = msg_put m 1 CEC_MSG_ABORT
      in m)"

subsection \<open>Specification\<close>

text \<open>What a user control says: the command and, for seven commands, its operand.\<close>

datatype ui_operand =
    No_operand
  | One_byte u8
  | Channel u8 u16 u16

definition ui_one_byte :: "u8 \<Rightarrow> bool" where
  "ui_one_byte cmd = (cmd \<in> {0x56, 0x57, 0x60, 0x68, 0x69, 0x6a})"

definition ui_command_of :: "cec_op_ui_command \<Rightarrow> u8 \<times> ui_operand" where
  "ui_command_of c =
     (uc_ui_cmd c,
      if uc_has_opt_arg c = 0 then No_operand
      else if ui_one_byte (uc_ui_cmd c) then One_byte (uc_play_mode c)
      else if uc_ui_cmd c = 0x67 then
        Channel (ch_number_fmt (uc_channel_identifier c)) (ch_major (uc_channel_identifier c))
          (ch_minor (uc_channel_identifier c))
      else No_operand)"

definition ui_command_ok :: "cec_op_ui_command \<Rightarrow> bool" where
  "ui_command_ok c =
     (uc_has_opt_arg c \<noteq> 0 \<and> uc_ui_cmd c = 0x67 \<longrightarrow>
        ch_number_fmt (uc_channel_identifier c) < 64 \<and> ch_major (uc_channel_identifier c) < 256)"

subsection \<open>What is encoded is what is decoded\<close>

interpretation menu_status: cec_codec
    "\<lambda>menu_state m. cec_msg_menu_status m menu_state"
    CEC_MSG_MENU_STATUS "\<lambda>_. True"
    cec_ops_menu_status "\<lambda>a. a"
  by unfold_locales (auto simp: cec_msgs cec_ops cec_frame_simps)

interpretation menu_request: cec_codec
    "\<lambda>menu_req m. cec_msg_menu_request m reply menu_req"
    CEC_MSG_MENU_REQUEST "\<lambda>_. True"
    cec_ops_menu_request "\<lambda>a. a"
  for reply
  by unfold_locales (auto simp: cec_msgs cec_ops cec_frame_simps)

interpretation report_power_status: cec_codec
    "\<lambda>pwr_state m. cec_msg_report_power_status m pwr_state"
    CEC_MSG_REPORT_POWER_STATUS "\<lambda>_. True"
    cec_ops_report_power_status "\<lambda>a. a"
  by unfold_locales (auto simp: cec_msgs cec_ops cec_frame_simps)

interpretation feature_abort: cec_codec
    "\<lambda>(abort_msg, reason) m. cec_msg_feature_abort m abort_msg reason"
    CEC_MSG_FEATURE_ABORT "\<lambda>_. True"
    cec_ops_feature_abort "\<lambda>a. a"
  by unfold_locales (auto simp: cec_msgs cec_ops cec_frame_simps)

subsection \<open>User controls\<close>

lemma ui_command_cases:
  obtains (none) "uc_has_opt_arg c = 0 \<or> \<not> ui_one_byte (uc_ui_cmd c) \<and> uc_ui_cmd c \<noteq> 0x67"
    | (one) "uc_has_opt_arg c \<noteq> 0" "ui_one_byte (uc_ui_cmd c)"
    | (channel) "uc_has_opt_arg c \<noteq> 0" "uc_ui_cmd c = 0x67"
  by blast

lemma ui_67 [simp]: "\<not> ui_one_byte 0x67"
  by (simp add: ui_one_byte_def)

lemma ui_mem:
  "c = 0x56 \<or> c = 0x57 \<or> c = 0x60 \<or> c = 0x68 \<or> c = 0x69 \<or> c = 0x6a \<longleftrightarrow> ui_one_byte c"
  by (simp add: ui_one_byte_def)

lemma channel_small:
  fixes f :: u8 and j :: u16
  assumes "f < 64" "j < 256"
  shows "to_u16 (push_bit 6 (to_int (to_u8 (push_bit 2 (to_int f) OR drop_bit 8 (to_int j))) AND 3) OR
           to_int (to_u8 (to_int j AND 0xff))) = j"
proof -
  have "j < 1024" using assms(2) by (simp add: word_less_nat_alt)
  then show ?thesis using channel_bytes(2) [OF assms(1)] major_shift_iff assms(2) by simp
qed

lemmas ui_simps = cec_msgs cec_ops cec_frame_simps ui_command_of_def ui_command_ok_def
  uc_play_mode_def uc_channel_identifier_def

lemma ui_frame:
  assumes "cec_wf m"
  shows "cec_wf (cec_msg_user_control_pressed m c)"
    and "msg_at (cec_msg_user_control_pressed m c) 0 = msg_at m 0"
    and "msg_at (cec_msg_user_control_pressed m c) 1 = CEC_MSG_USER_CONTROL_PRESSED"
    and "unat (cm_len (cec_msg_user_control_pressed m c)) \<in> {3, 4, 7}"
  using assms by (auto simp: cec_msgs Let_def)

lemma ui_decoded:
  assumes m: "cec_wf m" and ok: "ui_command_ok c"
  shows "ui_command_of (cec_ops_user_control_pressed (cec_msg_user_control_pressed m c) old) = ui_command_of c"
proof (cases rule: ui_command_cases [of c])
  case none
  with m show ?thesis by (auto simp: ui_simps ui_mem)
next
  case one
  then have "uc_ui_cmd c \<noteq> 0x67" by auto
  with one m show ?thesis by (simp add: ui_simps ui_mem)
next
  case channel
  with ok have "lo8 (uc_h0 c) < 64" "uc_h1 c < 256" by (simp_all add: ui_command_ok_def uc_channel_identifier_def)
  moreover from this have "uc_h1 c < 1024" by (simp add: word_less_nat_alt)
  ultimately show ?thesis using channel m
    by (simp add: ui_simps ui_mem channel_small channel_bytes(1) del: push_bit_and)
qed

lemma ui_no_operand:
  "uc_has_opt_arg c = 0 \<or> \<not> ui_one_byte (uc_ui_cmd c) \<and> uc_ui_cmd c \<noteq> 0x67 \<Longrightarrow>
   cec_msg_user_control_pressed m c =
     msg_put (msg_put (m\<lparr>cm_len := 3\<rparr>) 1 CEC_MSG_USER_CONTROL_PRESSED) 2 (uc_ui_cmd c)"
  by (auto simp: cec_msg_user_control_pressed_def Let_def ui_one_byte_def)

lemma ui_delivered:
  assumes m: "cec_wf m" and del: "cec_delivered (cec_msg_user_control_pressed m c) m'"
  shows "cec_ops_user_control_pressed m' old = cec_ops_user_control_pressed (cec_msg_user_control_pressed m c) old"
proof (cases rule: ui_command_cases [of c])
  case none
  note [simp] = ui_no_operand [OF none, of m]
  from m del show ?thesis by (simp add: cec_ops cec_frame_simps)
next
  case one
  then have "uc_ui_cmd c \<noteq> 0x67" by auto
  with one m del show ?thesis by (simp add: cec_msgs cec_ops cec_frame_simps ui_mem)
next
  case channel
  with m del show ?thesis by (simp add: cec_msgs cec_ops cec_frame_simps ui_mem)
qed

interpretation user_control_pressed: cec_codec
    "\<lambda>ui_cmd m. cec_msg_user_control_pressed m ui_cmd"
    CEC_MSG_USER_CONTROL_PRESSED ui_command_ok
    "\<lambda>m. ui_command_of (cec_ops_user_control_pressed m old)" ui_command_of
  for old
proof
  fix m :: cec_msg and c m'
  assume m: "cec_wf m"
  show "cec_wf (cec_msg_user_control_pressed m c)" by (rule ui_frame(1) [OF m])
  show "msg_at (cec_msg_user_control_pressed m c) 1 = CEC_MSG_USER_CONTROL_PRESSED" by (rule ui_frame(3) [OF m])
  show "2 \<le> unat (cm_len (cec_msg_user_control_pressed m c)) \<and>
      unat (cm_len (cec_msg_user_control_pressed m c)) \<le> 16"
    using ui_frame(4) [OF m, of c] by auto
  show "cec_msg_initiator (cec_msg_user_control_pressed m c) = cec_msg_initiator m"
    using ui_frame(2) [OF m] by (simp add: cec_msg_initiator_def)
  assume "ui_command_ok c"
  then show "ui_command_of (cec_ops_user_control_pressed (cec_msg_user_control_pressed m c) old) = ui_command_of c"
    by (rule ui_decoded [OF m])
  assume "cec_delivered (cec_msg_user_control_pressed m c) m'"
  then show "ui_command_of (cec_ops_user_control_pressed m' old) =
      ui_command_of (cec_ops_user_control_pressed (cec_msg_user_control_pressed m c) old)"
    by (simp add: ui_delivered [OF m])
qed

subsection \<open>Aborts\<close>

text \<open>
  The reply to a message is addressed to its initiator, comes from its destination, and carries
  the opcode that is refused and the reason.
\<close>

lemma reply_feature_abort_spec:
  assumes "cec_wf m"
  shows "cec_msg_initiator (cec_msg_reply_feature_abort m reason) = cec_msg_destination m \<and>
    cec_msg_destination (cec_msg_reply_feature_abort m reason) = cec_msg_initiator m \<and>
    cec_ops_feature_abort (cec_msg_reply_feature_abort m reason) = (msg_at m 1, reason) \<and>
    cec_msg_opcode (cec_msg_reply_feature_abort m reason) = to_int CEC_MSG_FEATURE_ABORT \<and>
    cm_reply (cec_msg_reply_feature_abort m reason) = 0 \<and>
    cm_timeout (cec_msg_reply_feature_abort m reason) = 0"
  using assms set_reply_to_swaps [OF assms, of m]
  by (simp add: cec_msg_reply_feature_abort_def cec_ops_feature_abort_def cec_msg_opcode_def Let_def
      cec_msg_initiator_def cec_msg_destination_def cec_msg_set_reply_to_def)

end
