(* ===== verification/Cec_Audio.thy ===== *)
theory Cec_Audio
  imports Cec_Routing
begin

section \<open>CEC codec: audio\<close>

text \<open>
  System audio control with its short audio descriptors, audio rate, audio return channel and
  latency reports.
\<close>

unbundle bit_operations_syntax

subsection \<open>System Audio Control Feature\<close>

definition cec_msg_report_audio_status :: "cec_msg \<Rightarrow> u8 \<Rightarrow> u8 \<Rightarrow>
    cec_msg" where
  [cec_msgs]: "cec_msg_report_audio_status m aud_mute_status aud_vol_status =
     (let m = m\<lparr>cm_len := 3\<rparr>;
          m = msg_put m 1 CEC_MSG_REPORT_AUDIO_STATUS;
          m = msg_put m 2 (to_u8 (push_bit 7 (to_int aud_mute_status) OR (to_int aud_vol_status AND 0x7f)))
      in m)"

definition cec_ops_report_audio_status :: "cec_msg \<Rightarrow> u8 \<times> u8" where
  [cec_ops]: "cec_ops_report_audio_status m =
     (to_u8 (drop_bit 7 (to_int (msg_at m 2))),
      to_u8 (to_int (msg_at m 2) AND 0x7f))"

definition cec_msg_give_audio_status :: "cec_msg \<Rightarrow> s32 \<Rightarrow> cec_msg" where
  [cec_msgs]: "cec_msg_give_audio_status m reply =
     (let m = m\<lparr>cm_len := 2\<rparr>;
          m = msg_put m 1 CEC_MSG_GIVE_AUDIO_STATUS;
          m = m\<lparr>cm_reply := if reply \<noteq> 0 then CEC_MSG_REPORT_AUDIO_STATUS else 0\<rparr>
      in m)"

definition cec_msg_set_system_audio_mode :: "cec_msg \<Rightarrow> u8 \<Rightarrow> cec_msg" where
  [cec_msgs]: "cec_msg_set_system_audio_mode m sys_aud_status =
     (let m = m\<lparr>cm_len := 3\<rparr>;
          m = msg_put m 1 CEC_MSG_SET_SYSTEM_AUDIO_MODE;
          m = msg_put m 2 sys_aud_status
      in m)"

definition cec_ops_set_system_audio_mode :: "cec_msg \<Rightarrow> u8" where
  [cec_ops]: "cec_ops_set_system_audio_mode m = msg_at m 2"

definition cec_msg_system_audio_mode_request :: "cec_msg \<Rightarrow> s32 \<Rightarrow> u16 \<Rightarrow> cec_msg" where
  [cec_msgs]: "cec_msg_system_audio_mode_request m reply phys_addr =
     (let m = m\<lparr>cm_len := if phys_addr = 0xffff then 2 else 4\<rparr>;
          m = msg_put m 1 CEC_MSG_SYSTEM_AUDIO_MODE_REQUEST;
          m = msg_put m 2 (to_u8 (drop_bit 8 (to_int phys_addr)));
          m = msg_put m 3 (to_u8 (to_int phys_addr AND 0xff));
          m = m\<lparr>cm_reply := if reply \<noteq> 0 then CEC_MSG_SET_SYSTEM_AUDIO_MODE else 0\<rparr>
      in m)"

definition cec_ops_system_audio_mode_request :: "cec_msg \<Rightarrow> u16" where
  [cec_ops]: "cec_ops_system_audio_mode_request m =
     (if cm_len m < 4 then 0xffff
      else to_u16 (push_bit 8 (to_int (msg_at m 2)) OR to_int (msg_at m 3)))"

definition cec_msg_system_audio_mode_status :: "cec_msg \<Rightarrow> u8 \<Rightarrow> cec_msg"
    where
  [cec_msgs]: "cec_msg_system_audio_mode_status m sys_aud_status =
     (let m = m\<lparr>cm_len := 3\<rparr>;
          m = msg_put m 1 CEC_MSG_SYSTEM_AUDIO_MODE_STATUS;
          m = msg_put m 2 sys_aud_status
      in m)"

definition cec_ops_system_audio_mode_status :: "cec_msg \<Rightarrow> u8" where
  [cec_ops]: "cec_ops_system_audio_mode_status m = msg_at m 2"

definition cec_msg_give_system_audio_mode_status :: "cec_msg \<Rightarrow> s32 \<Rightarrow>
    cec_msg" where
  [cec_msgs]: "cec_msg_give_system_audio_mode_status m reply =
     (let m = m\<lparr>cm_len := 2\<rparr>;
          m = msg_put m 1 CEC_MSG_GIVE_SYSTEM_AUDIO_MODE_STATUS;
          m = m\<lparr>cm_reply := if reply \<noteq> 0 then CEC_MSG_SYSTEM_AUDIO_MODE_STATUS else 0\<rparr>
      in m)"

text \<open>
  The loops over the descriptors, from index \<open>i\<close>; \<open>n\<close> is the number of iterations that remain.
  Reading past the caller's array is a fault; the payload indices stay below 16.
\<close>

primrec put_descriptors :: "u32 list \<Rightarrow> nat \<Rightarrow> nat \<Rightarrow> cec_msg \<Rightarrow> cec_msg result" where
  "put_descriptors descriptors i 0 m = Inr m"
| "put_descriptors descriptors i (Suc n) m =
     res_bind (arr_read descriptors i) (\<lambda>d.
       let m = msg_put m (2 + i * 3) (to_u8 (drop_bit 16 d AND 0xff));
           m = msg_put m (3 + i * 3) (to_u8 (drop_bit 8 d AND 0xff));
           m = msg_put m (4 + i * 3) (to_u8 (d AND 0xff))
       in put_descriptors descriptors (i + 1) n m)"

definition cec_msg_report_short_audio_descriptor ::
    "cec_msg \<Rightarrow> u8 \<Rightarrow> u32 list \<Rightarrow> cec_msg result" where
  "cec_msg_report_short_audio_descriptor m num_descriptors descriptors =
     (let num_descriptors = (if num_descriptors > 4 then 4 else num_descriptors);
          m = m\<lparr>cm_len := 2 + to_int num_descriptors * 3\<rparr>;
          m = msg_put m 1 CEC_MSG_REPORT_SHORT_AUDIO_DESCRIPTOR
      in put_descriptors descriptors 0 (unat num_descriptors) m)"

primrec get_descriptors :: "cec_msg \<Rightarrow> nat \<Rightarrow> nat \<Rightarrow> u32 list \<Rightarrow> u32 list result" where
  "get_descriptors m i 0 descriptors = Inr descriptors"
| "get_descriptors m i (Suc n) descriptors =
     res_bind (arr_write descriptors i
         ((push_bit 16 (to_int (msg_at m (2 + i * 3))) OR push_bit 8 (to_int (msg_at m (3 + i * 3)))) OR
          to_int (msg_at m (4 + i * 3))))
       (\<lambda>descriptors. get_descriptors m (i + 1) n descriptors)"

definition cec_ops_report_short_audio_descriptor ::
    "cec_msg \<Rightarrow> u32 list \<Rightarrow> (u8 \<times> u32 list) result" where
  "cec_ops_report_short_audio_descriptor m descriptors =
     (let num_descriptors = to_u8 ((cm_len m - 2) div 3);
          num_descriptors = (if num_descriptors > 4 then 4 else num_descriptors)
      in res_bind (get_descriptors m 0 (unat num_descriptors) descriptors)
           (\<lambda>descriptors. Inr (num_descriptors, descriptors)))"

primrec put_formats :: "u8 list \<Rightarrow> u8 list \<Rightarrow> nat \<Rightarrow> nat \<Rightarrow> cec_msg \<Rightarrow> cec_msg result" where
  "put_formats audio_format_id audio_format_code i 0 m = Inr m"
| "put_formats audio_format_id audio_format_code i (Suc n) m =
     res_bind (arr_read audio_format_id i) (\<lambda>fid.
     res_bind (arr_read audio_format_code i) (\<lambda>code.
       put_formats audio_format_id audio_format_code (i + 1) n
         (msg_put m (2 + i) (to_u8 (push_bit 6 (to_int fid) OR (to_int code AND 0x3f))))))"

definition cec_msg_request_short_audio_descriptor ::
    "cec_msg \<Rightarrow> s32 \<Rightarrow> u8 \<Rightarrow> u8 list \<Rightarrow> u8 list \<Rightarrow> cec_msg result" where
  "cec_msg_request_short_audio_descriptor m reply num_descriptors audio_format_id audio_format_code =
     (let num_descriptors = (if num_descriptors > 4 then 4 else num_descriptors);
          m = m\<lparr>cm_len := 2 + to_int num_descriptors\<rparr>;
          m = msg_put m 1 CEC_MSG_REQUEST_SHORT_AUDIO_DESCRIPTOR;
          m = m\<lparr>cm_reply := if reply \<noteq> 0 then CEC_MSG_REPORT_SHORT_AUDIO_DESCRIPTOR else 0\<rparr>
      in put_formats audio_format_id audio_format_code 0 (unat num_descriptors) m)"

primrec get_formats ::
    "cec_msg \<Rightarrow> nat \<Rightarrow> nat \<Rightarrow> u8 list \<Rightarrow> u8 list \<Rightarrow> (u8 list \<times> u8 list) result" where
  "get_formats m i 0 audio_format_id audio_format_code = Inr (audio_format_id, audio_format_code)"
| "get_formats m i (Suc n) audio_format_id audio_format_code =
     res_bind (arr_write audio_format_id i (to_u8 (drop_bit 6 (to_int (msg_at m (2 + i))))))
       (\<lambda>audio_format_id.
     res_bind (arr_write audio_format_code i (to_u8 (to_int (msg_at m (2 + i)) AND 0x3f)))
       (\<lambda>audio_format_code. get_formats m (i + 1) n audio_format_id audio_format_code))"

definition cec_ops_request_short_audio_descriptor ::
    "cec_msg \<Rightarrow> u8 list \<Rightarrow> u8 list \<Rightarrow> (u8 \<times> u8 list \<times> u8 list) result" where
  "cec_ops_request_short_audio_descriptor m audio_format_id audio_format_code =
     (let num_descriptors = to_u8 (cm_len m - 2);
          num_descriptors = (if num_descriptors > 4 then 4 else num_descriptors)
      in res_bind (get_formats m 0 (unat num_descriptors) audio_format_id audio_format_code)
           (\<lambda>(audio_format_id, audio_format_code).
              Inr (num_descriptors, audio_format_id, audio_format_code)))"

subsection \<open>Audio Rate Control Feature\<close>

definition cec_msg_set_audio_rate :: "cec_msg \<Rightarrow> u8 \<Rightarrow> cec_msg" where
  [cec_msgs]: "cec_msg_set_audio_rate m audio_rate =
     (let m = m\<lparr>cm_len := 3\<rparr>;
          m = msg_put m 1 CEC_MSG_SET_AUDIO_RATE;
          m = msg_put m 2 audio_rate
      in m)"

definition cec_ops_set_audio_rate :: "cec_msg \<Rightarrow> u8" where
  [cec_ops]: "cec_ops_set_audio_rate m = msg_at m 2"

subsection \<open>Audio Return Channel Control Feature\<close>

definition cec_msg_report_arc_initiated :: "cec_msg \<Rightarrow> cec_msg" where
  [cec_msgs]: "cec_msg_report_arc_initiated m =
     (let m = m\<lparr>cm_len := 2\<rparr>;
          m = msg_put m 1 CEC_MSG_REPORT_ARC_INITIATED
      in m)"

definition cec_msg_initiate_arc :: "cec_msg \<Rightarrow> s32 \<Rightarrow> cec_msg" where
  [cec_msgs]: "cec_msg_initiate_arc m reply =
     (let m = m\<lparr>cm_len := 2\<rparr>;
          m = msg_put m 1 CEC_MSG_INITIATE_ARC;
          m = m\<lparr>cm_reply := if reply \<noteq> 0 then CEC_MSG_REPORT_ARC_INITIATED else 0\<rparr>
      in m)"

definition cec_msg_request_arc_initiation :: "cec_msg \<Rightarrow> s32 \<Rightarrow> cec_msg"
    where
  [cec_msgs]: "cec_msg_request_arc_initiation m reply =
     (let m = m\<lparr>cm_len := 2\<rparr>;
          m = msg_put m 1 CEC_MSG_REQUEST_ARC_INITIATION;
          m = m\<lparr>cm_reply := if reply \<noteq> 0 then CEC_MSG_INITIATE_ARC else 0\<rparr>
      in m)"

definition cec_msg_report_arc_terminated :: "cec_msg \<Rightarrow> cec_msg" where
  [cec_msgs]: "cec_msg_report_arc_terminated m =
     (let m = m\<lparr>cm_len := 2\<rparr>;
          m = msg_put m 1 CEC_MSG_REPORT_ARC_TERMINATED
      in m)"

definition cec_msg_terminate_arc :: "cec_msg \<Rightarrow> s32 \<Rightarrow> cec_msg" where
  [cec_msgs]: "cec_msg_terminate_arc m reply =
     (let m = m\<lparr>cm_len := 2\<rparr>;
          m = msg_put m 1 CEC_MSG_TERMINATE_ARC;
          m = m\<lparr>cm_reply := if reply \<noteq> 0 then CEC_MSG_REPORT_ARC_TERMINATED else 0\<rparr>
      in m)"

definition cec_msg_request_arc_termination :: "cec_msg \<Rightarrow> s32 \<Rightarrow> cec_msg"
    where
  [cec_msgs]: "cec_msg_request_arc_termination m reply =
     (let m = m\<lparr>cm_len := 2\<rparr>;
          m = msg_put m 1 CEC_MSG_REQUEST_ARC_TERMINATION;
          m = m\<lparr>cm_reply := if reply \<noteq> 0 then CEC_MSG_TERMINATE_ARC else 0\<rparr>
      in m)"

subsection \<open>Dynamic Audio Lipsync Feature\<close>

definition cec_msg_report_current_latency ::
    "cec_msg \<Rightarrow> u16 \<Rightarrow> u8 \<Rightarrow> u8 \<Rightarrow> u8 \<Rightarrow> u8 \<Rightarrow> cec_msg" where
  [cec_msgs]: "cec_msg_report_current_latency m phys_addr video_latency low_latency_mode
      audio_out_compensated audio_out_delay =
     (let m = m\<lparr>cm_len := 6\<rparr>;
          m = msg_put m 0 (to_u8 (to_int (msg_at m 0) OR 0xf));
          m = msg_put m 1 CEC_MSG_REPORT_CURRENT_LATENCY;
          m = msg_put m 2 (to_u8 (drop_bit 8 (to_int phys_addr)));
          m = msg_put m 3 (to_u8 (to_int phys_addr AND 0xff));
          m = msg_put m 4 video_latency;
          m = msg_put m 5 (to_u8 (push_bit 2 (to_int low_latency_mode) OR to_int audio_out_compensated))
      in if audio_out_compensated = 3 then msg_push m audio_out_delay else m)"

definition cec_ops_report_current_latency :: "cec_msg \<Rightarrow> u16 \<times> u8 \<times> u8 \<times> u8 \<times> u8" where
  [cec_ops]: "cec_ops_report_current_latency m =
     (let phys_addr = to_u16 (push_bit 8 (to_int (msg_at m 2)) OR to_int (msg_at m 3));
          video_latency = msg_at m 4;
          low_latency_mode = to_u8 (drop_bit 2 (to_int (msg_at m 5)) AND 1);
          audio_out_compensated = to_u8 (to_int (msg_at m 5) AND 3);
          audio_out_delay = (if audio_out_compensated = 3 \<and> cm_len m \<ge> 7 then msg_at m 6 else 0)
      in (phys_addr, video_latency, low_latency_mode, audio_out_compensated, audio_out_delay))"

definition cec_msg_request_current_latency :: "cec_msg \<Rightarrow> s32 \<Rightarrow> u16
    \<Rightarrow> cec_msg" where
  [cec_msgs]: "cec_msg_request_current_latency m reply phys_addr =
     (let m = m\<lparr>cm_len := 4\<rparr>;
          m = msg_put m 0 (to_u8 (to_int (msg_at m 0) OR 0xf));
          m = msg_put m 1 CEC_MSG_REQUEST_CURRENT_LATENCY;
          m = msg_put m 2 (to_u8 (drop_bit 8 (to_int phys_addr)));
          m = msg_put m 3 (to_u8 (to_int phys_addr AND 0xff));
          m = m\<lparr>cm_reply := if reply \<noteq> 0 then CEC_MSG_REPORT_CURRENT_LATENCY else 0\<rparr>
      in m)"

definition cec_ops_request_current_latency :: "cec_msg \<Rightarrow> u16" where
  [cec_ops]: "cec_ops_request_current_latency m =
     to_u16 (push_bit 8 (to_int (msg_at m 2)) OR to_int (msg_at m 3))"

subsection \<open>Specification\<close>

text \<open>The descriptor and the format at position \<open>j\<close> of a message.\<close>

definition descriptor_at :: "cec_msg \<Rightarrow> nat \<Rightarrow> u32" where
  "descriptor_at m j =
     (push_bit 16 (to_int (msg_at m (2 + j * 3))) OR push_bit 8 (to_int (msg_at m (3 + j * 3)))) OR
     to_int (msg_at m (4 + j * 3))"

definition format_id_at :: "cec_msg \<Rightarrow> nat \<Rightarrow> u8" where
  "format_id_at m j = to_u8 (drop_bit 6 (to_int (msg_at m (2 + j))))"

definition format_code_at :: "cec_msg \<Rightarrow> nat \<Rightarrow> u8" where
  "format_code_at m j = to_u8 (to_int (msg_at m (2 + j)) AND 0x3f)"

definition latency_ok :: "u16 \<times> u8 \<times> u8 \<times> u8 \<times> u8 \<Rightarrow> bool" where
  "latency_ok = (\<lambda>(phys_addr, video_latency, low_latency_mode, audio_out_compensated, audio_out_delay).
     low_latency_mode < 2 \<and> audio_out_compensated < 4 \<and>
     (audio_out_compensated = 3 \<or> audio_out_delay = 0))"

subsection \<open>What is encoded is what is decoded\<close>

interpretation report_audio_status: cec_codec
    "\<lambda>(aud_mute_status, aud_vol_status) m.
       cec_msg_report_audio_status m aud_mute_status aud_vol_status"
    CEC_MSG_REPORT_AUDIO_STATUS "\<lambda>(aud_mute_status, aud_vol_status).
       aud_mute_status < 2 \<and> aud_vol_status < 128"
    cec_ops_report_audio_status "\<lambda>a. a"
  by unfold_locales (auto simp: cec_msgs cec_ops cec_frame_simps)

interpretation set_system_audio_mode: cec_codec
    "\<lambda>sys_aud_status m. cec_msg_set_system_audio_mode m sys_aud_status"
    CEC_MSG_SET_SYSTEM_AUDIO_MODE "\<lambda>_. True"
    cec_ops_set_system_audio_mode "\<lambda>a. a"
  by unfold_locales (auto simp: cec_msgs cec_ops cec_frame_simps)

interpretation system_audio_mode_status: cec_codec
    "\<lambda>sys_aud_status m. cec_msg_system_audio_mode_status m sys_aud_status"
    CEC_MSG_SYSTEM_AUDIO_MODE_STATUS "\<lambda>_. True"
    cec_ops_system_audio_mode_status "\<lambda>a. a"
  by unfold_locales (auto simp: cec_msgs cec_ops cec_frame_simps)

interpretation set_audio_rate: cec_codec
    "\<lambda>audio_rate m. cec_msg_set_audio_rate m audio_rate"
    CEC_MSG_SET_AUDIO_RATE "\<lambda>_. True"
    cec_ops_set_audio_rate "\<lambda>a. a"
  by unfold_locales (auto simp: cec_msgs cec_ops cec_frame_simps)

interpretation request_current_latency: cec_codec
    "\<lambda>phys_addr m. cec_msg_request_current_latency m reply phys_addr"
    CEC_MSG_REQUEST_CURRENT_LATENCY "\<lambda>_. True"
    cec_ops_request_current_latency "\<lambda>a. a"
  for reply
  by unfold_locales (auto simp: cec_msgs cec_ops cec_frame_simps)

interpretation system_audio_mode_request: cec_codec
    "\<lambda>phys_addr m. cec_msg_system_audio_mode_request m reply phys_addr"
    CEC_MSG_SYSTEM_AUDIO_MODE_REQUEST "\<lambda>_. True"
    cec_ops_system_audio_mode_request "\<lambda>a. a"
  for reply
  by unfold_locales (auto simp: cec_msgs cec_ops cec_frame_simps)

subsection \<open>Short audio descriptors\<close>

lemma put_descriptors_spec:
  assumes "cec_wf m" "i + n \<le> 4" "i + n \<le> length ds"
  shows "\<exists>e. put_descriptors ds i n m = Inr e \<and> cec_wf e \<and> cm_len e = cm_len m \<and>
    (\<forall>k < 2 + i * 3. msg_at e k = msg_at m k) \<and>
    (\<forall>j. i \<le> j \<and> j < i + n \<longrightarrow> descriptor_at e j = take_bit 24 (ds ! j))"
  using assms
proof (induction n arbitrary: i m)
  case 0
  then show ?case by auto
next
  case (Suc n)
  let ?d = "ds ! i"
  let ?m = "msg_put (msg_put (msg_put m (2 + i * 3) (to_u8 (drop_bit 16 ?d AND 0xff)))
    (3 + i * 3) (to_u8 (drop_bit 8 ?d AND 0xff))) (4 + i * 3) (to_u8 (?d AND 0xff))"
  have i: "i < length ds" "4 + i * 3 < 16" using Suc.prems by simp_all
  have "put_descriptors ds i (Suc n) m = put_descriptors ds (i + 1) n ?m"
    using i(1) by (simp add: Let_def)
  moreover from Suc.IH [of ?m "i + 1"] Suc.prems obtain e where
    e: "put_descriptors ds (i + 1) n ?m = Inr e" "cec_wf e" "cm_len e = cm_len m"
    and below: "\<forall>k < 2 + (i + 1) * 3. msg_at e k = msg_at ?m k"
    and rest: "\<forall>j. i + 1 \<le> j \<and> j < i + 1 + n \<longrightarrow> descriptor_at e j = take_bit 24 (ds ! j)"
    by auto
  moreover have "\<forall>k < 2 + i * 3. msg_at e k = msg_at m k" using below by simp
  moreover have "descriptor_at e i = take_bit 24 ?d"
    using below i(2) Suc.prems(1) by (simp add: descriptor_at_def be24_masked)
  moreover have "descriptor_at e j = take_bit 24 (ds ! j)" if "i \<le> j" "j < i + Suc n" for j
    using that rest \<open>descriptor_at e i = take_bit 24 ?d\<close> by (cases "j = i") auto
  ultimately show ?case by auto
qed

lemma upt_Suc_left: "[i..<i + Suc n] = i # [i + 1..<i + 1 + n]"
  by (simp add: upt_conv_Cons)

lemma get_descriptors_spec:
  assumes "i + n \<le> length out"
  shows "get_descriptors m i n out =
    Inr (take i out @ map (descriptor_at m) [i..<i + n] @ drop (i + n) out)"
  using assms
proof (induction n arbitrary: i out)
  case 0
  then show ?case by simp
next
  case (Suc n)
  then have "get_descriptors m i (Suc n) out = get_descriptors m (i + 1) n (out[i := descriptor_at m i])"
    by (simp add: descriptor_at_def)
  also have "\<dots> = Inr (take (i + 1) (out[i := descriptor_at m i]) @
      map (descriptor_at m) [i + 1..<i + 1 + n] @ drop (i + 1 + n) (out[i := descriptor_at m i]))"
    using Suc.prems by (intro Suc.IH) simp
  also have "take (i + 1) (out[i := descriptor_at m i]) = take i out @ [descriptor_at m i]"
    using Suc.prems by (simp add: take_Suc_conv_app_nth)
  also have "drop (i + 1 + n) (out[i := descriptor_at m i]) = drop (i + Suc n) out" by simp
  finally show ?case unfolding upt_Suc_left by (simp del: upt_Suc get_descriptors.simps)
qed

lemma num_clamped: "unat (if (x :: u8) > 4 then 4 else x) = min (unat x) 4"
  by (simp add: word_less_nat_alt)

lemma descriptors_delivered:
  assumes "cec_wf m" "min (unat num) 4 \<le> length ds"
  shows "\<exists>e. cec_msg_report_short_audio_descriptor m num ds = Inr e \<and>
    (\<forall>m' out. cec_delivered e m' \<and> min (unat num) 4 \<le> length out \<longrightarrow>
       cec_ops_report_short_audio_descriptor m' out =
         Inr (if num > 4 then 4 else num,
              map (take_bit 24) (take (min (unat num) 4) ds) @ drop (min (unat num) 4) out))"
proof -
  let ?z = "if num > 4 then 4 else num" and ?n = "min (unat num) 4"
  let ?m = "msg_put (m\<lparr>cm_len := 2 + to_int ?z * 3\<rparr>) 1 CEC_MSG_REPORT_SHORT_AUDIO_DESCRIPTOR"
  have n: "unat ?z = ?n" by (rule num_clamped)
  have u: "unat (to_int ?z * 3) = ?n * 3" using n by (subst unat_mult_lem [THEN iffD1]) simp_all
  have len: "unat (2 + to_int ?z * 3) = 2 + ?n * 3" using u by (subst unat_add_small) simp_all
  obtain e where e: "put_descriptors ds 0 ?n ?m = Inr e" "cm_len e = 2 + to_int ?z * 3"
    and d: "\<And>j. j < ?n \<Longrightarrow> descriptor_at e j = take_bit 24 (ds ! j)"
    using put_descriptors_spec [of ?m 0 ?n ds] assms by auto
  have enc: "cec_msg_report_short_audio_descriptor m num ds = Inr e"
    using e(1) n by (simp add: cec_msg_report_short_audio_descriptor_def Let_def split del: if_split)
  have "cec_ops_report_short_audio_descriptor m' out = Inr (?z, map (take_bit 24) (take ?n ds) @ drop ?n out)"
    if del: "cec_delivered e m'" and out: "?n \<le> length out" for m' out
  proof -
    have "unat ((2 + to_int ?z * 3 - 2) div 3) = unat (to_int ?z)"
      using u n by (simp add: unat_div split del: if_split)
    then have "(2 + to_int ?z * 3 - 2) div 3 = to_int ?z" by (rule word_unat_eq_iff [THEN iffD2])
    then have "to_u8 ((cm_len m' - 2) div 3) = ?z"
      by (simp only: cec_delivered_len [OF del] e(2) to_u8_to_int)
    moreover have "descriptor_at m' j = take_bit 24 (ds ! j)" if "j < ?n" for j
    proof -
      have "4 + j * 3 < 2 + ?n * 3" using that by linarith
      then have "\<forall>i \<le> 4 + j * 3. msg_at m' i = msg_at e i"
        using cec_delivered_at [OF del] len e(2) by simp
      then show ?thesis using d [OF that] by (simp add: descriptor_at_def)
    qed
    then have "map (descriptor_at m') [0..<?n] = map (take_bit 24) (take ?n ds)"
      using assms(2) by (intro nth_equalityI) simp_all
    moreover have "(if ?z > 4 then 4 else ?z) = ?z" by simp
    ultimately show ?thesis
      using get_descriptors_spec [of 0 ?n out m'] out n
      by (simp add: cec_ops_report_short_audio_descriptor_def Let_def split del: if_split)
  qed
  with enc show ?thesis by blast
qed

lemma descriptors_short_frame:
  assumes "cm_len m < 2" "length out < 4"
  shows "cec_ops_report_short_audio_descriptor m out = Inl OutOfBounds"
proof -
  from assms(1) have l: "cm_len m = 0 \<or> cm_len m = 1" by (simp add: word_less_nat_alt word_unat_eq_iff) linarith
  have "to_u8 ((cm_len m - 2) div 3) > 4"
    using l by (auto simp: to_u8_def)
  then have n: "(let num = to_u8 ((cm_len m - 2) div 3) in if num > 4 then 4 else num) = 4"
    by (simp add: Let_def)
  have "get_descriptors m i k out = Inl OutOfBounds" if "length out < i + k" "i \<le> length out" for i k and out :: "u32 list"
    using that
  proof (induction k arbitrary: i out)
    case 0
    then show ?case by simp
  next
    case (Suc k)
    then show ?case by (cases "i < length out") (simp_all add: arr_write_def)
  qed
  from this [of out 0 4] assms(2) have "get_descriptors m 0 4 out = Inl OutOfBounds" by simp
  with n show ?thesis by (simp add: cec_ops_report_short_audio_descriptor_def Let_def)
qed

lemma format_byte:
  fixes a c :: u8
  assumes "a < 4" "c < 64"
  shows "to_u8 (drop_bit 6 (to_int (to_u8 (push_bit 6 (to_int a) OR (to_int c AND 0x3f))))) = a"
    and "to_u8 (to_int (to_u8 (push_bit 6 (to_int a) OR (to_int c AND 0x3f))) AND 0x3f) = c"
proof -
  have "to_int c AND 0x3f = to_int c"
    using take_bit_small [of "to_int c" 6] assms(2)
    by (simp only: mask_lits(5) take_bit_eq_mask) (simp add: word_less_nat_alt)
  moreover have "unat (to_int a) < 2 ^ (8 - 6)" "unat (to_int c) < 2 ^ 6"
    using assms by (simp_all add: word_less_nat_alt)
  note two_fields [OF this]
  ultimately show "to_u8 (drop_bit 6 (to_int (to_u8 (push_bit 6 (to_int a) OR (to_int c AND 0x3f))))) = a"
    and "to_u8 (to_int (to_u8 (push_bit 6 (to_int a) OR (to_int c AND 0x3f))) AND 0x3f) = c"
    by (simp_all add: mask_lits(5))
qed

lemma put_formats_spec:
  assumes "cec_wf m" "i + n \<le> 4" "i + n \<le> length fid" "i + n \<le> length code"
    and "\<forall>j < length fid. fid ! j < 4" "\<forall>j < length code. code ! j < 64"
  shows "\<exists>e. put_formats fid code i n m = Inr e \<and> cec_wf e \<and> cm_len e = cm_len m \<and>
    (\<forall>k < 2 + i. msg_at e k = msg_at m k) \<and>
    (\<forall>j. i \<le> j \<and> j < i + n \<longrightarrow> format_id_at e j = fid ! j \<and> format_code_at e j = code ! j)"
  using assms(1-4)
proof (induction n arbitrary: i m)
  case 0
  then show ?case by auto
next
  case (Suc n)
  let ?m = "msg_put m (2 + i) (to_u8 (push_bit 6 (to_int (fid ! i)) OR (to_int (code ! i) AND 0x3f)))"
  have i: "i < length fid" "i < length code" "2 + i < 16" using Suc.prems by simp_all
  have "put_formats fid code i (Suc n) m = put_formats fid code (i + 1) n ?m" using i by simp
  moreover from Suc.IH [of ?m "i + 1"] Suc.prems obtain e where
    e: "put_formats fid code (i + 1) n ?m = Inr e" "cec_wf e" "cm_len e = cm_len m"
    and below: "\<forall>k < 2 + (i + 1). msg_at e k = msg_at ?m k"
    and rest: "\<forall>j. i + 1 \<le> j \<and> j < i + 1 + n \<longrightarrow> format_id_at e j = fid ! j \<and> format_code_at e j = code ! j"
    by auto
  moreover have "\<forall>k < 2 + i. msg_at e k = msg_at m k" using below by simp
  moreover have f: "format_id_at e i = fid ! i \<and> format_code_at e i = code ! i"
    using below i Suc.prems(1) assms(5,6) by (simp add: format_id_at_def format_code_at_def format_byte)
  moreover have "format_id_at e j = fid ! j \<and> format_code_at e j = code ! j" if "i \<le> j" "j < i + Suc n" for j
    using that rest f by (cases "j = i") auto
  ultimately show ?case by auto
qed

lemma get_formats_spec:
  assumes "i + n \<le> length fid" "i + n \<le> length code"
  shows "get_formats m i n fid code =
    Inr (take i fid @ map (format_id_at m) [i..<i + n] @ drop (i + n) fid,
         take i code @ map (format_code_at m) [i..<i + n] @ drop (i + n) code)"
  using assms
proof (induction n arbitrary: i fid code)
  case 0
  then show ?case by simp
next
  case (Suc n)
  have step: "take (i + 1) (xs[i := x]) @ ys @ drop (i + 1 + n) (xs[i := x]) =
      take i xs @ (x # ys) @ drop (i + Suc n) xs" if "i < length xs" for xs ys :: "u8 list" and x
    using that by (simp add: take_Suc_conv_app_nth)
  have "get_formats m i (Suc n) fid code =
      get_formats m (i + 1) n (fid[i := format_id_at m i]) (code[i := format_code_at m i])"
    using Suc.prems by (simp add: format_id_at_def format_code_at_def)
  then show ?case
    unfolding upt_Suc_left list.map
    using Suc.IH [of "i + 1" "fid[i := format_id_at m i]" "code[i := format_code_at m i]"] Suc.prems
    by (simp only: step length_list_update)
qed

lemma formats_delivered:
  assumes "cec_wf m" "min (unat num) 4 \<le> length fid" "min (unat num) 4 \<le> length code"
    and "\<forall>j < length fid. fid ! j < 4" "\<forall>j < length code. code ! j < 64"
  shows "\<exists>e. cec_msg_request_short_audio_descriptor m reply num fid code = Inr e \<and>
    (\<forall>m' ids codes. cec_delivered e m' \<and> min (unat num) 4 \<le> length ids \<and> min (unat num) 4 \<le> length codes \<longrightarrow>
       cec_ops_request_short_audio_descriptor m' ids codes =
         Inr (if num > 4 then 4 else num,
              take (min (unat num) 4) fid @ drop (min (unat num) 4) ids,
              take (min (unat num) 4) code @ drop (min (unat num) 4) codes))"
proof -
  let ?z = "if num > 4 then 4 else num" and ?n = "min (unat num) 4"
  let ?m = "(msg_put (m\<lparr>cm_len := 2 + to_int ?z\<rparr>) 1 CEC_MSG_REQUEST_SHORT_AUDIO_DESCRIPTOR)
    \<lparr>cm_reply := if reply \<noteq> 0 then CEC_MSG_REPORT_SHORT_AUDIO_DESCRIPTOR else 0\<rparr>"
  have n: "unat ?z = ?n" by (rule num_clamped)
  have len: "unat (2 + to_int ?z) = 2 + ?n" using n by (subst unat_add_small) simp_all
  obtain e where e: "put_formats fid code 0 ?n ?m = Inr e" "cm_len e = 2 + to_int ?z"
    and f: "\<And>j. j < ?n \<Longrightarrow> format_id_at e j = fid ! j \<and> format_code_at e j = code ! j"
    using put_formats_spec [of ?m 0 ?n fid code] assms by auto
  have enc: "cec_msg_request_short_audio_descriptor m reply num fid code = Inr e"
    using e(1) n by (simp add: cec_msg_request_short_audio_descriptor_def Let_def split del: if_split)
  have "cec_ops_request_short_audio_descriptor m' ids codes =
      Inr (?z, take ?n fid @ drop ?n ids, take ?n code @ drop ?n codes)"
    if del: "cec_delivered e m'" and out: "?n \<le> length ids" "?n \<le> length codes" for m' ids codes
  proof -
    have "cm_len m' - 2 = to_int ?z" by (simp only: cec_delivered_len [OF del] e(2)) simp
    moreover have at: "format_id_at m' j = fid ! j \<and> format_code_at m' j = code ! j" if "j < ?n" for j
      using cec_delivered_at [OF del, of "2 + j"] f [OF that] that len e(2)
      by (simp add: format_id_at_def format_code_at_def)
    have "map (format_id_at m') [0..<?n] = take ?n fid" "map (format_code_at m') [0..<?n] = take ?n code"
      using assms(2,3) at by (auto intro!: nth_equalityI)
    moreover have "(if ?z > 4 then 4 else ?z) = ?z" by simp
    ultimately show ?thesis
      using get_formats_spec [of 0 ?n ids codes m'] out n
      by (simp add: cec_ops_request_short_audio_descriptor_def Let_def split del: if_split)
  qed
  with enc show ?thesis by blast
qed

subsection \<open>Latency\<close>

lemma latency_byte:
  fixes a c :: u8
  assumes "a < 2" "c < 4"
  shows "to_u8 (drop_bit 2 (to_int (to_u8 (push_bit 2 (to_int a) OR to_int c))) AND 1) = a"
    and "to_u8 (to_int (to_u8 (push_bit 2 (to_int a) OR to_int c)) AND 3) = c"
proof -
  have "unat (to_int a) < 2 ^ (8 - 2)" "unat (to_int c) < 2 ^ 2"
    using assms by (simp_all add: word_less_nat_alt)
  note two = two_fields [OF this]
  have "take_bit 1 (to_int a) = to_int a" using assms(1) by (intro take_bit_small) (simp add: word_less_nat_alt)
  then have "to_int a AND 1 = to_int a" by (simp add: take_bit_eq_mask)
  then show "to_u8 (drop_bit 2 (to_int (to_u8 (push_bit 2 (to_int a) OR to_int c))) AND 1) = a"
    using two(1) by simp
  show "to_u8 (to_int (to_u8 (push_bit 2 (to_int a) OR to_int c)) AND 3) = c"
    using two(2) by (simp add: mask_lits(4))
qed

text \<open>The delay takes a seventh byte when the output is partly compensated.\<close>

lemma latency_decoded:
  assumes "cec_wf m" "latency_ok (p, v, l, c, d)"
  shows "cec_ops_report_current_latency (cec_msg_report_current_latency m p v l c d) = (p, v, l, c, d)"
proof (cases "c = 3")
  case True
  then have "l < 2" "c < 4" using assms(2) by (simp_all add: latency_ok_def)
  note b = latency_byte [OF this]
  show ?thesis using True b assms(1) by (simp add: cec_msgs cec_ops Let_def msg_push_def)
next
  case False
  then have "l < 2" "c < 4" "d = 0" using assms(2) by (simp_all add: latency_ok_def)
  note b = latency_byte [OF this(1,2)]
  show ?thesis using False b assms(1) \<open>d = 0\<close> by (simp add: cec_msgs cec_ops Let_def)
qed

lemma latency_fields:
  assumes "cec_wf m"
  shows "cec_wf (cec_msg_report_current_latency m p v l c d)"
    and "msg_at (cec_msg_report_current_latency m p v l c d) (Suc 0) = CEC_MSG_REPORT_CURRENT_LATENCY"
    and "unat (cm_len (cec_msg_report_current_latency m p v l c d)) = (if c = 3 then 7 else 6)"
    and "cec_msg_initiator (cec_msg_report_current_latency m p v l c d) = cec_msg_initiator m"
  using assms by (simp_all add: cec_msgs Let_def msg_push_def cec_msg_initiator_def)

lemma latency_delivered:
  assumes "cec_wf m" "latency_ok (p, v, l, c, d)"
    and del: "cec_delivered (cec_msg_report_current_latency m p v l c d) m'"
  shows "cec_ops_report_current_latency m' =
    cec_ops_report_current_latency (cec_msg_report_current_latency m p v l c d)"
proof (cases "c = 3")
  case True
  with del assms(1) show ?thesis by (simp add: cec_msgs cec_ops cec_frame_simps msg_push_def)
next
  case False
  then have "l < 2" "c < 4" using assms(2) by (simp_all add: latency_ok_def)
  note b = latency_byte [OF this]
  show ?thesis using False b del assms(1) by (simp add: cec_msgs cec_ops cec_frame_simps)
qed

interpretation report_current_latency: cec_codec
    "\<lambda>(phys_addr, video_latency, low_latency_mode, audio_out_compensated, audio_out_delay) m.
       cec_msg_report_current_latency m phys_addr video_latency low_latency_mode audio_out_compensated
         audio_out_delay"
    CEC_MSG_REPORT_CURRENT_LATENCY latency_ok
    cec_ops_report_current_latency "\<lambda>a. a"
  by unfold_locales
    (auto simp: latency_decoded latency_delivered latency_fields)

end
