(* ===== verification/Cec_Cdc.thy ===== *)
theory Cec_Cdc
  imports Cec_Routing
begin

section \<open>CEC codec: capability discovery and control\<close>

text \<open>
  The messages under the opcode \<open>CEC_MSG_CDC_MESSAGE\<close>. The physical address in bytes 2 and 3 is
  filled in by the CEC framework after the encoder, so the decoders return it as it stands.
\<close>

unbundle bit_operations_syntax

subsection \<open>Capability Discovery and Control Feature\<close>

definition cec_msg_cdc_hec_inquire_state :: "cec_msg \<Rightarrow> u16 \<Rightarrow> u16
    \<Rightarrow> cec_msg" where
  [cec_msgs]: "cec_msg_cdc_hec_inquire_state m phys_addr1 phys_addr2 =
     (let m = m\<lparr>cm_len := 9\<rparr>;
          m = msg_put m 0 (to_u8 (to_int (msg_at m 0) OR 0xf));
          m = msg_put m 1 CEC_MSG_CDC_MESSAGE;
          m = msg_put m 4 CEC_MSG_CDC_HEC_INQUIRE_STATE;
          m = msg_put m 5 (to_u8 (drop_bit 8 (to_int phys_addr1)));
          m = msg_put m 6 (to_u8 (to_int phys_addr1 AND 0xff));
          m = msg_put m 7 (to_u8 (drop_bit 8 (to_int phys_addr2)));
          m = msg_put m 8 (to_u8 (to_int phys_addr2 AND 0xff))
      in m)"

definition cec_ops_cdc_hec_inquire_state :: "cec_msg \<Rightarrow> u16 \<times> u16 \<times> u16"
    where
  [cec_ops]: "cec_ops_cdc_hec_inquire_state m =
     (to_u16 (push_bit 8 (to_int (msg_at m 2)) OR to_int (msg_at m 3)),
      to_u16 (push_bit 8 (to_int (msg_at m 5)) OR to_int (msg_at m 6)),
      to_u16 (push_bit 8 (to_int (msg_at m 7)) OR to_int (msg_at m 8)))"

definition cec_msg_cdc_hec_report_state ::
    "cec_msg \<Rightarrow> u16 \<Rightarrow> u8 \<Rightarrow> u8 \<Rightarrow> u8 \<Rightarrow> u8 \<Rightarrow> u8 \<Rightarrow> u16 \<Rightarrow> cec_msg" where
  [cec_msgs]: "cec_msg_cdc_hec_report_state m target_phys_addr hec_func_state host_func_state
      enc_func_state cdc_errcode has_field hec_field =
     (let m = m\<lparr>cm_len := if has_field \<noteq> 0 then 10 else 8\<rparr>;
          m = msg_put m 0 (to_u8 (to_int (msg_at m 0) OR 0xf));
          m = msg_put m 1 CEC_MSG_CDC_MESSAGE;
          m = msg_put m 4 CEC_MSG_CDC_HEC_REPORT_STATE;
          m = msg_put m 5 (to_u8 (drop_bit 8 (to_int target_phys_addr)));
          m = msg_put m 6 (to_u8 (to_int target_phys_addr AND 0xff));
          m = msg_put m 7 (to_u8 (push_bit 6 (to_int hec_func_state) OR
                                  push_bit 4 (to_int host_func_state) OR
                                  push_bit 2 (to_int enc_func_state) OR
                                  to_int cdc_errcode))
      in if has_field \<noteq> 0 then
        (let m = msg_put m 8 (to_u8 (drop_bit 8 (to_int hec_field)));
             m = msg_put m 9 (to_u8 (to_int hec_field AND 0xff))
         in m)
      else m)"

definition cec_ops_cdc_hec_report_state ::
    "cec_msg \<Rightarrow> u16 \<times> u16 \<times> u8 \<times> u8 \<times> u8 \<times> u8 \<times> u8 \<times> u16" where
  [cec_ops]: "cec_ops_cdc_hec_report_state m =
     (let phys_addr = to_u16 (push_bit 8 (to_int (msg_at m 2)) OR to_int (msg_at m 3));
          target_phys_addr = to_u16 (push_bit 8 (to_int (msg_at m 5)) OR to_int (msg_at m 6));
          hec_func_state = to_u8 (drop_bit 6 (to_int (msg_at m 7)));
          host_func_state = to_u8 (drop_bit 4 (to_int (msg_at m 7)) AND 3);
          enc_func_state = to_u8 (drop_bit 4 (to_int (msg_at m 7)) AND 3);
          cdc_errcode = to_u8 (to_int (msg_at m 7) AND 3);
          has_field = to_u8 (c_bool (cm_len m \<ge> 10));
          hec_field = (if has_field \<noteq> 0 then
                         to_u16 (push_bit 8 (to_int (msg_at m 8)) OR to_int (msg_at m 9)) else 0)
      in (phys_addr, target_phys_addr, hec_func_state, host_func_state, enc_func_state, cdc_errcode,
          has_field, hec_field))"

definition cec_msg_cdc_hec_set_state ::
    "cec_msg \<Rightarrow> u16 \<Rightarrow> u16 \<Rightarrow> u8 \<Rightarrow> u16 \<Rightarrow> u16 \<Rightarrow> u16 \<Rightarrow> cec_msg" where
  [cec_msgs]: "cec_msg_cdc_hec_set_state m phys_addr1 phys_addr2 hec_set_state phys_addr3 phys_addr4
      phys_addr5 =
     (let m = m\<lparr>cm_len := 10\<rparr>;
          m = msg_put m 0 (to_u8 (to_int (msg_at m 0) OR 0xf));
          m = msg_put m 1 CEC_MSG_CDC_MESSAGE;
          m = msg_put m 4 CEC_MSG_CDC_HEC_INQUIRE_STATE;
          m = msg_put m 5 (to_u8 (drop_bit 8 (to_int phys_addr1)));
          m = msg_put m 6 (to_u8 (to_int phys_addr1 AND 0xff));
          m = msg_put m 7 (to_u8 (drop_bit 8 (to_int phys_addr2)));
          m = msg_put m 8 (to_u8 (to_int phys_addr2 AND 0xff));
          m = msg_put m 9 hec_set_state
      in if phys_addr3 \<noteq> CEC_PHYS_ADDR_INVALID then
        (let m = msg_push m (to_u8 (drop_bit 8 (to_int phys_addr3)));
             m = msg_push m (to_u8 (to_int phys_addr3 AND 0xff))
         in if phys_addr4 \<noteq> CEC_PHYS_ADDR_INVALID then
           (let m = msg_push m (to_u8 (drop_bit 8 (to_int phys_addr4)));
                m = msg_push m (to_u8 (to_int phys_addr4 AND 0xff))
            in if phys_addr5 \<noteq> CEC_PHYS_ADDR_INVALID then
              (let m = msg_push m (to_u8 (drop_bit 8 (to_int phys_addr5)));
                   m = msg_push m (to_u8 (to_int phys_addr5 AND 0xff))
               in m)
            else m)
         else m)
      else m)"

definition cec_ops_cdc_hec_set_state ::
    "cec_msg \<Rightarrow> u16 \<times> u16 \<times> u16 \<times> u8 \<times> u16 \<times> u16 \<times> u16" where
  [cec_ops]: "cec_ops_cdc_hec_set_state m =
     (let phys_addr = to_u16 (push_bit 8 (to_int (msg_at m 2)) OR to_int (msg_at m 3));
          phys_addr1 = to_u16 (push_bit 8 (to_int (msg_at m 5)) OR to_int (msg_at m 6));
          phys_addr2 = to_u16 (push_bit 8 (to_int (msg_at m 7)) OR to_int (msg_at m 8));
          hec_set_state = msg_at m 9;
          phys_addr3 = (if cm_len m \<ge> 12 then
                          to_u16 (push_bit 8 (to_int (msg_at m 10)) OR to_int (msg_at m 11))
                        else CEC_PHYS_ADDR_INVALID);
          phys_addr4 = (if cm_len m \<ge> 14 then
                          to_u16 (push_bit 8 (to_int (msg_at m 12)) OR to_int (msg_at m 13))
                        else CEC_PHYS_ADDR_INVALID);
          phys_addr5 = (if cm_len m \<ge> 16 then
                          to_u16 (push_bit 8 (to_int (msg_at m 14)) OR to_int (msg_at m 15))
                        else CEC_PHYS_ADDR_INVALID)
      in (phys_addr, phys_addr1, phys_addr2, hec_set_state, phys_addr3, phys_addr4, phys_addr5))"

definition cec_msg_cdc_hec_set_state_adjacent :: "cec_msg \<Rightarrow> u16 \<Rightarrow> u8
    \<Rightarrow> cec_msg" where
  [cec_msgs]: "cec_msg_cdc_hec_set_state_adjacent m phys_addr1 hec_set_state =
     (let m = m\<lparr>cm_len := 8\<rparr>;
          m = msg_put m 0 (to_u8 (to_int (msg_at m 0) OR 0xf));
          m = msg_put m 1 CEC_MSG_CDC_MESSAGE;
          m = msg_put m 4 CEC_MSG_CDC_HEC_SET_STATE_ADJACENT;
          m = msg_put m 5 (to_u8 (drop_bit 8 (to_int phys_addr1)));
          m = msg_put m 6 (to_u8 (to_int phys_addr1 AND 0xff));
          m = msg_put m 7 hec_set_state
      in m)"

definition cec_ops_cdc_hec_set_state_adjacent :: "cec_msg \<Rightarrow> u16 \<times> u16 \<times>
    u8" where
  [cec_ops]: "cec_ops_cdc_hec_set_state_adjacent m =
     (to_u16 (push_bit 8 (to_int (msg_at m 2)) OR to_int (msg_at m 3)),
      to_u16 (push_bit 8 (to_int (msg_at m 5)) OR to_int (msg_at m 6)),
      msg_at m 7)"

definition cec_msg_cdc_hec_request_deactivation :: "cec_msg \<Rightarrow> u16 \<Rightarrow> u16
    \<Rightarrow> u16 \<Rightarrow> cec_msg" where
  [cec_msgs]: "cec_msg_cdc_hec_request_deactivation m phys_addr1 phys_addr2 phys_addr3 =
     (let m = m\<lparr>cm_len := 11\<rparr>;
          m = msg_put m 0 (to_u8 (to_int (msg_at m 0) OR 0xf));
          m = msg_put m 1 CEC_MSG_CDC_MESSAGE;
          m = msg_put m 4 CEC_MSG_CDC_HEC_REQUEST_DEACTIVATION;
          m = msg_put m 5 (to_u8 (drop_bit 8 (to_int phys_addr1)));
          m = msg_put m 6 (to_u8 (to_int phys_addr1 AND 0xff));
          m = msg_put m 7 (to_u8 (drop_bit 8 (to_int phys_addr2)));
          m = msg_put m 8 (to_u8 (to_int phys_addr2 AND 0xff));
          m = msg_put m 9 (to_u8 (drop_bit 8 (to_int phys_addr3)));
          m = msg_put m 10 (to_u8 (to_int phys_addr3 AND 0xff))
      in m)"

definition cec_ops_cdc_hec_request_deactivation :: "cec_msg \<Rightarrow> u16 \<times> u16
    \<times> u16 \<times> u16" where
  [cec_ops]: "cec_ops_cdc_hec_request_deactivation m =
     (to_u16 (push_bit 8 (to_int (msg_at m 2)) OR to_int (msg_at m 3)),
      to_u16 (push_bit 8 (to_int (msg_at m 5)) OR to_int (msg_at m 6)),
      to_u16 (push_bit 8 (to_int (msg_at m 7)) OR to_int (msg_at m 8)),
      to_u16 (push_bit 8 (to_int (msg_at m 9)) OR to_int (msg_at m 10)))"

definition cec_msg_cdc_hec_notify_alive :: "cec_msg \<Rightarrow> cec_msg" where
  [cec_msgs]: "cec_msg_cdc_hec_notify_alive m =
     (let m = m\<lparr>cm_len := 5\<rparr>;
          m = msg_put m 0 (to_u8 (to_int (msg_at m 0) OR 0xf));
          m = msg_put m 1 CEC_MSG_CDC_MESSAGE;
          m = msg_put m 4 CEC_MSG_CDC_HEC_NOTIFY_ALIVE
      in m)"

definition cec_ops_cdc_hec_notify_alive :: "cec_msg \<Rightarrow> u16" where
  [cec_ops]: "cec_ops_cdc_hec_notify_alive m =
     to_u16 (push_bit 8 (to_int (msg_at m 2)) OR to_int (msg_at m 3))"

definition cec_msg_cdc_hec_discover :: "cec_msg \<Rightarrow> cec_msg" where
  [cec_msgs]: "cec_msg_cdc_hec_discover m =
     (let m = m\<lparr>cm_len := 5\<rparr>;
          m = msg_put m 0 (to_u8 (to_int (msg_at m 0) OR 0xf));
          m = msg_put m 1 CEC_MSG_CDC_MESSAGE;
          m = msg_put m 4 CEC_MSG_CDC_HEC_DISCOVER
      in m)"

definition cec_ops_cdc_hec_discover :: "cec_msg \<Rightarrow> u16" where
  [cec_ops]: "cec_ops_cdc_hec_discover m =
     to_u16 (push_bit 8 (to_int (msg_at m 2)) OR to_int (msg_at m 3))"

definition cec_msg_cdc_hpd_set_state :: "cec_msg \<Rightarrow> u8 \<Rightarrow> u8 \<Rightarrow>
    cec_msg" where
  [cec_msgs]: "cec_msg_cdc_hpd_set_state m input_port hpd_state =
     (let m = m\<lparr>cm_len := 6\<rparr>;
          m = msg_put m 0 (to_u8 (to_int (msg_at m 0) OR 0xf));
          m = msg_put m 1 CEC_MSG_CDC_MESSAGE;
          m = msg_put m 4 CEC_MSG_CDC_HPD_SET_STATE;
          m = msg_put m 5 (to_u8 (push_bit 4 (to_int input_port) OR to_int hpd_state))
      in m)"

definition cec_ops_cdc_hpd_set_state :: "cec_msg \<Rightarrow> u16 \<times> u8 \<times> u8" where
  [cec_ops]: "cec_ops_cdc_hpd_set_state m =
     (to_u16 (push_bit 8 (to_int (msg_at m 2)) OR to_int (msg_at m 3)),
      to_u8 (drop_bit 4 (to_int (msg_at m 5))),
      to_u8 (to_int (msg_at m 5) AND 0xf))"

definition cec_msg_cdc_hpd_report_state :: "cec_msg \<Rightarrow> u8 \<Rightarrow> u8
    \<Rightarrow> cec_msg" where
  [cec_msgs]: "cec_msg_cdc_hpd_report_state m hpd_state hpd_error =
     (let m = m\<lparr>cm_len := 6\<rparr>;
          m = msg_put m 0 (to_u8 (to_int (msg_at m 0) OR 0xf));
          m = msg_put m 1 CEC_MSG_CDC_MESSAGE;
          m = msg_put m 4 CEC_MSG_CDC_HPD_REPORT_STATE;
          m = msg_put m 5 (to_u8 (push_bit 4 (to_int hpd_state) OR to_int hpd_error))
      in m)"

definition cec_ops_cdc_hpd_report_state :: "cec_msg \<Rightarrow> u16 \<times> u8 \<times> u8"
    where
  [cec_ops]: "cec_ops_cdc_hpd_report_state m =
     (to_u16 (push_bit 8 (to_int (msg_at m 2)) OR to_int (msg_at m 3)),
      to_u8 (drop_bit 4 (to_int (msg_at m 5))),
      to_u8 (to_int (msg_at m 5) AND 0xf))"

subsection \<open>Specification\<close>

text \<open>The optional addresses of a state request form a prefix: an absent one ends the list.\<close>

definition hec_set_state_ok :: "u16 \<times> u16 \<times> u8 \<times> u16 \<times> u16 \<times> u16 \<Rightarrow> bool" where
  "hec_set_state_ok = (\<lambda>(phys_addr1, phys_addr2, hec_set_state, phys_addr3, phys_addr4, phys_addr5).
     (phys_addr3 = CEC_PHYS_ADDR_INVALID \<longrightarrow> phys_addr4 = CEC_PHYS_ADDR_INVALID) \<and>
     (phys_addr4 = CEC_PHYS_ADDR_INVALID \<longrightarrow> phys_addr5 = CEC_PHYS_ADDR_INVALID))"

subsection \<open>What is encoded is what is decoded\<close>

interpretation cdc_hec_inquire_state: cec_codec
    "\<lambda>(phys_addr1, phys_addr2) m. cec_msg_cdc_hec_inquire_state m phys_addr1 phys_addr2"
    CEC_MSG_CDC_MESSAGE "\<lambda>_. True"
    "\<lambda>m. snd (cec_ops_cdc_hec_inquire_state m)" "\<lambda>a. a"
  by unfold_locales (auto simp: cec_msgs cec_ops cec_frame_simps)

interpretation cdc_hec_set_state_adjacent: cec_codec
    "\<lambda>(phys_addr1, hec_set_state) m.
       cec_msg_cdc_hec_set_state_adjacent m phys_addr1 hec_set_state"
    CEC_MSG_CDC_MESSAGE "\<lambda>_. True"
    "\<lambda>m. snd (cec_ops_cdc_hec_set_state_adjacent m)" "\<lambda>a. a"
  by unfold_locales (auto simp: cec_msgs cec_ops cec_frame_simps)

interpretation cdc_hec_request_deactivation: cec_codec
    "\<lambda>(phys_addr1, phys_addr2, phys_addr3) m.
       cec_msg_cdc_hec_request_deactivation m phys_addr1 phys_addr2 phys_addr3"
    CEC_MSG_CDC_MESSAGE "\<lambda>_. True"
    "\<lambda>m. snd (cec_ops_cdc_hec_request_deactivation m)" "\<lambda>a. a"
  by unfold_locales (auto simp: cec_msgs cec_ops cec_frame_simps)

interpretation cdc_hpd_set_state: cec_codec
    "\<lambda>(input_port, hpd_state) m. cec_msg_cdc_hpd_set_state m input_port hpd_state"
    CEC_MSG_CDC_MESSAGE "\<lambda>(input_port, hpd_state). input_port < 16 \<and> hpd_state < 16"
    "\<lambda>m. snd (cec_ops_cdc_hpd_set_state m)" "\<lambda>a. a"
  by unfold_locales (auto simp: cec_msgs cec_ops cec_frame_simps)

interpretation cdc_hpd_report_state: cec_codec
    "\<lambda>(hpd_state, hpd_error) m. cec_msg_cdc_hpd_report_state m hpd_state hpd_error"
    CEC_MSG_CDC_MESSAGE "\<lambda>(hpd_state, hpd_error). hpd_state < 16 \<and> hpd_error < 16"
    "\<lambda>m. snd (cec_ops_cdc_hpd_report_state m)" "\<lambda>a. a"
  by unfold_locales (auto simp: cec_msgs cec_ops cec_frame_simps)

subsection \<open>State requests\<close>

lemmas hec_simps = cec_msgs cec_ops cec_frame_simps msg_push_def

lemma hec_set_state_cases:
  assumes "hec_set_state_ok (p1, p2, s, p3, p4, p5)"
  obtains (none) "p3 = CEC_PHYS_ADDR_INVALID" "p4 = CEC_PHYS_ADDR_INVALID" "p5 = CEC_PHYS_ADDR_INVALID"
    | (one) "p3 \<noteq> CEC_PHYS_ADDR_INVALID" "p4 = CEC_PHYS_ADDR_INVALID" "p5 = CEC_PHYS_ADDR_INVALID"
    | (two) "p3 \<noteq> CEC_PHYS_ADDR_INVALID" "p4 \<noteq> CEC_PHYS_ADDR_INVALID" "p5 = CEC_PHYS_ADDR_INVALID"
    | (three) "p3 \<noteq> CEC_PHYS_ADDR_INVALID" "p4 \<noteq> CEC_PHYS_ADDR_INVALID" "p5 \<noteq> CEC_PHYS_ADDR_INVALID"
  using assms by (auto simp: hec_set_state_ok_def)

lemma hec_set_state_frame:
  assumes "cec_wf m"
  shows "cec_wf (cec_msg_cdc_hec_set_state m p1 p2 s p3 p4 p5)"
    and "msg_at (cec_msg_cdc_hec_set_state m p1 p2 s p3 p4 p5) (Suc 0) = CEC_MSG_CDC_MESSAGE"
    and "unat (cm_len (cec_msg_cdc_hec_set_state m p1 p2 s p3 p4 p5)) \<in> {10, 12, 14, 16}"
    and "cec_msg_initiator (cec_msg_cdc_hec_set_state m p1 p2 s p3 p4 p5) = cec_msg_initiator m"
  using assms by (simp_all add: cec_msgs Let_def msg_push_def cec_msg_initiator_def)

lemma hec_set_state_decoded:
  assumes "cec_wf m" "hec_set_state_ok (p1, p2, s, p3, p4, p5)"
  shows "snd (cec_ops_cdc_hec_set_state (cec_msg_cdc_hec_set_state m p1 p2 s p3 p4 p5)) = (p1, p2, s, p3, p4, p5)"
  using assms(2) by (cases rule: hec_set_state_cases) (simp_all add: assms(1) cec_msgs cec_ops Let_def msg_push_def)

lemma hec_set_state_delivered:
  assumes "cec_wf m" "hec_set_state_ok (p1, p2, s, p3, p4, p5)"
    and "cec_delivered (cec_msg_cdc_hec_set_state m p1 p2 s p3 p4 p5) m'"
  shows "snd (cec_ops_cdc_hec_set_state m') =
    snd (cec_ops_cdc_hec_set_state (cec_msg_cdc_hec_set_state m p1 p2 s p3 p4 p5))"
  using assms(2,3) by (cases rule: hec_set_state_cases) (simp_all add: assms(1) hec_simps)

interpretation cdc_hec_set_state: cec_codec
    "\<lambda>(phys_addr1, phys_addr2, hec_set_state, phys_addr3, phys_addr4, phys_addr5) m.
       cec_msg_cdc_hec_set_state m phys_addr1 phys_addr2 hec_set_state phys_addr3 phys_addr4 phys_addr5"
    CEC_MSG_CDC_MESSAGE hec_set_state_ok
    "\<lambda>m. snd (cec_ops_cdc_hec_set_state m)" "\<lambda>a. a"
proof (unfold_locales, goal_cases)
  case (1 m a)
  then show ?case by (cases a) (simp add: hec_set_state_frame(1))
next
  case (2 m a)
  then show ?case by (cases a) (simp add: hec_set_state_frame(2))
next
  case (3 m a)
  obtain p1 p2 s p3 p4 p5 where a: "a = (p1, p2, s, p3, p4, p5)" by (cases a)
  show ?case using hec_set_state_frame(3) [OF 3(1), of p1 p2 s p3 p4 p5] by (auto simp: a)
next
  case (4 m a)
  then show ?case by (cases a) (simp add: hec_set_state_frame(4))
next
  case (5 m a)
  then show ?case by (cases a) (simp add: hec_set_state_decoded)
next
  case (6 m a m')
  then show ?case by (cases a) (simp add: hec_set_state_delivered)
qed

text \<open>The request carries the opcode of the inquiry, so its frame is not told from one.\<close>

lemma hec_set_state_opcode:
  assumes "cec_wf m"
  shows "msg_at (cec_msg_cdc_hec_set_state m p1 p2 s p3 p4 p5) 4 =
    msg_at (cec_msg_cdc_hec_inquire_state m q1 q2) 4 \<and>
    msg_at (cec_msg_cdc_hec_set_state m p1 p2 s p3 p4 p5) 4 \<noteq> CEC_MSG_CDC_HEC_SET_STATE"
  using assms by (simp add: cec_msgs Let_def msg_push_def cec_const)

subsection \<open>State reports\<close>

lemma hec_state_byte:
  fixes a b c d :: u8
  assumes "a < 4" "b < 4" "c < 4" "d < 4"
  defines "x \<equiv> to_u8 (push_bit 6 (to_int a) OR push_bit 4 (to_int b) OR push_bit 2 (to_int c) OR to_int d)"
  shows "to_u8 (drop_bit 6 (to_int x)) = a" "to_u8 (drop_bit 4 (to_int x) AND 3) = b"
    "to_u8 (to_int x AND 3) = d"
proof -
  have "take_bit 2 a = a" "take_bit 2 b = b" "take_bit 2 c = c" "take_bit 2 d = d"
    using assms(1-4) by (intro take_bit_small; simp add: word_less_nat_alt)+
  then obtain a' b' c' d' where t: "a = take_bit 2 a'" "b = take_bit 2 b'" "c = take_bit 2 c'" "d = take_bit 2 d'"
    by metis
  show "to_u8 (drop_bit 6 (to_int x)) = a" "to_u8 (drop_bit 4 (to_int x) AND 3) = b" "to_u8 (to_int x AND 3) = d"
    unfolding x_def t to_u8_def to_int_def mask_lits
    by (rule bit_word_eqI, auto simp: bit_simps dest: bit_imp_le_length)+
qed

text \<open>
  Every field of a report comes back except \<open>enc_func_state\<close>: the decoder shifts by four where the
  encoder shifted by two, and returns \<open>host_func_state\<close> in its place.
\<close>

lemma hec_report_state_decoded:
  assumes "cec_wf m" "hec < 4" "host < 4" "encf < 4" "err < 4"
  shows "snd (cec_ops_cdc_hec_report_state
      (cec_msg_cdc_hec_report_state m target hec host encf err has_field field)) =
    (target, hec, host, host, err, if has_field \<noteq> 0 then 1 else 0, if has_field \<noteq> 0 then field else 0)"
  using assms(1) hec_state_byte [OF assms(2-5)]
  by (cases "has_field = 0") (simp_all add: cec_msgs cec_ops Let_def)

end
