(* ===== verification/Cec_Codec.thy ===== *)
theory Cec_Codec
  imports Cec_Timer Cec_Device Cec_Vendor Cec_Control Cec_Audio Cec_Cdc
begin

section \<open>CEC codec: properties of the whole\<close>

text \<open>
  The codec of \<open>linux/cec-funcs.h\<close> seen by two devices: what one encodes, the other decodes from
  the frame. The properties rest on the interpretations of \<open>cec_codec\<close> and on the lemmas for the
  formats that have no fixed layout. Where a decoder does not invert its encoder the property says
  exactly when.
\<close>

unbundle bit_operations_syntax

subsection \<open>Messages without operands\<close>

text \<open>
  The encoders that take no operand, with their opcode and the opcode of the reply they wait for
  when \<open>reply\<close> is set (0 for those that never wait). The broadcast request for the active source
  is kept apart.
\<close>

definition cec_requests :: "s32 \<Rightarrow> (u8 \<times> u8 \<times> (cec_msg \<Rightarrow> cec_msg)) list" where
  "cec_requests reply =
     [(CEC_MSG_IMAGE_VIEW_ON, 0, cec_msg_image_view_on),
      (CEC_MSG_TEXT_VIEW_ON, 0, cec_msg_text_view_on),
      (CEC_MSG_STANDBY, 0, cec_msg_standby),
      (CEC_MSG_TUNER_STEP_DECREMENT, 0, cec_msg_tuner_step_decrement),
      (CEC_MSG_TUNER_STEP_INCREMENT, 0, cec_msg_tuner_step_increment),
      (CEC_MSG_VENDOR_REMOTE_BUTTON_UP, 0, cec_msg_vendor_remote_button_up),
      (CEC_MSG_USER_CONTROL_RELEASED, 0, cec_msg_user_control_released),
      (CEC_MSG_ABORT, 0, cec_msg_abort),
      (CEC_MSG_REPORT_ARC_INITIATED, 0, cec_msg_report_arc_initiated),
      (CEC_MSG_REPORT_ARC_TERMINATED, 0, cec_msg_report_arc_terminated),
      (CEC_MSG_RECORD_OFF, CEC_MSG_RECORD_STATUS, \<lambda>m. cec_msg_record_off m reply),
      (CEC_MSG_RECORD_TV_SCREEN, CEC_MSG_RECORD_ON, \<lambda>m. cec_msg_record_tv_screen m reply),
      (CEC_MSG_GET_CEC_VERSION, CEC_MSG_CEC_VERSION, \<lambda>m. cec_msg_get_cec_version m reply),
      (CEC_MSG_GIVE_PHYSICAL_ADDR, CEC_MSG_REPORT_PHYSICAL_ADDR, \<lambda>m. cec_msg_give_physical_addr m reply),
      (CEC_MSG_GET_MENU_LANGUAGE, CEC_MSG_SET_MENU_LANGUAGE, \<lambda>m. cec_msg_get_menu_language m reply),
      (CEC_MSG_GIVE_FEATURES, CEC_MSG_REPORT_FEATURES, \<lambda>m. cec_msg_give_features m reply),
      (CEC_MSG_GIVE_DEVICE_VENDOR_ID, CEC_MSG_DEVICE_VENDOR_ID, \<lambda>m. cec_msg_give_device_vendor_id m reply),
      (CEC_MSG_GIVE_OSD_NAME, CEC_MSG_SET_OSD_NAME, \<lambda>m. cec_msg_give_osd_name m reply),
      (CEC_MSG_GIVE_DEVICE_POWER_STATUS, CEC_MSG_REPORT_POWER_STATUS,
         \<lambda>m. cec_msg_give_device_power_status m reply),
      (CEC_MSG_GIVE_AUDIO_STATUS, CEC_MSG_REPORT_AUDIO_STATUS, \<lambda>m. cec_msg_give_audio_status m reply),
      (CEC_MSG_GIVE_SYSTEM_AUDIO_MODE_STATUS, CEC_MSG_SYSTEM_AUDIO_MODE_STATUS,
         \<lambda>m. cec_msg_give_system_audio_mode_status m reply),
      (CEC_MSG_INITIATE_ARC, CEC_MSG_REPORT_ARC_INITIATED, \<lambda>m. cec_msg_initiate_arc m reply),
      (CEC_MSG_REQUEST_ARC_INITIATION, CEC_MSG_INITIATE_ARC, \<lambda>m. cec_msg_request_arc_initiation m reply),
      (CEC_MSG_TERMINATE_ARC, CEC_MSG_REPORT_ARC_TERMINATED, \<lambda>m. cec_msg_terminate_arc m reply),
      (CEC_MSG_REQUEST_ARC_TERMINATION, CEC_MSG_TERMINATE_ARC, \<lambda>m. cec_msg_request_arc_termination m reply)]"

subsection \<open>Messages a program can build\<close>

text \<open>
  A message is built from an initialised structure by any sequence of calls of the encoders, with
  any arguments; a call that copies from its caller's arrays counts when it does not fault.
\<close>

inductive cec_built :: "cec_msg \<Rightarrow> bool" where
    init: "cec_built (cec_msg_init m initiator destination)"
  | set_reply_to: "cec_built m \<Longrightarrow> cec_built (cec_msg_set_reply_to m orig)"
  | active_source: "cec_built m \<Longrightarrow> cec_built (cec_msg_active_source m phys_addr)"
  | image_view_on: "cec_built m \<Longrightarrow> cec_built (cec_msg_image_view_on m)"
  | text_view_on: "cec_built m \<Longrightarrow> cec_built (cec_msg_text_view_on m)"
  | inactive_source:
      "cec_built m \<Longrightarrow> cec_built (cec_msg_inactive_source m phys_addr)"
  | request_active_source:
      "cec_built m \<Longrightarrow> cec_built (cec_msg_request_active_source m reply)"
  | routing_information:
      "cec_built m \<Longrightarrow> cec_built (cec_msg_routing_information m phys_addr)"
  | routing_change:
      "cec_built m \<Longrightarrow> cec_built (cec_msg_routing_change m reply orig_phys_addr
         new_phys_addr)"
  | set_stream_path:
      "cec_built m \<Longrightarrow> cec_built (cec_msg_set_stream_path m phys_addr)"
  | standby: "cec_built m \<Longrightarrow> cec_built (cec_msg_standby m)"
  | record_off: "cec_built m \<Longrightarrow> cec_built (cec_msg_record_off m reply)"
  | record_on_own: "cec_built m \<Longrightarrow> cec_built (cec_msg_record_on_own m)"
  | record_on_digital:
      "cec_built m \<Longrightarrow> cec_built (cec_msg_record_on_digital m digital)"
  | record_on_analog:
      "cec_built m \<Longrightarrow> cec_built (cec_msg_record_on_analog m ana_bcast_type ana_freq
         bcast_system)"
  | record_on_plug: "cec_built m \<Longrightarrow> cec_built (cec_msg_record_on_plug m plug)"
  | record_on_phys_addr:
      "cec_built m \<Longrightarrow> cec_built (cec_msg_record_on_phys_addr m phys_addr)"
  | record_on: "cec_built m \<Longrightarrow> cec_built (cec_msg_record_on m reply rec_src)"
  | record_status: "cec_built m \<Longrightarrow> cec_built (cec_msg_record_status m rec_status)"
  | record_tv_screen: "cec_built m \<Longrightarrow> cec_built (cec_msg_record_tv_screen m reply)"
  | timer_status:
      "cec_built m \<Longrightarrow> cec_built (cec_msg_timer_status m timer_overlap_warning media_info
         prog_info prog_error duration_hr duration_min)"
  | timer_cleared_status:
      "cec_built m \<Longrightarrow> cec_built (cec_msg_timer_cleared_status m timer_cleared_status)"
  | clear_analogue_timer:
      "cec_built m \<Longrightarrow> cec_built (cec_msg_clear_analogue_timer m reply day month start_hr
         start_min duration_hr duration_min recording_seq ana_bcast_type ana_freq bcast_system)"
  | clear_digital_timer:
      "cec_built m \<Longrightarrow> cec_built (cec_msg_clear_digital_timer m reply day month start_hr
         start_min duration_hr duration_min recording_seq digital)"
  | clear_ext_timer:
      "cec_built m \<Longrightarrow> cec_built (cec_msg_clear_ext_timer m reply day month start_hr
         start_min duration_hr duration_min recording_seq ext_src_spec plug phys_addr)"
  | set_analogue_timer:
      "cec_built m \<Longrightarrow> cec_built (cec_msg_set_analogue_timer m reply day month start_hr
         start_min duration_hr duration_min recording_seq ana_bcast_type ana_freq bcast_system)"
  | set_digital_timer:
      "cec_built m \<Longrightarrow> cec_built (cec_msg_set_digital_timer m reply day month start_hr
         start_min duration_hr duration_min recording_seq digital)"
  | set_ext_timer:
      "cec_built m \<Longrightarrow> cec_built (cec_msg_set_ext_timer m reply day month start_hr
         start_min duration_hr duration_min recording_seq ext_src_spec plug phys_addr)"
  | set_timer_program_title:
      "cec_built m \<Longrightarrow> cec_msg_set_timer_program_title m prog_title = Inr m' \<Longrightarrow> cec_built m'"
  | cec_version: "cec_built m \<Longrightarrow> cec_built (cec_msg_cec_version m cec_version)"
  | get_cec_version: "cec_built m \<Longrightarrow> cec_built (cec_msg_get_cec_version m reply)"
  | report_physical_addr:
      "cec_built m \<Longrightarrow> cec_built (cec_msg_report_physical_addr m phys_addr prim_devtype)"
  | give_physical_addr:
      "cec_built m \<Longrightarrow> cec_built (cec_msg_give_physical_addr m reply)"
  | set_menu_language:
      "cec_built m \<Longrightarrow> cec_msg_set_menu_language m language = Inr m' \<Longrightarrow> cec_built m'"
  | get_menu_language:
      "cec_built m \<Longrightarrow> cec_built (cec_msg_get_menu_language m reply)"
  | report_features:
      "cec_built m \<Longrightarrow> cec_built (cec_msg_report_features m cec_version all_device_types
         rc_profile dev_features)"
  | give_features: "cec_built m \<Longrightarrow> cec_built (cec_msg_give_features m reply)"
  | deck_control:
      "cec_built m \<Longrightarrow> cec_built (cec_msg_deck_control m deck_control_mode)"
  | deck_status: "cec_built m \<Longrightarrow> cec_built (cec_msg_deck_status m deck_info)"
  | give_deck_status:
      "cec_built m \<Longrightarrow> cec_built (cec_msg_give_deck_status m reply status_req)"
  | play: "cec_built m \<Longrightarrow> cec_built (cec_msg_play m play_mode)"
  | tuner_device_status_analog:
      "cec_built m \<Longrightarrow> cec_built (cec_msg_tuner_device_status_analog m rec_flag
         tuner_display_info ana_bcast_type ana_freq bcast_system)"
  | tuner_device_status_digital:
      "cec_built m \<Longrightarrow> cec_built (cec_msg_tuner_device_status_digital m rec_flag
         tuner_display_info digital)"
  | tuner_device_status:
      "cec_built m \<Longrightarrow> cec_built (cec_msg_tuner_device_status m tuner_dev_info)"
  | give_tuner_device_status:
      "cec_built m \<Longrightarrow> cec_built (cec_msg_give_tuner_device_status m reply status_req)"
  | select_analogue_service:
      "cec_built m \<Longrightarrow> cec_built (cec_msg_select_analogue_service m ana_bcast_type
         ana_freq bcast_system)"
  | select_digital_service:
      "cec_built m \<Longrightarrow> cec_built (cec_msg_select_digital_service m digital)"
  | tuner_step_decrement:
      "cec_built m \<Longrightarrow> cec_built (cec_msg_tuner_step_decrement m)"
  | tuner_step_increment:
      "cec_built m \<Longrightarrow> cec_built (cec_msg_tuner_step_increment m)"
  | device_vendor_id:
      "cec_built m \<Longrightarrow> cec_built (cec_msg_device_vendor_id m vendor_id)"
  | give_device_vendor_id:
      "cec_built m \<Longrightarrow> cec_built (cec_msg_give_device_vendor_id m reply)"
  | vendor_command:
      "cec_built m \<Longrightarrow> cec_msg_vendor_command m sz vendor_cmd = Inr m' \<Longrightarrow> cec_built m'"
  | vendor_command_with_id:
      "cec_built m \<Longrightarrow> cec_msg_vendor_command_with_id m vendor_id sz vendor_cmd = Inr m' \<Longrightarrow> cec_built m'"
  | vendor_remote_button_down:
      "cec_built m \<Longrightarrow> cec_msg_vendor_remote_button_down m sz rc_code = Inr m' \<Longrightarrow> cec_built m'"
  | vendor_remote_button_up:
      "cec_built m \<Longrightarrow> cec_built (cec_msg_vendor_remote_button_up m)"
  | set_osd_string:
      "cec_built m \<Longrightarrow> cec_msg_set_osd_string m disp_ctl osd = Inr m' \<Longrightarrow> cec_built m'"
  | set_osd_name:
      "cec_built m \<Longrightarrow> cec_msg_set_osd_name m name = Inr m' \<Longrightarrow> cec_built m'"
  | give_osd_name: "cec_built m \<Longrightarrow> cec_built (cec_msg_give_osd_name m reply)"
  | menu_status: "cec_built m \<Longrightarrow> cec_built (cec_msg_menu_status m menu_state)"
  | menu_request:
      "cec_built m \<Longrightarrow> cec_built (cec_msg_menu_request m reply menu_req)"
  | user_control_pressed:
      "cec_built m \<Longrightarrow> cec_built (cec_msg_user_control_pressed m ui_cmd)"
  | user_control_released:
      "cec_built m \<Longrightarrow> cec_built (cec_msg_user_control_released m)"
  | report_power_status:
      "cec_built m \<Longrightarrow> cec_built (cec_msg_report_power_status m pwr_state)"
  | give_device_power_status:
      "cec_built m \<Longrightarrow> cec_built (cec_msg_give_device_power_status m reply)"
  | feature_abort:
      "cec_built m \<Longrightarrow> cec_built (cec_msg_feature_abort m abort_msg reason)"
  | reply_feature_abort:
      "cec_built m \<Longrightarrow> cec_built (cec_msg_reply_feature_abort m reason)"
  | abort: "cec_built m \<Longrightarrow> cec_built (cec_msg_abort m)"
  | report_audio_status:
      "cec_built m \<Longrightarrow> cec_built (cec_msg_report_audio_status m aud_mute_status
         aud_vol_status)"
  | give_audio_status:
      "cec_built m \<Longrightarrow> cec_built (cec_msg_give_audio_status m reply)"
  | set_system_audio_mode:
      "cec_built m \<Longrightarrow> cec_built (cec_msg_set_system_audio_mode m sys_aud_status)"
  | system_audio_mode_request:
      "cec_built m \<Longrightarrow> cec_built (cec_msg_system_audio_mode_request m reply phys_addr)"
  | system_audio_mode_status:
      "cec_built m \<Longrightarrow> cec_built (cec_msg_system_audio_mode_status m sys_aud_status)"
  | give_system_audio_mode_status:
      "cec_built m \<Longrightarrow> cec_built (cec_msg_give_system_audio_mode_status m reply)"
  | report_short_audio_descriptor:
      "cec_built m \<Longrightarrow> cec_msg_report_short_audio_descriptor m num_descriptors descriptors = Inr m' \<Longrightarrow> cec_built m'"
  | request_short_audio_descriptor:
      "cec_built m \<Longrightarrow> cec_msg_request_short_audio_descriptor m reply num_descriptors audio_format_id audio_format_code = Inr m' \<Longrightarrow> cec_built m'"
  | set_audio_rate:
      "cec_built m \<Longrightarrow> cec_built (cec_msg_set_audio_rate m audio_rate)"
  | report_arc_initiated:
      "cec_built m \<Longrightarrow> cec_built (cec_msg_report_arc_initiated m)"
  | initiate_arc: "cec_built m \<Longrightarrow> cec_built (cec_msg_initiate_arc m reply)"
  | request_arc_initiation:
      "cec_built m \<Longrightarrow> cec_built (cec_msg_request_arc_initiation m reply)"
  | report_arc_terminated:
      "cec_built m \<Longrightarrow> cec_built (cec_msg_report_arc_terminated m)"
  | terminate_arc: "cec_built m \<Longrightarrow> cec_built (cec_msg_terminate_arc m reply)"
  | request_arc_termination:
      "cec_built m \<Longrightarrow> cec_built (cec_msg_request_arc_termination m reply)"
  | report_current_latency:
      "cec_built m \<Longrightarrow> cec_built (cec_msg_report_current_latency m phys_addr video_latency
         low_latency_mode audio_out_compensated audio_out_delay)"
  | request_current_latency:
      "cec_built m \<Longrightarrow> cec_built (cec_msg_request_current_latency m reply phys_addr)"
  | cdc_hec_inquire_state:
      "cec_built m \<Longrightarrow> cec_built (cec_msg_cdc_hec_inquire_state m phys_addr1 phys_addr2)"
  | cdc_hec_report_state:
      "cec_built m \<Longrightarrow> cec_built (cec_msg_cdc_hec_report_state m target_phys_addr
         hec_func_state host_func_state enc_func_state cdc_errcode has_field hec_field)"
  | cdc_hec_set_state:
      "cec_built m \<Longrightarrow> cec_built (cec_msg_cdc_hec_set_state m phys_addr1 phys_addr2
         hec_set_state phys_addr3 phys_addr4 phys_addr5)"
  | cdc_hec_set_state_adjacent:
      "cec_built m \<Longrightarrow> cec_built (cec_msg_cdc_hec_set_state_adjacent m phys_addr1
         hec_set_state)"
  | cdc_hec_request_deactivation:
      "cec_built m \<Longrightarrow> cec_built (cec_msg_cdc_hec_request_deactivation m phys_addr1
         phys_addr2 phys_addr3)"
  | cdc_hec_notify_alive:
      "cec_built m \<Longrightarrow> cec_built (cec_msg_cdc_hec_notify_alive m)"
  | cdc_hec_discover: "cec_built m \<Longrightarrow> cec_built (cec_msg_cdc_hec_discover m)"
  | cdc_hpd_set_state:
      "cec_built m \<Longrightarrow> cec_built (cec_msg_cdc_hpd_set_state m input_port hpd_state)"
  | cdc_hpd_report_state:
      "cec_built m \<Longrightarrow> cec_built (cec_msg_cdc_hpd_report_state m hpd_state hpd_error)"

definition cec_typed :: "cec_msg \<Rightarrow> bool" where
  "cec_typed m = (cec_wf m \<and> \<not> cm_overrun m \<and> 1 \<le> unat (cm_len m) \<and> unat (cm_len m) \<le> 16)"

text \<open>
  The encoders that copy from an array of the caller return normally whenever that array has the
  bytes they are told of: a string its terminating null byte, a block the size passed with it, a
  language its three letters.
\<close>

definition copies_return :: "cec_msg \<Rightarrow> bool" where
  "copies_return m \<longleftrightarrow>
     (\<forall>s c. 0 \<in> set s \<longrightarrow> is_ok (cec_msg_set_timer_program_title m s) \<and> is_ok (cec_msg_set_osd_name m s) \<and>
        is_ok (cec_msg_set_osd_string m c s)) \<and>
     (\<forall>s. 3 \<le> length s \<longrightarrow> is_ok (cec_msg_set_menu_language m s)) \<and>
     (\<forall>sz s vid. unat sz \<le> length s \<longrightarrow> is_ok (cec_msg_vendor_command m sz s) \<and>
        is_ok (cec_msg_vendor_command_with_id m vid sz s) \<and> is_ok (cec_msg_vendor_remote_button_down m sz s)) \<and>
     (\<forall>num ds. unat num \<le> length ds \<longrightarrow> is_ok (cec_msg_report_short_audio_descriptor m num ds)) \<and>
     (\<forall>num reply fid code. unat num \<le> length fid \<and> unat num \<le> length code \<longrightarrow>
        is_ok (cec_msg_request_short_audio_descriptor m reply num fid code))"

subsection \<open>Specification of the feature scan\<close>

text \<open>
  The operands of a feature report lie from byte 4 on: the first one without the extension bit,
  looked for up to byte 14, ends the remote control profile, and the device features follow it.
\<close>

definition features_spec :: "cec_msg \<Rightarrow> u8 \<times> u8 \<times> nat option \<times> nat option" where
  "features_spec m =
     (case find (\<lambda>p. \<not> feat_ext m p) [4..<15] of
        None \<Rightarrow> (msg_at m 2, msg_at m 3, None, None)
      | Some p \<Rightarrow> (msg_at m 2, msg_at m 3, Some 4, Some (p + 1)))"

text \<open>Services identified by a channel and by a DVB triplet, on which the properties are evaluated.\<close>

definition channel_300 :: cec_op_digital_service_id where
  "channel_300 = \<lparr>ds_service_id_method = 1, ds_dig_bcast_system = 2, ds_h0 = 1, ds_h1 = 300, ds_h2 = 7\<rparr>"

definition dvb_service :: cec_op_digital_service_id where
  "dvb_service = \<lparr>ds_service_id_method = 0, ds_dig_bcast_system = 0x1b, ds_h0 = 5, ds_h1 = 300, ds_h2 = 7\<rparr>"

subsection \<open>Opcodes and requests\<close>

lemma cec_opcodes_distinct: "distinct cec_opcodes"
  by (simp add: cec_opcodes_def cec_const)

subsection \<open>Every message built fits the structure\<close>

lemma msg_copy_result:
  "msg_copy m off src n = Inr m' \<Longrightarrow> cec_wf m \<Longrightarrow> cec_wf m' \<and> cm_len m' = cm_len m \<and> cm_overrun m' = cm_overrun m"
  by (auto simp: msg_copy_def mem_read_def mem_write_def cec_wf_def split: if_splits)

lemma put_descriptors_result:
  "put_descriptors ds i n m = Inr m' \<Longrightarrow> cec_wf m \<Longrightarrow> \<not> cm_overrun m \<Longrightarrow> i + n \<le> 4 \<Longrightarrow>
   cec_wf m' \<and> cm_len m' = cm_len m \<and> \<not> cm_overrun m'"
proof (induction n arbitrary: i m)
  case (Suc n)
  then obtain d where "put_descriptors ds (Suc i) n (msg_put (msg_put (msg_put m (2 + i * 3)
      (to_u8 (drop_bit 16 d AND 0xff))) (3 + i * 3) (to_u8 (drop_bit 8 d AND 0xff))) (4 + i * 3) (to_u8 (d AND 0xff))) = Inr m'"
    by (auto simp: res_simps Let_def)
  from Suc.IH [OF this] Suc.prems(2-4) show ?case by simp
qed simp

lemma put_formats_result:
  "put_formats fid code i n m = Inr m' \<Longrightarrow> cec_wf m \<Longrightarrow> \<not> cm_overrun m \<Longrightarrow> i + n \<le> 4 \<Longrightarrow>
   cec_wf m' \<and> cm_len m' = cm_len m \<and> \<not> cm_overrun m'"
proof (induction n arbitrary: i m)
  case (Suc n)
  then obtain v where "put_formats fid code (Suc i) n (msg_put m (2 + i) v) = Inr m'" by (auto simp: res_simps)
  from Suc.IH [OF this] Suc.prems(2-4) show ?case by simp
qed simp

lemma msg_copy_returns: "cec_wf m \<Longrightarrow> off + n \<le> 16 \<Longrightarrow> n \<le> length src \<Longrightarrow> is_ok (msg_copy m off src n)"
  by (simp add: msg_copy_ok is_ok_def)

lemma put_descriptors_returns: "i + n \<le> length ds \<Longrightarrow> is_ok (put_descriptors ds i n m)"
  by (induction n arbitrary: i m) (simp_all add: arr_read_def is_ok_def Let_def)

lemma put_formats_returns: "i + n \<le> length fid \<Longrightarrow> i + n \<le> length code \<Longrightarrow> is_ok (put_formats fid code i n m)"
  by (induction n arbitrary: i m) (simp_all add: arr_read_def is_ok_def)

text \<open>The number of bytes copied of a string: its length, wrapped to 32 bits, and clamped.\<close>

lemma clamped_string_fits:
  fixes k :: u32
  assumes "0 \<in> set s"
  defines "n \<equiv> unat (if of_nat (length (takeWhile (\<lambda>b. b \<noteq> 0) s)) > k then k else of_nat (length (takeWhile (\<lambda>b. b \<noteq> 0) s)))"
  shows "n \<le> unat k" and "n \<le> length s"
proof -
  let ?l = "length (takeWhile (\<lambda>b. b \<noteq> 0) s)"
  have "unat (of_nat ?l :: u32) \<le> ?l" by (simp add: unat_of_nat)
  moreover have "?l \<le> length s" by (rule length_takeWhile_le)
  ultimately show "n \<le> length s" "n \<le> unat k" by (auto simp: n_def word_less_nat_alt)
qed

lemma copies_return:
  assumes "cec_wf m"
  shows "copies_return m"
proof -
  have s: "is_ok (cec_msg_set_timer_program_title m s) \<and> is_ok (cec_msg_set_osd_name m s) \<and> is_ok (cec_msg_set_osd_string m c s)"
    if "0 \<in> set s" for s c
    using that assms clamped_string_fits [OF that, of 14] clamped_string_fits [OF that, of 13]
    by (simp add: cec_msg_set_timer_program_title_def cec_msg_set_osd_name_def cec_msg_set_osd_string_def c_string_def
        Let_def msg_copy_returns split del: if_split)
  have v: "is_ok (cec_msg_vendor_command m sz s) \<and> is_ok (cec_msg_vendor_command_with_id m vid sz s) \<and>
      is_ok (cec_msg_vendor_remote_button_down m sz s)" if "unat sz \<le> length s" for sz s vid
    using that assms clamped_size [of 14 sz] clamped_size [of 11 sz]
    by (simp add: cec_msg_vendor_command_def cec_msg_vendor_command_with_id_def cec_msg_vendor_remote_button_down_def
        Let_def msg_copy_returns split del: if_split)
  have d: "is_ok (cec_msg_report_short_audio_descriptor m num ds)" if "unat num \<le> length ds" for num ds
    using that clamped_size [of 4 num]
    by (simp add: cec_msg_report_short_audio_descriptor_def Let_def put_descriptors_returns split del: if_split)
  have f: "is_ok (cec_msg_request_short_audio_descriptor m reply num fid code)"
    if "unat num \<le> length fid" "unat num \<le> length code" for num reply fid code
    using that clamped_size [of 4 num]
    by (simp add: cec_msg_request_short_audio_descriptor_def Let_def put_formats_returns split del: if_split)
  have "is_ok (cec_msg_set_menu_language m s)" if "3 \<le> length s" for s
    using that assms by (simp add: cec_msg_set_menu_language_def Let_def msg_copy_returns)
  with s v d f show ?thesis unfolding copies_return_def by blast
qed

lemma clamped_string_len: "unat (off + (if x > k then k else x)) \<le> unat off + unat k"
  if "unat off + unat k < 2 ^ 32" for off k x :: u32
proof -
  have "unat (if x > k then k else x) \<le> unat k" by (simp add: word_less_nat_alt)
  then show ?thesis using that by (subst unat_add_small) auto
qed

lemma clamped_string_low: "Suc 0 \<le> unat (off + (if x > k then k else x))"
  if "unat off + unat k < 2 ^ 32" "1 \<le> unat off" for off k x :: u32
proof -
  have "unat (if x > k then k else x) \<le> unat k" by (simp add: word_less_nat_alt)
  then show ?thesis using that by (subst unat_add_small) auto
qed

lemma clamped_blob_len:
  fixes off :: u32 and k x :: u8
  shows "unat off + unat k < 2 ^ 32 \<Longrightarrow>
    unat (off + to_int (if x > k then k else x)) = unat off + min (unat x) (unat k)"
  by (subst unat_add_small) (auto simp: word_less_nat_alt)

lemma copies_typed:
  assumes "cec_wf m \<and> \<not> cm_overrun m"
  shows "cec_msg_set_timer_program_title m s = Inr m' \<Longrightarrow> cec_typed m'"
    and "cec_msg_set_osd_name m s = Inr m' \<Longrightarrow> cec_typed m'"
    and "cec_msg_set_osd_string m c s = Inr m' \<Longrightarrow> cec_typed m'"
    and "cec_msg_set_menu_language m s = Inr m' \<Longrightarrow> cec_typed m'"
    and "cec_msg_vendor_command m sz s = Inr m' \<Longrightarrow> cec_typed m'"
    and "cec_msg_vendor_command_with_id m vid sz s = Inr m' \<Longrightarrow> cec_typed m'"
    and "cec_msg_vendor_remote_button_down m sz s = Inr m' \<Longrightarrow> cec_typed m'"
  using assms clamped_string_len [of 2 14] clamped_string_low [of 2 14] clamped_string_len [of 3 13]
    clamped_string_low [of 3 13] clamped_blob_len [of 2 14 sz] clamped_blob_len [of 5 11 sz]
  by (auto simp: cec_msg_set_timer_program_title_def cec_msg_set_osd_name_def cec_msg_set_osd_string_def
      cec_msg_set_menu_language_def cec_msg_vendor_command_def cec_msg_vendor_command_with_id_def
      cec_msg_vendor_remote_button_down_def cec_typed_def Let_def res_simps
      dest!: msg_copy_result split del: if_split)

lemma descriptors_typed:
  assumes "cec_wf m \<and> \<not> cm_overrun m"
  shows "cec_msg_report_short_audio_descriptor m num ds = Inr m' \<Longrightarrow> cec_typed m'"
    and "cec_msg_request_short_audio_descriptor m reply num fid code = Inr m' \<Longrightarrow> cec_typed m'"
proof -
  let ?z = "if num > 4 then 4 else num"
  have z: "unat ?z \<le> 4" by (simp add: word_less_nat_alt)
  then have u: "unat (to_int ?z * 3) = unat ?z * 3" by (subst unat_mult_lem [THEN iffD1]) simp_all
  have "unat (2 + to_int ?z * 3) = 2 + unat ?z * 3" "unat (2 + to_int ?z) = 2 + unat ?z"
    using u z by (subst unat_add_small; simp split del: if_split)+
  with z have l: "unat (2 + to_int ?z * 3) \<le> 16" "1 \<le> unat (2 + to_int ?z * 3)"
    "unat (2 + to_int ?z) \<le> 16" "1 \<le> unat (2 + to_int ?z)" by linarith+
  show "cec_typed m'" if "cec_msg_report_short_audio_descriptor m num ds = Inr m'"
    using that assms l(1,2) z
    by (auto simp: cec_msg_report_short_audio_descriptor_def cec_typed_def Let_def
        dest!: put_descriptors_result split del: if_split)
  show "cec_typed m'" if "cec_msg_request_short_audio_descriptor m reply num fid code = Inr m'"
    using that assms l(3,4) z
    by (auto simp: cec_msg_request_short_audio_descriptor_def cec_typed_def Let_def
        dest!: put_formats_result split del: if_split)
qed

lemma cec_typed_wf: "cec_typed m \<Longrightarrow> cec_wf m \<and> \<not> cm_overrun m"
  by (simp add: cec_typed_def)

lemmas fallible_typed = copies_typed [OF cec_typed_wf] descriptors_typed [OF cec_typed_wf]

lemma built_typed: "cec_built m \<Longrightarrow> cec_typed m"
  by (induction rule: cec_built.induct)
    (erule (1) fallible_typed |
     simp add: cec_typed_def cec_msg_init_def cec_msg_set_reply_to_def cec_msgs Let_def msg_push_def)+

text \<open>
  C33. Whatever sequence of encoders a program calls on an initialised message, with whatever
  arguments, as long as they return: no store was outside the payload, the payload keeps its 16 bytes
  and the length stays between 1 and 16. And an encoder that copies from an array of its caller does
  return on such a message whenever that array has the bytes it is told of.
\<close>

theorem cec_built_typed:
  "cec_built m \<Longrightarrow> cec_typed m \<and> copies_return m"
  using built_typed copies_return cec_typed_wf by blast

theorem cec_built_typed_witness:
  "cec_built (cec_msg_record_on_plug (cec_msg_init cec_msg_zero 4 0) 2) \<and>
   cec_typed (cec_msg_record_on_plug (cec_msg_init cec_msg_zero 4 0) 2) \<and>
   is_ok (cec_msg_vendor_command (cec_msg_record_on_plug (cec_msg_init cec_msg_zero 4 0) 2) 20 (replicate 20 7))"
  using cec_built_typed [OF cec_built.record_on_plug [OF cec_built.init]]
    cec_built.record_on_plug [OF cec_built.init] by (simp add: copies_return_def)

text \<open>
  Every message without operands is a frame of two bytes with its own opcode and the addresses
  the structure had; no other byte of the payload changes. A request that is told to wait names the
  opcode of its answer, and the opcodes of all messages are distinct, so the answer is recognised.
\<close>

lemma cec_requests_name_replies:
  assumes "(op, rop, enc) \<in> set (cec_requests reply)" "cec_wf m" "reply \<noteq> 0"
  shows "cec_wf (enc m) \<and> cm_len (enc m) = 2 \<and> cec_msg_opcode (enc m) = to_int op \<and>
    (\<forall>j. j \<noteq> 1 \<longrightarrow> msg_at (enc m) j = msg_at m j) \<and>
    cm_reply (enc m) = (if rop = 0 then cm_reply m else rop) \<and>
    op \<in> set cec_opcodes \<and> (rop = 0 \<or> rop \<in> set cec_opcodes) \<and> distinct cec_opcodes"
proof -
  have "rop = 0 \<or> rop \<in> set cec_opcodes" "op \<in> set cec_opcodes"
    using assms(1) by (auto simp: cec_requests_def cec_opcodes_def)
  moreover have "cm_reply (enc m) = (if rop = 0 then cm_reply m else rop)"
    using assms(1,3) by (auto simp: cec_requests_def cec_msgs Let_def cec_const)
  moreover have "cec_wf (enc m) \<and> cm_len (enc m) = 2 \<and> cec_msg_opcode (enc m) = to_int op \<and>
      (\<forall>j. j \<noteq> 1 \<longrightarrow> msg_at (enc m) j = msg_at m j)"
    using assms(1,2) by (auto simp: cec_requests_def cec_msgs Let_def cec_msg_opcode_def)
  ultimately show ?thesis using cec_opcodes_distinct by blast
qed

subsection \<open>Services and timers\<close>

text \<open>
  C34. A digital service identification whose fields fit their bits comes back from the seven bytes
  it is encoded in, except that a channel's major number does so exactly below 256: the decoder
  puts the upper two of its ten bits at bit 6.
\<close>

theorem digital_service_roundtrip_iff:
  assumes "cec_wf m" "p + 7 \<le> 16" "dig_fits d"
  shows "dig_service_of (cec_get_digital_service_id (cec_set_digital_service_id m p d) p old) = dig_service_of d \<longleftrightarrow>
    (ds_service_id_method d = CEC_OP_SERVICE_ID_METHOD_BY_CHANNEL \<longrightarrow> ch_major (ds_channel d) < 256)"
proof (cases "ds_service_id_method d = CEC_OP_SERVICE_ID_METHOD_BY_CHANNEL")
  case True
  then have "ch_major (ds_channel d) < 1024" using assms(3) by (simp add: dig_fits_def)
  then show ?thesis using cec_get_set_digital [OF assms] major_shift_iff True by (simp add: dig_service_of_def)
next
  case False
  then show ?thesis using cec_get_set_digital [OF assms] by simp
qed

theorem digital_service_roundtrip_iff_witness:
  "cec_wf cec_msg_zero \<and> dig_fits channel_300 \<and>
   dig_service_of (cec_get_digital_service_id (cec_set_digital_service_id cec_msg_zero 3 channel_300) 3 channel_300) \<noteq>
     dig_service_of channel_300"
proof -
  have fits: "dig_fits channel_300"
    by (simp add: dig_fits_def channel_300_def ds_channel_def lo8_def)
  have "\<not> (ds_service_id_method channel_300 = CEC_OP_SERVICE_ID_METHOD_BY_CHANNEL \<longrightarrow>
      ch_major (ds_channel channel_300) < 256)"
    by (simp add: channel_300_def ds_channel_def cec_const)
  with digital_service_roundtrip_iff [OF cec_wf_zero _ fits, of 3 channel_300] fits show ?thesis by simp
qed

text \<open>
  C35. A digital timer that is set on one device arrives on the other: opcode, sender, date, the
  times through their binary coded decimal form, the sequence and the service, from the 16 bytes of
  the frame and whatever the receiver's structures held. The hours and minutes must be below 160, so
  that their tens fit four bits; the fields of the service must fit their bits; and where the service
  is given by a channel, its major number must be below 256, since a larger one does not come back.
\<close>

theorem set_digital_timer_delivered:
  assumes "cec_wf m"
    and "start_hr < 160" "start_min < 160" "duration_hr < 160" "duration_min < 160" "dig_ok digital"
    and "cec_delivered (cec_msg_set_digital_timer m reply day month start_hr start_min duration_hr
           duration_min recording_seq digital) m'"
  shows "cec_msg_opcode m' = to_int CEC_MSG_SET_DIGITAL_TIMER \<and>
    cec_msg_initiator m' = cec_msg_initiator m \<and>
    digital_timer_of (cec_ops_set_digital_timer m' old) =
      (day, month, start_hr, start_min, duration_hr, duration_min, recording_seq, dig_service_of digital)"
proof -
  have ok: "digital_timer_ok (day, month, start_hr, start_min, duration_hr, duration_min, recording_seq, digital)"
    using assms(2-6) by (simp add: digital_timer_ok_def)
  show ?thesis
    using set_digital_timer.delivered [OF assms(1) ok, of reply m' old] assms(7)
    by (simp add: digital_timer_of_def)
qed

theorem set_digital_timer_delivered_witness:
  "(let m = cec_msg_init cec_msg_zero 4 0; e = cec_msg_set_digital_timer m 0 24 12 20 15 1 30 0 dvb_service
    in cec_delivered e e \<and>
       digital_timer_of (cec_ops_set_digital_timer e channel_300) = (24, 12, 20, 15, 1, 30, 0, By_dvb 0x1b 5 300 7))"
proof -
  let ?m = "cec_msg_init cec_msg_zero 4 0"
  let ?e = "cec_msg_set_digital_timer ?m 0 24 12 20 15 1 30 0 dvb_service"
  have m: "cec_wf ?m" by (simp add: cec_msg_init_def Let_def)
  have d: "dig_ok dvb_service" by (simp add: dig_ok_def dig_fits_def dvb_service_def cec_const)
  have e: "cec_delivered ?e ?e" by (rule cec_delivered_refl) (simp add: m cec_msgs Let_def)
  have "dig_service_of dvb_service = By_dvb 0x1b 5 300 7"
    by (simp add: dig_service_of_def dvb_service_def ds_dvb_def cec_const)
  with set_digital_timer_delivered [OF m _ _ _ _ d e, of channel_300] e show ?thesis by (simp add: Let_def)
qed

subsection \<open>Display strings\<close>

text \<open>
  A display string of any length is sent with its control byte in a frame of at most 16 bytes;
  the receiver's buffer of 14 bytes or more then holds the first 13 characters and a terminating
  null byte, and nothing behind it changes.
\<close>

lemma osd_string_bounded:
  assumes "cec_wf m" "\<not> cm_overrun m" "0 \<notin> set s" "length s < 2 ^ 32"
  shows "\<exists>e. cec_msg_set_osd_string m disp_ctl (s @ 0 # rest) = Inr e \<and> cec_typed e \<and>
    (\<forall>m' buf. cec_delivered e m' \<and> 13 < length buf \<longrightarrow>
       cec_ops_set_osd_string m' buf =
         Inr (disp_ctl, take 13 s @ 0 # drop (Suc (min (length s) 13)) buf))"
  using osd_string_delivered [OF assms(1,3,4), of disp_ctl rest] copies_typed(3) [of m] assms(1,2) by blast

subsection \<open>Feature reports\<close>

lemma find_upt:
  assumes "a \<le> r" "r < b" "P r" "\<And>i. a \<le> i \<Longrightarrow> i < r \<Longrightarrow> \<not> P i"
  shows "find P [a..<b] = Some r"
  unfolding find_Some_iff using assms by (intro exI [of _ "r - a"]) auto

text \<open>
  The pointer walk of the decoder finds the operands the specification names: the first operand
  from byte 4 on without the extension bit, if there is one up to byte 14, with the device features
  behind it. Both pointers stay inside the payload; the walk that should skip extended device
  features never moves.
\<close>

lemma report_features_scan:
  "cec_ops_report_features m = features_spec m \<and>
   (\<forall>v t rc d. cec_ops_report_features m = (v, t, rc, Some d) \<longrightarrow> rc = Some 4 \<and> 5 \<le> d \<and> d < 16)"
proof -
  let ?r = "feat_ext_loop m 14 4"
  note spec = feat_ext_loop_spec [of 4 14 m]
  have "cec_ops_report_features m = features_spec m"
  proof (cases "feat_ext m ?r")
    case True
    then have "?r = 14" using spec by (cases "?r < 14") auto
    have "feat_ext m i" if "4 \<le> i" "i < 15" for i
      using that True spec \<open>?r = 14\<close> by (cases "i = 14") auto
    then have "find (\<lambda>p. \<not> feat_ext m p) [4..<15] = None" by (auto simp: find_None_iff)
    with True show ?thesis by (simp add: cec_ops_report_features_eq features_spec_def Let_def)
  next
    case False
    then have "find (\<lambda>p. \<not> feat_ext m p) [4..<15] = Some ?r"
      using spec by (intro find_upt) auto
    with False show ?thesis by (simp add: cec_ops_report_features_eq features_spec_def Let_def)
  qed
  moreover have "rc = Some 4 \<and> 5 \<le> d \<and> d < 16" if "cec_ops_report_features m = (v, t, rc, Some d)" for v t rc d
    using report_features_in_range [OF that] by simp
  ultimately show ?thesis by blast
qed

text \<open>
  The device features of a message may go on to its last byte with every extension bit set: the
  pointer is returned all the same.
\<close>

lemma extended_features_accepted:
  assumes "\<not> feat_ext m 4"
  shows "cec_ops_report_features m = (msg_at m 2, msg_at m 3, Some 4, Some 5)"
  using assms by (simp add: cec_ops_report_features_eq feat_ext_loop_stays Let_def)

subsection \<open>State reports\<close>

lemma hec_report_state_roundtrip_iff:
  assumes "cec_wf m" "hec < 4" "host < 4" "encf < 4" "err < 4" "has_field = 1"
  shows "snd (cec_ops_cdc_hec_report_state
      (cec_msg_cdc_hec_report_state m target hec host encf err has_field field)) =
      (target, hec, host, encf, err, has_field, field) \<longleftrightarrow> encf = host"
  using hec_report_state_decoded [OF assms(1-5)] assms(6) by auto

end
