(* ===== verification/Queue_Memory.thy ===== *)
theory Queue_Memory
  imports Aesd_Prelude
begin

section \<open>Memory for the intrusive lists\<close>

text \<open>
  What the list macros of \<^verbatim>\<open>sys/queue.h\<close> (in \<^verbatim>\<open>finder-app/arm64_libc/usr/include\<close>) work on: memory as
  machine words by address. A list head is a structure of one or two words. An element is a structure
  of the caller with an entry, the member \<open>field\<close> of the macros, at some offset \<open>f\<close>; the entry again
  has one or two words. Pointers to pointers are addresses of such words, so the casts between heads
  and entries in the tail queue macros need no special treatment.

  The theory has the accesses, the shapes of the lists, and the contract \<open>intrusive_list\<close> under which
  a structure behaves as a list of elements whatever operations are applied.
\<close>

type_synonym mem = "addr \<rightharpoonup> addr"

text \<open>Reading and writing a member at address \<open>a\<close> through the pointer \<open>p\<close>.\<close>

definition ptr_ld :: "mem \<Rightarrow> addr \<Rightarrow> addr \<Rightarrow> addr result" where
  "ptr_ld m p a = (if p = NULL then Inl NullDeref else case m a of None \<Rightarrow> Inl UseAfterFree | Some v \<Rightarrow> Inr v)"

definition ptr_st :: "mem \<Rightarrow> addr \<Rightarrow> addr \<Rightarrow> addr \<Rightarrow> mem result" where
  "ptr_st m p a v =
     (if p = NULL then Inl NullDeref else case m a of None \<Rightarrow> Inl UseAfterFree | Some _ \<Rightarrow> Inr (m(a \<mapsto> v)))"

text \<open>
  The words of a structure: the second word of a head or an entry, and the two words of the entry of
  an element.
\<close>

definition word2 :: "addr \<Rightarrow> addr" where "word2 a = a + 8"
definition entry1 :: "addr \<Rightarrow> addr \<Rightarrow> addr" where "entry1 f e = e + f"
definition entry2 :: "addr \<Rightarrow> addr \<Rightarrow> addr" where "entry2 f e = word2 (entry1 f e)"

text \<open>
  The elements a loop visits that follows the first word of the entries from \<open>var\<close> up to the pointer
  \<open>fin\<close>; \<open>None\<close> is a loop that never ends.
\<close>

partial_function (option) visit :: "mem \<Rightarrow> (addr \<Rightarrow> addr) \<Rightarrow> addr \<Rightarrow> addr \<Rightarrow> addr list result option" where
  "visit m step fin var =
     (if var = fin then Some (Inr [])
      else case ptr_ld m var (step var) of
             Inl e \<Rightarrow> Some (Inl e)
           | Inr n \<Rightarrow> Option.bind (visit m step fin n) (\<lambda>r. Some (res_bind r (\<lambda>xs. Inr (var # xs)))))"

subsection \<open>Shapes\<close>

text \<open>
  \<open>links m f p xs\<close>: the word at \<open>p\<close> points to the first element of \<open>xs\<close>, the entry of each element to
  the next one. \<open>last_word\<close> is the address of the word behind them, which a list ends with.
  \<open>backs m f p xs\<close>: the second word of each entry has the address of the word that points to the
  element.
\<close>

fun links :: "mem \<Rightarrow> addr \<Rightarrow> addr \<Rightarrow> addr list \<Rightarrow> bool" where
  "links m f p [] \<longleftrightarrow> True"
| "links m f p (x # xs) \<longleftrightarrow> m p = Some x \<and> links m f (entry1 f x) xs"

fun last_word :: "addr \<Rightarrow> addr \<Rightarrow> addr list \<Rightarrow> addr" where
  "last_word f p [] = p"
| "last_word f p (x # xs) = last_word f (entry1 f x) xs"

fun backs :: "mem \<Rightarrow> addr \<Rightarrow> addr \<Rightarrow> addr list \<Rightarrow> bool" where
  "backs m f p [] \<longleftrightarrow> True"
| "backs m f p (x # xs) \<longleftrightarrow> m (entry2 f x) = Some p \<and> backs m f (entry1 f x) xs"

text \<open>
  The memory a list may use: its head and the entries of the elements of the pool \<open>E\<close> are allocated
  and do not overlap. \<open>room\<close> is about the first words, \<open>room2\<close> about the second words.
\<close>

definition room :: "addr \<Rightarrow> addr \<Rightarrow> addr set \<Rightarrow> mem \<Rightarrow> bool" where
  "room f head E m \<longleftrightarrow>
     head \<noteq> NULL \<and> NULL \<notin> E \<and> head \<in> dom m \<and>
     (\<forall>e \<in> E. entry1 f e \<in> dom m \<and> entry1 f e \<noteq> head \<and> entry1 f e \<noteq> NULL)"

definition room2 :: "addr \<Rightarrow> addr \<Rightarrow> addr set \<Rightarrow> mem \<Rightarrow> bool" where
  "room2 f head E m \<longleftrightarrow>
     (\<forall>e \<in> E. entry2 f e \<in> dom m \<and> entry2 f e \<noteq> head \<and> (\<forall>e' \<in> E. entry2 f e \<noteq> entry1 f e'))"

text \<open>A head of two words.\<close>

definition room_q :: "addr \<Rightarrow> addr \<Rightarrow> addr set \<Rightarrow> mem \<Rightarrow> bool" where
  "room_q f head E m \<longleftrightarrow> room f head E m \<and> word2 head \<in> dom m \<and> word2 head \<notin> entry1 f ` E"

text \<open>Entries of two words as well.\<close>

definition room_t :: "addr \<Rightarrow> addr \<Rightarrow> addr set \<Rightarrow> mem \<Rightarrow> bool" where
  "room_t f head E m \<longleftrightarrow> room_q f head E m \<and> room2 f head E m \<and> word2 head \<notin> entry2 f ` E"

text \<open>The links from the head to the end marker \<open>fin\<close>, through elements of the pool.\<close>

definition chain :: "addr \<Rightarrow> addr \<Rightarrow> addr \<Rightarrow> addr set \<Rightarrow> mem \<Rightarrow> addr list \<Rightarrow> bool" where
  "chain fin f head E m xs \<longleftrightarrow>
     set xs \<subseteq> E \<and> distinct xs \<and> links m f head xs \<and> m (last_word f head xs) = Some fin"

definition forward_to :: "addr \<Rightarrow> addr \<Rightarrow> addr \<Rightarrow> addr set \<Rightarrow> mem \<Rightarrow> addr list \<Rightarrow> bool" where
  "forward_to fin f head E m xs \<longleftrightarrow> room f head E m \<and> chain fin f head E m xs"

abbreviation forward :: "addr \<Rightarrow> addr \<Rightarrow> addr set \<Rightarrow> mem \<Rightarrow> addr list \<Rightarrow> bool" where
  "forward \<equiv> forward_to NULL"

text \<open>What a word points to that is followed by these elements.\<close>

definition first_or :: "addr \<Rightarrow> addr list \<Rightarrow> addr" where
  "first_or fin xs = (case xs of [] \<Rightarrow> fin | x # _ \<Rightarrow> x)"

abbreviation first_of :: "addr list \<Rightarrow> addr" where
  "first_of \<equiv> first_or NULL"

text \<open>The words of a list and memories that agree elsewhere.\<close>

definition words1 :: "addr \<Rightarrow> addr \<Rightarrow> addr set \<Rightarrow> addr set" where
  "words1 f head E = insert head (entry1 f ` E)"

definition words2 :: "addr \<Rightarrow> addr set \<Rightarrow> addr set" where
  "words2 f E = entry2 f ` E"

definition within :: "addr set \<Rightarrow> mem \<Rightarrow> mem \<Rightarrow> bool" where
  "within R m m' \<longleftrightarrow> (\<forall>a. a \<notin> R \<longrightarrow> m' a = m a)"

subsection \<open>Operations as a client sees them\<close>

datatype qop =
    Insert_head addr
  | Insert_tail addr
  | Insert_after addr addr
  | Insert_before addr addr
  | Remove addr
  | Remove_head

fun put_after :: "addr \<Rightarrow> addr \<Rightarrow> addr list \<Rightarrow> addr list" where
  "put_after y e [] = []"
| "put_after y e (x # xs) = (if x = y then x # e # xs else x # put_after y e xs)"

fun put_before :: "addr \<Rightarrow> addr \<Rightarrow> addr list \<Rightarrow> addr list" where
  "put_before y e [] = []"
| "put_before y e (x # xs) = (if x = y then e # x # xs else x # put_before y e xs)"

fun qspec :: "qop \<Rightarrow> addr list \<Rightarrow> addr list" where
  "qspec (Insert_head e) xs = e # xs"
| "qspec (Insert_tail e) xs = xs @ [e]"
| "qspec (Insert_after y e) xs = put_after y e xs"
| "qspec (Insert_before y e) xs = put_before y e xs"
| "qspec (Remove e) xs = remove1 e xs"
| "qspec Remove_head xs = tl xs"

text \<open>What the caller has to respect: insert only elements that are not in the list, next to ones that are.\<close>

fun qvalid :: "addr set \<Rightarrow> addr list \<Rightarrow> qop \<Rightarrow> bool" where
  "qvalid E xs (Insert_head e) \<longleftrightarrow> e \<in> E \<and> e \<notin> set xs"
| "qvalid E xs (Insert_tail e) \<longleftrightarrow> e \<in> E \<and> e \<notin> set xs"
| "qvalid E xs (Insert_after y e) \<longleftrightarrow> e \<in> E \<and> e \<notin> set xs \<and> y \<in> set xs"
| "qvalid E xs (Insert_before y e) \<longleftrightarrow> e \<in> E \<and> e \<notin> set xs \<and> y \<in> set xs"
| "qvalid E xs (Remove e) \<longleftrightarrow> e \<in> set xs"
| "qvalid E xs Remove_head \<longleftrightarrow> xs \<noteq> []"

fun all_valid :: "addr set \<Rightarrow> addr list \<Rightarrow> qop list \<Rightarrow> bool" where
  "all_valid E xs [] \<longleftrightarrow> True"
| "all_valid E xs (q # qs) \<longleftrightarrow> qvalid E xs q \<and> all_valid E (qspec q xs) qs"

fun run_ops :: "(qop \<Rightarrow> mem \<Rightarrow> mem result option) \<Rightarrow> qop list \<Rightarrow> mem \<Rightarrow> mem result option" where
  "run_ops exec [] m = Some (Inr m)"
| "run_ops exec (q # qs) m =
     (case exec q m of
        None \<Rightarrow> None
      | Some (Inl e) \<Rightarrow> Some (Inl e)
      | Some (Inr m') \<Rightarrow> run_ops exec qs m')"

subsection \<open>Accesses\<close>

lemma ld_ok [simp]: "p \<noteq> NULL \<Longrightarrow> m a = Some v \<Longrightarrow> ptr_ld m p a = Inr v"
  by (simp add: ptr_ld_def)

lemma st_ok [simp]: "p \<noteq> NULL \<Longrightarrow> a \<in> dom m \<Longrightarrow> ptr_st m p a v = Inr (m(a \<mapsto> v))"
  by (auto simp: ptr_st_def)

lemma ld_null [simp]: "ptr_ld m NULL a = Inl NullDeref"
  by (simp add: ptr_ld_def)

lemma entry_inj [simp]:
  "entry1 f x = entry1 f y \<longleftrightarrow> x = y" "entry2 f x = entry2 f y \<longleftrightarrow> x = y" "word2 (entry1 f x) = entry2 f x"
  by (simp_all add: entry1_def entry2_def word2_def)

lemma word2_neq [simp]: "word2 a \<noteq> a" "a \<noteq> word2 a"
  by (simp_all add: word2_def)

lemma within_upd [simp]: "a \<in> R \<Longrightarrow> within R m (m'(a \<mapsto> v)) \<longleftrightarrow> within R m m'"
  by (auto simp: within_def)

lemma within_refl [simp]: "within R m m"
  by (simp add: within_def)

lemma within_trans: "within R m m' \<Longrightarrow> within R m' m'' \<Longrightarrow> within R m m''"
  by (simp add: within_def)

lemma words_simps [simp]:
  "head \<in> words1 f head E" "e \<in> E \<Longrightarrow> entry1 f e \<in> words1 f head E" "e \<in> E \<Longrightarrow> entry2 f e \<in> words2 f E"
  by (simp_all add: words1_def words2_def)

subsection \<open>Shapes under append and update\<close>

lemma links_append [simp]:
  "links m f p (xs @ ys) \<longleftrightarrow> links m f p xs \<and> links m f (last_word f p xs) ys"
  by (induction xs arbitrary: p) auto

lemma last_word_append [simp]: "last_word f p (xs @ ys) = last_word f (last_word f p xs) ys"
  by (induction xs arbitrary: p) auto

lemma backs_append [simp]:
  "backs m f p (xs @ ys) \<longleftrightarrow> backs m f p xs \<and> backs m f (last_word f p xs) ys"
  by (induction xs arbitrary: p) auto

lemma last_word_cases:
  obtains "xs = []" "last_word f p xs = p" | x where "x \<in> set xs" "last_word f p xs = entry1 f x"
  by (cases xs rule: rev_cases) auto

lemma links_upd [simp]:
  "a \<noteq> p \<Longrightarrow> a \<notin> entry1 f ` set xs \<Longrightarrow> links (m(a \<mapsto> v)) f p xs \<longleftrightarrow> links m f p xs"
  by (induction xs arbitrary: p) auto

text \<open>Writing the word behind the elements keeps the links.\<close>

lemma links_upd_last:
  assumes "distinct xs" and "p \<notin> entry1 f ` set xs"
  shows "links (m(last_word f p xs \<mapsto> v)) f p xs \<longleftrightarrow> links m f p xs"
proof (cases xs rule: rev_cases)
  case (snoc ys y)
  have "links (m(entry1 f y \<mapsto> v)) f p ys \<longleftrightarrow> links m f p ys"
    using assms snoc by (intro links_upd) auto
  moreover have "last_word f p ys \<noteq> entry1 f y"
    using assms snoc by (cases rule: last_word_cases [of ys f p]) auto
  ultimately show ?thesis using snoc by simp
qed simp

lemma backs_upd [simp]:
  "a \<notin> entry2 f ` set xs \<Longrightarrow> backs (m(a \<mapsto> v)) f p xs \<longleftrightarrow> backs m f p xs"
  by (induction xs arbitrary: p) auto

lemma room_upd [simp]: "a \<in> dom m \<Longrightarrow> room f head E (m(a \<mapsto> v)) \<longleftrightarrow> room f head E m"
  by (simp add: room_def insert_absorb)

lemma room2_upd [simp]: "a \<in> dom m \<Longrightarrow> room2 f head E (m(a \<mapsto> v)) \<longleftrightarrow> room2 f head E m"
  by (simp add: room2_def insert_absorb)

lemma last_word_nonempty: "xs \<noteq> [] \<Longrightarrow> last_word f p xs = entry1 f (last xs)"
  by (induction xs arbitrary: p) auto

lemma last_word_insert:
  "last_word f p (ps @ e # zs) = (if zs = [] then entry1 f e else last_word f p (ps @ zs))"
  by (cases zs) auto

lemma last_word_remove:
  "last_word f p (ps @ zs) = (if zs = [] then last_word f p ps else last_word f p (ps @ x # zs))"
  by (cases zs) auto

text \<open>
  An element enters a chain at any place: its entry takes over the word that points to the rest, and
  this word then points to the element. An element leaves a chain in the opposite way.
\<close>

lemma chain_insert:
  assumes "chain fin f head E m (ps @ zs)" and "e \<in> E" and "e \<notin> set (ps @ zs)"
    and ap: "\<And>x. x \<in> E \<Longrightarrow> entry1 f x \<noteq> head" and n: "m (last_word f head ps) = Some n"
  shows "chain fin f head E (m(entry1 f e \<mapsto> n, last_word f head ps \<mapsto> e)) (ps @ e # zs)"
proof -
  let ?p = "last_word f head ps" and ?m = "m(entry1 f e \<mapsto> n, last_word f head ps \<mapsto> e)"
  have sub: "set ps \<subseteq> E" "set zs \<subseteq> E" and d: "distinct ps" "distinct zs" "set ps \<inter> set zs = {}"
    and l: "links m f head ps" "links m f ?p zs" and z: "m (last_word f ?p zs) = Some fin"
    using assms(1) by (auto simp: chain_def)
  have h: "head \<notin> entry1 f ` set ps" "entry1 f e \<noteq> head" using ap sub assms(2) by auto
  have p: "?p \<noteq> entry1 f e" "?p \<notin> entry1 f ` set zs"
    using ap sub d assms(2,3) by (cases rule: last_word_cases [of ps f head]; auto)+
  have "links ?m f head ps"
    using l h assms(3) d by (simp add: links_upd_last image_iff)
  moreover have "links ?m f (entry1 f e) zs"
    using l p n assms(3) by (cases zs) (auto simp: image_iff)
  moreover have "?m (last_word f (entry1 f e) zs) = Some fin"
  proof (cases "zs = []")
    case True
    with z n p show ?thesis by simp
  next
    case False
    then have "last zs \<in> set zs" by simp
    with p assms(3) have "entry1 f (last zs) \<noteq> ?p" "last zs \<noteq> e" by (metis imageI, auto)
    with False z show ?thesis by (simp add: last_word_nonempty)
  qed
  ultimately show ?thesis using sub d assms(2,3) by (simp add: chain_def)
qed

lemma chain_remove:
  assumes "chain fin f head E m (ps @ x # zs)" and ap: "\<And>y. y \<in> E \<Longrightarrow> entry1 f y \<noteq> head"
    and n: "m (entry1 f x) = Some n"
  shows "chain fin f head E (m(last_word f head ps \<mapsto> n)) (ps @ zs)"
proof -
  let ?p = "last_word f head ps"
  have sub: "set ps \<subseteq> E" "set zs \<subseteq> E" "x \<in> E" and d: "distinct ps" "distinct (x # zs)" "set ps \<inter> set (x # zs) = {}"
    and l: "links m f head ps" "links m f (entry1 f x) zs" and z: "m (last_word f (entry1 f x) zs) = Some fin"
    using assms(1) by (auto simp: chain_def)
  have h: "head \<notin> entry1 f ` set ps" using ap sub by auto
  have p: "?p \<notin> entry1 f ` set zs" using ap sub d by (cases rule: last_word_cases [of ps f head]) auto
  have "links (m(?p \<mapsto> n)) f head ps" using l h d by (simp add: links_upd_last)
  moreover have "links (m(?p \<mapsto> n)) f ?p zs" using l p n by (cases zs) (auto simp: image_iff)
  moreover have "(m(?p \<mapsto> n)) (last_word f ?p zs) = Some fin"
  proof (cases "zs = []")
    case True
    with z n show ?thesis by simp
  next
    case False
    then have "entry1 f (last zs) \<noteq> ?p" using p by (metis imageI last_in_set)
    with False z show ?thesis by (simp add: last_word_nonempty)
  qed
  ultimately show ?thesis using sub d by (simp add: chain_def)
qed

lemma first_or_simps [simp]: "first_or fin [] = fin" "first_or fin (x # xs) = x"
  by (simp_all add: first_or_def)

lemma chain_word: "chain fin f head E m (ps @ zs) \<Longrightarrow> m (last_word f head ps) = Some (first_or fin zs)"
  by (cases zs) (auto simp: chain_def)

lemma chain_head: "chain fin f head E m xs \<Longrightarrow> m head = Some (first_or fin xs)"
  using chain_word [of fin f head E m "[]" xs] by simp

lemma chain_next: "chain fin f head E m (ps @ x # zs) \<Longrightarrow> m (entry1 f x) = Some (first_or fin zs)"
  using chain_word [of fin f head E m "ps @ [x]" zs] by simp

lemma chain_upd:
  assumes "chain fin f head E m xs" and "a \<noteq> head" and "a \<notin> entry1 f ` E"
  shows "chain fin f head E (m(a \<mapsto> v)) xs"
proof -
  have "a \<notin> entry1 f ` set xs" using assms by (auto simp: chain_def)
  moreover from this have "last_word f head xs \<noteq> a"
    using assms(2) by (cases rule: last_word_cases [of xs f head]) auto
  ultimately show ?thesis using assms by (simp add: chain_def)
qed

lemma chain_agree:
  assumes "chain fin f head E m xs" and "m' head = m head" and "\<And>e. e \<in> E \<Longrightarrow> m' (entry1 f e) = m (entry1 f e)"
  shows "chain fin f head E m' xs"
proof -
  have "links m' f p ys = links m f p ys" if "set ys \<subseteq> E" "m' p = m p" for p ys
    using that assms(3) by (induction ys arbitrary: p) auto
  moreover have "m' (last_word f head xs) = m (last_word f head xs)"
    using assms by (cases rule: last_word_cases [of xs f head]) (auto simp: chain_def)
  ultimately show ?thesis using assms(1,2) by (simp add: chain_def)
qed

lemma forward_head:
  assumes "forward_to fin f head E m xs"
  shows "head \<noteq> NULL" "NULL \<notin> E" "head \<in> dom m" "m head = Some (first_or fin xs)" "distinct xs" "set xs \<subseteq> E"
  using assms chain_head [of fin f head E m xs] by (simp_all add: forward_to_def room_def chain_def)

lemma forward_pool:
  assumes "forward_to fin f head E m xs" and "e \<in> E"
  shows "e \<noteq> NULL" "entry1 f e \<in> dom m" "entry1 f e \<noteq> head"
  using assms by (auto simp: forward_to_def room_def)

lemma forward_elem:
  assumes "forward_to fin f head E m (ps @ x # zs)"
  shows "x \<in> E" "x \<noteq> NULL" "entry1 f x \<in> dom m" "entry1 f x \<noteq> head" "m (entry1 f x) = Some (first_or fin zs)"
proof -
  show x: "x \<in> E" using forward_head(6) [OF assms] by simp
  from forward_pool [OF assms x] show "x \<noteq> NULL" "entry1 f x \<in> dom m" "entry1 f x \<noteq> head" .
  show "m (entry1 f x) = Some (first_or fin zs)" using assms by (auto simp: forward_to_def intro: chain_next)
qed

lemma forward_word:
  assumes "forward_to fin f head E m (ps @ zs)"
  shows "m (last_word f head ps) = Some (first_or fin zs)" "last_word f head ps \<in> dom m"
    "last_word f head ps = head \<or> last_word f head ps \<in> entry1 f ` E" "last_word f head ps \<noteq> NULL"
    "last_word f head ps \<in> words1 f head E"
proof -
  show m: "m (last_word f head ps) = Some (first_or fin zs)" using assms by (auto simp: forward_to_def intro: chain_word)
  then show "last_word f head ps \<in> dom m" by blast
  show w: "last_word f head ps = head \<or> last_word f head ps \<in> entry1 f ` E"
    using forward_head(6) [OF assms] by (cases rule: last_word_cases [of ps f head]) auto
  then show "last_word f head ps \<noteq> NULL" using assms by (auto simp: forward_to_def room_def)
  from w show "last_word f head ps \<in> words1 f head E" by (auto simp: words1_def)
qed

lemma forward_insert:
  assumes "forward_to fin f head E m (ps @ zs)" and "e \<in> E" and "e \<notin> set (ps @ zs)"
  shows "forward_to fin f head E (m(entry1 f e \<mapsto> first_or fin zs, last_word f head ps \<mapsto> e)) (ps @ e # zs)"
  using assms chain_insert [of fin f head E m ps zs e "first_or fin zs"] forward_word [OF assms(1)] forward_pool [OF assms(1,2)]
  by (simp add: forward_to_def room_def)

lemma forward_remove:
  assumes "forward_to fin f head E m (ps @ x # zs)"
  shows "forward_to fin f head E (m(last_word f head ps \<mapsto> first_or fin zs)) (ps @ zs)"
  using assms chain_remove [of fin f head E m ps x zs "first_or fin zs"] forward_elem(5) [OF assms] forward_word(2) [OF assms]
  by (simp add: forward_to_def room_def)

lemma first_or_fin: "fin \<notin> set xs \<Longrightarrow> first_or fin xs = fin \<longleftrightarrow> xs = []"
  by (cases xs) auto

lemma forward_rest: "forward f head E m (ps @ zs) \<Longrightarrow> first_of zs = NULL \<longleftrightarrow> zs = []"
  using forward_head(2,6) by (intro first_or_fin) fastforce

lemma forward_upd:
  "forward_to fin f head E m xs \<Longrightarrow> a \<noteq> head \<Longrightarrow> a \<notin> entry1 f ` E \<Longrightarrow> forward_to fin f head E (m(a \<mapsto> v)) xs"
  by (simp add: forward_to_def room_def chain_upd)

lemma forward_agree:
  assumes "forward_to fin f head E m xs" and "m' head = m head" and "\<And>e. e \<in> E \<Longrightarrow> m' (entry1 f e) = m (entry1 f e)"
  shows "forward_to fin f head E m' xs"
  using assms chain_agree [of fin f head E m xs m'] by (simp add: forward_to_def room_def domIff)

text \<open>The chain behind one head appended to that behind another one.\<close>

lemma links_start: "m p = m' q \<Longrightarrow> links m f p xs \<Longrightarrow> (\<And>x. x \<in> set xs \<Longrightarrow> m' (entry1 f x) = m (entry1 f x)) \<Longrightarrow> links m' f q xs"
proof (induction xs arbitrary: p q)
  case (Cons x xs)
  have "links m' f (entry1 f x) xs" using Cons.prems by (intro Cons.IH [of "entry1 f x"]) simp_all
  with Cons.prems show ?case by simp
qed simp

lemma chain_concat:
  assumes "chain fin f h1 E m xs" and "chain fin f h2 E m ys" and "set xs \<inter> set ys = {}" and "ys \<noteq> []"
    and ap: "\<And>x. x \<in> E \<Longrightarrow> entry1 f x \<noteq> h1"
  shows "chain fin f h1 E (m(last_word f h1 xs \<mapsto> first_or fin ys)) (xs @ ys)"
proof -
  let ?p = "last_word f h1 xs" and ?m = "m(last_word f h1 xs \<mapsto> first_or fin ys)"
  have c: "set xs \<subseteq> E" "distinct xs" "links m f h1 xs" "set ys \<subseteq> E" "distinct ys" "links m f h2 ys"
    "m (entry1 f (last ys)) = Some fin"
    using assms(1,2,4) by (simp_all add: chain_def last_word_nonempty)
  have p: "entry1 f y \<noteq> ?p" if "y \<in> set ys" for y
    using that assms(3) ap c by (cases rule: last_word_cases [of xs f h1]) auto
  have "links ?m f h1 xs" using c ap by (subst links_upd_last) auto
  moreover have "links ?m f ?p ys"
    using c(6) chain_head [OF assms(2)] p by (intro links_start [of m h2 ?m ?p f ys]) simp_all
  moreover have "?m (last_word f ?p ys) = Some fin" using c(7) p [of "last ys"] assms(4) by (simp add: last_word_nonempty)
  ultimately show ?thesis using c assms(3) by (simp add: chain_def)
qed

lemma forward_concat:
  assumes "forward_to fin f h1 E m xs" and "forward_to fin f h2 E m ys" and "set xs \<inter> set ys = {}" and "ys \<noteq> []"
  shows "forward_to fin f h1 E (m(last_word f h1 xs \<mapsto> first_or fin ys)) (xs @ ys)"
  using assms chain_concat [of fin f h1 E m xs h2 ys] forward_word(2) [of fin f h1 E m xs "[]"]
  by (simp add: forward_to_def room_def)

lemma forward_init: "room f head E m \<Longrightarrow> forward_to fin f head E (m(head \<mapsto> fin)) []"
  by (simp add: forward_to_def chain_def room_def)

lemma visit_links:
  assumes "links m f p xs" and "m (last_word f p xs) = Some fin" and "m p = Some v"
    and "NULL \<notin> set xs" and "fin \<notin> set xs"
  shows "visit m (entry1 f) fin v = Some (Inr xs)"
  using assms
proof (induction xs arbitrary: p v)
  case Nil
  then show ?case by (subst visit.simps) simp
next
  case (Cons x xs)
  then have v: "v = x" by simp
  obtain n where n: "m (entry1 f x) = Some n" using Cons.prems by (cases xs) auto
  have "visit m (entry1 f) fin n = Some (Inr xs)"
    using Cons.prems n by (intro Cons.IH [of "entry1 f x"]) simp_all
  with v n Cons.prems show ?case by (subst visit.simps) auto
qed

lemma visit_forward_to:
  assumes "forward_to fin f head E m xs" and "fin \<notin> E"
  shows "visit m (entry1 f) fin (first_or fin xs) = Some (Inr xs)"
  using assms forward_head [OF assms(1)]
  by (intro visit_links [of m f head]) (auto simp: forward_to_def chain_def)

lemma visit_forward:
  assumes "forward f head E m xs"
  shows "visit m (entry1 f) NULL (first_of xs) = Some (Inr xs)"
  using visit_forward_to [OF assms forward_head(2) [OF assms]] .

subsection \<open>Specification of the operations\<close>

lemma put_after_split: "y \<notin> set xs \<Longrightarrow> put_after y e (xs @ y # ys) = xs @ y # e # ys"
  by (induction xs) auto

lemma put_before_split: "y \<notin> set xs \<Longrightarrow> put_before y e (xs @ y # ys) = xs @ e # y # ys"
  by (induction xs) auto

lemma put_sets [simp]:
  "y \<in> set xs \<Longrightarrow> set (put_after y e xs) = insert e (set xs)"
  "y \<in> set xs \<Longrightarrow> set (put_before y e xs) = insert e (set xs)"
  by (induction xs) auto

lemma remove1_split: "y \<notin> set xs \<Longrightarrow> remove1 y (xs @ y # ys) = xs @ ys"
  by (induction xs) auto

text \<open>
  The contract: \<open>rep m xs\<close> says that the memory has the list \<open>xs\<close>. Every supported operation that the
  caller may apply ends without a fault in a memory that has the specified list, and writes only the
  words \<open>region\<close>, on which alone \<open>rep\<close> depends.
\<close>

locale intrusive_list =
  fixes rep :: "mem \<Rightarrow> addr list \<Rightarrow> bool" and E :: "addr set" and region :: "addr set"
    and supports :: "qop \<Rightarrow> bool" and exec :: "qop \<Rightarrow> mem \<Rightarrow> mem result option"
    and each :: "mem \<Rightarrow> addr list result option"
  assumes exec_rep: "rep m xs \<Longrightarrow> supports q \<Longrightarrow> qvalid E xs q \<Longrightarrow>
      \<exists>m'. exec q m = Some (Inr m') \<and> rep m' (qspec q xs) \<and> within region m m'"
    and each_rep: "rep m xs \<Longrightarrow> each m = Some (Inr xs)"
    and rep_region: "rep m xs \<Longrightarrow> (\<And>a. a \<in> region \<Longrightarrow> m' a = m a) \<Longrightarrow> rep m' xs"
begin

lemma run_rep:
  "rep m xs \<Longrightarrow> \<forall>q \<in> set qs. supports q \<Longrightarrow> all_valid E xs qs \<Longrightarrow>
   \<exists>m'. run_ops exec qs m = Some (Inr m') \<and> rep m' (fold qspec qs xs) \<and> within region m m'"
proof (induction qs arbitrary: m xs)
  case (Cons q qs)
  from exec_rep [of m xs q] Cons.prems obtain m' where
    m': "exec q m = Some (Inr m')" "rep m' (qspec q xs)" "within region m m'" by auto
  with Cons.IH [OF m'(2)] Cons.prems show ?case by (auto intro: within_trans)
qed simp

lemma run_each:
  "rep m xs \<Longrightarrow> \<forall>q \<in> set qs. supports q \<Longrightarrow> all_valid E xs qs \<Longrightarrow>
   \<exists>m'. run_ops exec qs m = Some (Inr m') \<and> each m' = Some (Inr (fold qspec qs xs)) \<and> within region m m'"
  using run_rep each_rep by blast

text \<open>What happens outside the region does not matter.\<close>

lemma elsewhere: "rep m xs \<Longrightarrow> within R m m' \<Longrightarrow> R \<inter> region = {} \<Longrightarrow> rep m' xs"
  by (erule rep_region) (auto simp: within_def)

end

end
