(* ===== verification/Queue_Single.thy ===== *)
theory Queue_Single
  imports Queue_Memory
begin

section \<open>Singly linked lists and queues\<close>

text \<open>
  The macros \<open>SLIST_X\<close>, \<open>STAILQ_X\<close> and \<open>SIMPLEQ_X\<close> of \<^verbatim>\<open>sys/queue.h\<close>, statement by statement. The head of
  an \<open>SLIST\<close> is one word; the heads of the queues have a second word with the address of the last
  link. \<open>f\<close> is the offset of the entry, the macro argument \<open>field\<close>. A macro that searches is a
  \<open>partial_function\<close>; the others are total.
\<close>

subsection \<open>Singly linked lists\<close>

definition SLIST_HEAD_INITIALIZER :: "addr \<Rightarrow> addr list" where
  "SLIST_HEAD_INITIALIZER head = [NULL]"

definition SLIST_EMPTY :: "addr \<Rightarrow> mem \<Rightarrow> bool result" where
  "SLIST_EMPTY head m = res_bind (ptr_ld m head head) (\<lambda>v. Inr (v = NULL))"

definition SLIST_FIRST :: "addr \<Rightarrow> mem \<Rightarrow> addr result" where
  "SLIST_FIRST head m = ptr_ld m head head"

definition SLIST_NEXT :: "addr \<Rightarrow> addr \<Rightarrow> mem \<Rightarrow> addr result" where
  "SLIST_NEXT f elm m = ptr_ld m elm (entry1 f elm)"

definition SLIST_INIT :: "addr \<Rightarrow> mem \<Rightarrow> mem result" where
  "SLIST_INIT head m = ptr_st m head head NULL"

definition SLIST_INSERT_AFTER :: "addr \<Rightarrow> addr \<Rightarrow> addr \<Rightarrow> mem \<Rightarrow> mem result" where
  "SLIST_INSERT_AFTER f slistelm elm m =
     res_bind (ptr_ld m slistelm (entry1 f slistelm)) (\<lambda>n.
     res_bind (ptr_st m elm (entry1 f elm) n) (\<lambda>m.
     ptr_st m slistelm (entry1 f slistelm) elm))"

definition SLIST_INSERT_HEAD :: "addr \<Rightarrow> addr \<Rightarrow> addr \<Rightarrow> mem \<Rightarrow> mem result" where
  "SLIST_INSERT_HEAD f head elm m =
     res_bind (ptr_ld m head head) (\<lambda>n.
     res_bind (ptr_st m elm (entry1 f elm) n) (\<lambda>m.
     ptr_st m head head elm))"

definition SLIST_REMOVE_HEAD :: "addr \<Rightarrow> addr \<Rightarrow> mem \<Rightarrow> mem result" where
  "SLIST_REMOVE_HEAD f head m =
     res_bind (ptr_ld m head head) (\<lambda>x.
     res_bind (ptr_ld m x (entry1 f x)) (\<lambda>n.
     ptr_st m head head n))"

text \<open>The search for the element in front of \<open>elm\<close>.\<close>

partial_function (option) find_before :: "mem \<Rightarrow> addr \<Rightarrow> addr \<Rightarrow> addr \<Rightarrow> addr result option" where
  "find_before m f elm curelm =
     (case ptr_ld m curelm (entry1 f curelm) of
        Inl e \<Rightarrow> Some (Inl e)
      | Inr n \<Rightarrow> if n \<noteq> elm then find_before m f elm n else Some (Inr curelm))"

definition SLIST_REMOVE :: "addr \<Rightarrow> addr \<Rightarrow> addr \<Rightarrow> mem \<Rightarrow> mem result option" where
  "SLIST_REMOVE f head elm m =
     (case ptr_ld m head head of
        Inl e \<Rightarrow> Some (Inl e)
      | Inr x \<Rightarrow>
          if x = elm then Some (SLIST_REMOVE_HEAD f head m)
          else Option.bind (find_before m f elm x) (\<lambda>r. Some (
            res_bind r (\<lambda>curelm.
            res_bind (ptr_ld m curelm (entry1 f curelm)) (\<lambda>x.
            res_bind (ptr_ld m x (entry1 f x)) (\<lambda>n.
            ptr_st m curelm (entry1 f curelm) n))))))"

text \<open>The elements \<open>var\<close> takes when the body leaves the list alone.\<close>

definition SLIST_FOREACH :: "addr \<Rightarrow> addr \<Rightarrow> mem \<Rightarrow> addr list result option" where
  "SLIST_FOREACH f head m =
     (case ptr_ld m head head of Inl e \<Rightarrow> Some (Inl e) | Inr x \<Rightarrow> visit m (entry1 f) NULL x)"

fun slist_exec :: "addr \<Rightarrow> addr \<Rightarrow> qop \<Rightarrow> mem \<Rightarrow> mem result option" where
  "slist_exec f head (Insert_head e) m = Some (SLIST_INSERT_HEAD f head e m)"
| "slist_exec f head (Insert_after x e) m = Some (SLIST_INSERT_AFTER f x e m)"
| "slist_exec f head (Remove e) m = SLIST_REMOVE f head e m"
| "slist_exec f head Remove_head m = Some (SLIST_REMOVE_HEAD f head m)"
| "slist_exec f head _ m = None"

subsection \<open>Singly linked tail queues\<close>

definition STAILQ_HEAD_INITIALIZER :: "addr \<Rightarrow> addr list" where
  "STAILQ_HEAD_INITIALIZER head = [NULL, head]"

definition STAILQ_EMPTY :: "addr \<Rightarrow> mem \<Rightarrow> bool result" where
  "STAILQ_EMPTY head m = res_bind (ptr_ld m head head) (\<lambda>v. Inr (v = NULL))"

definition STAILQ_FIRST :: "addr \<Rightarrow> mem \<Rightarrow> addr result" where
  "STAILQ_FIRST head m = ptr_ld m head head"

definition STAILQ_NEXT :: "addr \<Rightarrow> addr \<Rightarrow> mem \<Rightarrow> addr result" where
  "STAILQ_NEXT f elm m = ptr_ld m elm (entry1 f elm)"

definition STAILQ_INIT :: "addr \<Rightarrow> mem \<Rightarrow> mem result" where
  "STAILQ_INIT head m = res_bind (ptr_st m head head NULL) (\<lambda>m. ptr_st m head (word2 head) head)"

definition STAILQ_INSERT_HEAD :: "addr \<Rightarrow> addr \<Rightarrow> addr \<Rightarrow> mem \<Rightarrow> mem result" where
  "STAILQ_INSERT_HEAD f head elm m =
     res_bind (ptr_ld m head head) (\<lambda>n.
     res_bind (ptr_st m elm (entry1 f elm) n) (\<lambda>m.
     res_bind (if n = NULL then ptr_st m head (word2 head) (entry1 f elm) else Inr m) (\<lambda>m.
     ptr_st m head head elm)))"

definition STAILQ_INSERT_TAIL :: "addr \<Rightarrow> addr \<Rightarrow> addr \<Rightarrow> mem \<Rightarrow> mem result" where
  "STAILQ_INSERT_TAIL f head elm m =
     res_bind (ptr_st m elm (entry1 f elm) NULL) (\<lambda>m.
     res_bind (ptr_ld m head (word2 head)) (\<lambda>l.
     res_bind (ptr_st m l l elm) (\<lambda>m.
     ptr_st m head (word2 head) (entry1 f elm))))"

definition STAILQ_INSERT_AFTER :: "addr \<Rightarrow> addr \<Rightarrow> addr \<Rightarrow> addr \<Rightarrow> mem \<Rightarrow> mem result" where
  "STAILQ_INSERT_AFTER f head listelm elm m =
     res_bind (ptr_ld m listelm (entry1 f listelm)) (\<lambda>n.
     res_bind (ptr_st m elm (entry1 f elm) n) (\<lambda>m.
     res_bind (if n = NULL then ptr_st m head (word2 head) (entry1 f elm) else Inr m) (\<lambda>m.
     ptr_st m listelm (entry1 f listelm) elm)))"

definition STAILQ_REMOVE_HEAD :: "addr \<Rightarrow> addr \<Rightarrow> mem \<Rightarrow> mem result" where
  "STAILQ_REMOVE_HEAD f head m =
     res_bind (ptr_ld m head head) (\<lambda>x.
     res_bind (ptr_ld m x (entry1 f x)) (\<lambda>n.
     res_bind (ptr_st m head head n) (\<lambda>m.
     if n = NULL then ptr_st m head (word2 head) head else Inr m)))"

definition STAILQ_REMOVE :: "addr \<Rightarrow> addr \<Rightarrow> addr \<Rightarrow> mem \<Rightarrow> mem result option" where
  "STAILQ_REMOVE f head elm m =
     (case ptr_ld m head head of
        Inl e \<Rightarrow> Some (Inl e)
      | Inr x \<Rightarrow>
          if x = elm then Some (STAILQ_REMOVE_HEAD f head m)
          else Option.bind (find_before m f elm x) (\<lambda>r. Some (
            res_bind r (\<lambda>curelm.
            res_bind (ptr_ld m curelm (entry1 f curelm)) (\<lambda>x.
            res_bind (ptr_ld m x (entry1 f x)) (\<lambda>n.
            res_bind (ptr_st m curelm (entry1 f curelm) n) (\<lambda>m.
            if n = NULL then ptr_st m head (word2 head) (entry1 f curelm) else Inr m)))))))"

definition STAILQ_FOREACH :: "addr \<Rightarrow> addr \<Rightarrow> mem \<Rightarrow> addr list result option" where
  "STAILQ_FOREACH f head m =
     (case ptr_ld m head head of Inl e \<Rightarrow> Some (Inl e) | Inr x \<Rightarrow> visit m (entry1 f) NULL x)"

definition STAILQ_CONCAT :: "addr \<Rightarrow> addr \<Rightarrow> mem \<Rightarrow> mem result" where
  "STAILQ_CONCAT head1 head2 m =
     res_bind (STAILQ_EMPTY head2 m) (\<lambda>e.
     if \<not> e then
       res_bind (ptr_ld m head1 (word2 head1)) (\<lambda>l1.
       res_bind (ptr_ld m head2 head2) (\<lambda>x.
       res_bind (ptr_st m l1 l1 x) (\<lambda>m.
       res_bind (ptr_ld m head2 (word2 head2)) (\<lambda>l2.
       res_bind (ptr_st m head1 (word2 head1) l2) (\<lambda>m.
       STAILQ_INIT head2 m)))))
     else Inr m)"

fun stailq_exec :: "addr \<Rightarrow> addr \<Rightarrow> qop \<Rightarrow> mem \<Rightarrow> mem result option" where
  "stailq_exec f head (Insert_head e) m = Some (STAILQ_INSERT_HEAD f head e m)"
| "stailq_exec f head (Insert_tail e) m = Some (STAILQ_INSERT_TAIL f head e m)"
| "stailq_exec f head (Insert_after x e) m = Some (STAILQ_INSERT_AFTER f head x e m)"
| "stailq_exec f head (Remove e) m = STAILQ_REMOVE f head e m"
| "stailq_exec f head Remove_head m = Some (STAILQ_REMOVE_HEAD f head m)"
| "stailq_exec f head _ m = None"

subsection \<open>Simple queues\<close>

definition SIMPLEQ_HEAD_INITIALIZER :: "addr \<Rightarrow> addr list" where
  "SIMPLEQ_HEAD_INITIALIZER head = [NULL, head]"

definition SIMPLEQ_EMPTY :: "addr \<Rightarrow> mem \<Rightarrow> bool result" where
  "SIMPLEQ_EMPTY head m = res_bind (ptr_ld m head head) (\<lambda>v. Inr (v = NULL))"

definition SIMPLEQ_FIRST :: "addr \<Rightarrow> mem \<Rightarrow> addr result" where
  "SIMPLEQ_FIRST head m = ptr_ld m head head"

definition SIMPLEQ_NEXT :: "addr \<Rightarrow> addr \<Rightarrow> mem \<Rightarrow> addr result" where
  "SIMPLEQ_NEXT f elm m = ptr_ld m elm (entry1 f elm)"

definition SIMPLEQ_INIT :: "addr \<Rightarrow> mem \<Rightarrow> mem result" where
  "SIMPLEQ_INIT head m = res_bind (ptr_st m head head NULL) (\<lambda>m. ptr_st m head (word2 head) head)"

definition SIMPLEQ_INSERT_HEAD :: "addr \<Rightarrow> addr \<Rightarrow> addr \<Rightarrow> mem \<Rightarrow> mem result" where
  "SIMPLEQ_INSERT_HEAD f head elm m =
     res_bind (ptr_ld m head head) (\<lambda>n.
     res_bind (ptr_st m elm (entry1 f elm) n) (\<lambda>m.
     res_bind (if n = NULL then ptr_st m head (word2 head) (entry1 f elm) else Inr m) (\<lambda>m.
     ptr_st m head head elm)))"

definition SIMPLEQ_INSERT_TAIL :: "addr \<Rightarrow> addr \<Rightarrow> addr \<Rightarrow> mem \<Rightarrow> mem result" where
  "SIMPLEQ_INSERT_TAIL f head elm m =
     res_bind (ptr_st m elm (entry1 f elm) NULL) (\<lambda>m.
     res_bind (ptr_ld m head (word2 head)) (\<lambda>l.
     res_bind (ptr_st m l l elm) (\<lambda>m.
     ptr_st m head (word2 head) (entry1 f elm))))"

definition SIMPLEQ_INSERT_AFTER :: "addr \<Rightarrow> addr \<Rightarrow> addr \<Rightarrow> addr \<Rightarrow> mem \<Rightarrow> mem result" where
  "SIMPLEQ_INSERT_AFTER f head listelm elm m =
     res_bind (ptr_ld m listelm (entry1 f listelm)) (\<lambda>n.
     res_bind (ptr_st m elm (entry1 f elm) n) (\<lambda>m.
     res_bind (if n = NULL then ptr_st m head (word2 head) (entry1 f elm) else Inr m) (\<lambda>m.
     ptr_st m listelm (entry1 f listelm) elm)))"

definition SIMPLEQ_REMOVE_HEAD :: "addr \<Rightarrow> addr \<Rightarrow> mem \<Rightarrow> mem result" where
  "SIMPLEQ_REMOVE_HEAD f head m =
     res_bind (ptr_ld m head head) (\<lambda>x.
     res_bind (ptr_ld m x (entry1 f x)) (\<lambda>n.
     res_bind (ptr_st m head head n) (\<lambda>m.
     if n = NULL then ptr_st m head (word2 head) head else Inr m)))"

definition SIMPLEQ_REMOVE :: "addr \<Rightarrow> addr \<Rightarrow> addr \<Rightarrow> mem \<Rightarrow> mem result option" where
  "SIMPLEQ_REMOVE f head elm m =
     (case ptr_ld m head head of
        Inl e \<Rightarrow> Some (Inl e)
      | Inr x \<Rightarrow>
          if x = elm then Some (SIMPLEQ_REMOVE_HEAD f head m)
          else Option.bind (find_before m f elm x) (\<lambda>r. Some (
            res_bind r (\<lambda>curelm.
            res_bind (ptr_ld m curelm (entry1 f curelm)) (\<lambda>x.
            res_bind (ptr_ld m x (entry1 f x)) (\<lambda>n.
            res_bind (ptr_st m curelm (entry1 f curelm) n) (\<lambda>m.
            if n = NULL then ptr_st m head (word2 head) (entry1 f curelm) else Inr m)))))))"

definition SIMPLEQ_FOREACH :: "addr \<Rightarrow> addr \<Rightarrow> mem \<Rightarrow> addr list result option" where
  "SIMPLEQ_FOREACH f head m =
     (case ptr_ld m head head of Inl e \<Rightarrow> Some (Inl e) | Inr x \<Rightarrow> visit m (entry1 f) NULL x)"

fun simpleq_exec :: "addr \<Rightarrow> addr \<Rightarrow> qop \<Rightarrow> mem \<Rightarrow> mem result option" where
  "simpleq_exec f head (Insert_head e) m = Some (SIMPLEQ_INSERT_HEAD f head e m)"
| "simpleq_exec f head (Insert_tail e) m = Some (SIMPLEQ_INSERT_TAIL f head e m)"
| "simpleq_exec f head (Insert_after x e) m = Some (SIMPLEQ_INSERT_AFTER f head x e m)"
| "simpleq_exec f head (Remove e) m = SIMPLEQ_REMOVE f head e m"
| "simpleq_exec f head Remove_head m = Some (SIMPLEQ_REMOVE_HEAD f head m)"
| "simpleq_exec f head _ m = None"

subsection \<open>Shapes\<close>

definition slist :: "addr \<Rightarrow> addr \<Rightarrow> addr set \<Rightarrow> mem \<Rightarrow> addr list \<Rightarrow> bool" where
  "slist f head E m xs \<longleftrightarrow> forward f head E m xs"

definition stailq :: "addr \<Rightarrow> addr \<Rightarrow> addr set \<Rightarrow> mem \<Rightarrow> addr list \<Rightarrow> bool" where
  "stailq f head E m xs \<longleftrightarrow>
     forward f head E m xs \<and> word2 head \<notin> entry1 f ` E \<and> m (word2 head) = Some (last_word f head xs)"

abbreviation stailq_words :: "addr \<Rightarrow> addr \<Rightarrow> addr set \<Rightarrow> addr set" where
  "stailq_words f head E \<equiv> insert (word2 head) (words1 f head E)"

fun slist_supports :: "qop \<Rightarrow> bool" where
  "slist_supports (Insert_tail _) = False"
| "slist_supports (Insert_before _ _) = False"
| "slist_supports _ = True"

fun stailq_supports :: "qop \<Rightarrow> bool" where
  "stailq_supports (Insert_before _ _) = False"
| "stailq_supports _ = True"

subsection \<open>Searching\<close>

lemma find_before_links:
  assumes "links m f p (ps @ c # x # zs)" and "m p = Some v" and "NULL \<notin> set (ps @ [c])" and "x \<notin> set (ps @ [c])"
  shows "find_before m f x v = Some (Inr c)"
  using assms
proof (induction ps arbitrary: p v)
  case Nil
  then show ?case by (subst find_before.simps) auto
next
  case (Cons y ps)
  obtain n where n: "m (entry1 f y) = Some n" "n \<in> set (ps @ [c])" using Cons.prems by (cases ps) auto
  have "find_before m f x n = Some (Inr c)"
    using Cons.prems n by (intro Cons.IH [of "entry1 f y"]) simp_all
  moreover have "v = y" "y \<noteq> NULL" "n \<noteq> x" using Cons.prems n by auto
  ultimately show ?case using n by (subst find_before.simps) simp
qed

text \<open>An element that is not in the list makes the search dereference the null pointer at its end.\<close>

lemma find_before_absent:
  assumes "links m f p xs" and "m p = Some (first_of xs)" and "m (last_word f p xs) = Some NULL"
    and "NULL \<notin> set xs" and "x \<notin> set xs" and "x \<noteq> NULL"
  shows "find_before m f x (first_of xs) = Some (Inl NullDeref)"
  using assms
proof (induction xs arbitrary: p)
  case Nil
  then show ?case by (subst find_before.simps) simp
next
  case (Cons y xs)
  have n: "m (entry1 f y) = Some (first_of xs)" using Cons.prems by (cases xs) auto
  moreover have "find_before m f x (first_of xs) = Some (Inl NullDeref)"
    using Cons.prems n by (intro Cons.IH [of "entry1 f y"]) simp_all
  moreover have "first_of xs \<noteq> x" "y \<noteq> NULL" using Cons.prems by (cases xs; auto)+
  ultimately show ?case by (subst find_before.simps) simp
qed

lemma forward_find_before:
  assumes "forward f head E m (ps @ c # x # zs)"
  shows "find_before m f x (first_of (ps @ c # x # zs)) = Some (Inr c)" and "first_of (ps @ c # x # zs) \<noteq> x"
proof -
  note h = forward_head [OF assms]
  show "first_of (ps @ c # x # zs) \<noteq> x" using h(5) by (cases ps) auto
  show "find_before m f x (first_of (ps @ c # x # zs)) = Some (Inr c)"
    using assms h by (intro find_before_links [of m f head ps c x zs]) (auto simp: forward_to_def chain_def)
qed

lemma forward_find_absent:
  assumes "forward f head E m xs" and "x \<notin> set xs" and "x \<noteq> NULL"
  shows "find_before m f x (first_of xs) = Some (Inl NullDeref)" and "first_of xs \<noteq> x"
proof -
  note h = forward_head [OF assms(1)]
  show "first_of xs \<noteq> x" using assms(2,3) by (cases xs) auto
  show "find_before m f x (first_of xs) = Some (Inl NullDeref)"
    using assms h by (intro find_before_absent [of m f head]) (auto simp: forward_to_def chain_def)
qed

subsection \<open>Lists\<close>

text \<open>The memory after each macro.\<close>

lemma SLIST_INSERT_HEAD_mem:
  assumes "forward f head E m xs" and "e \<in> E"
  shows "SLIST_INSERT_HEAD f head e m = Inr (m(entry1 f e \<mapsto> first_of xs, head \<mapsto> e))"
  using forward_head [OF assms(1)] forward_pool [OF assms] by (simp add: SLIST_INSERT_HEAD_def)

lemma SLIST_INSERT_AFTER_mem:
  assumes "forward f head E m (ps @ x # zs)" and "e \<in> E"
  shows "SLIST_INSERT_AFTER f x e m = Inr (m(entry1 f e \<mapsto> first_of zs, entry1 f x \<mapsto> e))"
  using forward_elem [OF assms(1)] forward_pool [OF assms] by (simp add: SLIST_INSERT_AFTER_def)

lemma SLIST_REMOVE_HEAD_mem:
  assumes "forward f head E m (x # zs)"
  shows "SLIST_REMOVE_HEAD f head m = Inr (m(head \<mapsto> first_of zs))"
  using forward_head [OF assms] forward_elem [of NULL f head E m "[]" x zs] assms by (simp add: SLIST_REMOVE_HEAD_def)

lemma SLIST_REMOVE_mem:
  assumes "forward f head E m (ps @ x # zs)"
  shows "SLIST_REMOVE f head x m = Some (Inr (m(last_word f head ps \<mapsto> first_of zs)))"
proof (cases ps rule: rev_cases)
  case Nil
  with forward_head [OF assms] SLIST_REMOVE_HEAD_mem [of f head E m x zs] assms show ?thesis
    by (simp add: SLIST_REMOVE_def)
next
  case (snoc qs c)
  then have fw: "forward f head E m (qs @ c # x # zs)" using assms by simp
  note h = forward_head [OF fw] and c = forward_elem [OF fw] and x = forward_elem [OF assms]
  from h c x forward_find_before [OF fw] snoc show ?thesis by (simp add: SLIST_REMOVE_def)
qed

lemma SLIST_REMOVE_absent:
  assumes "forward f head E m xs" and "x \<notin> set xs" and "x \<noteq> NULL"
  shows "SLIST_REMOVE f head x m = Some (Inl NullDeref)"
  using forward_head [OF assms(1)] forward_find_absent [OF assms] by (simp add: SLIST_REMOVE_def)

lemma SLIST_FOREACH_list: "forward f head E m xs \<Longrightarrow> SLIST_FOREACH f head m = Some (Inr xs)"
  using visit_forward [of f head E m xs] forward_head [of NULL f head E m xs] by (simp add: SLIST_FOREACH_def)

subsection \<open>Queues\<close>

lemma stailqD:
  assumes "stailq f head E m xs"
  shows "forward f head E m xs" "word2 head \<notin> entry1 f ` E" "m (word2 head) = Some (last_word f head xs)"
    "word2 head \<in> dom m" "e \<in> E \<Longrightarrow> entry1 f e \<noteq> word2 head" "e \<in> E \<Longrightarrow> word2 head \<noteq> entry1 f e"
proof -
  show q: "forward f head E m xs" "word2 head \<notin> entry1 f ` E" "m (word2 head) = Some (last_word f head xs)"
    using assms by (simp_all add: stailq_def)
  then show "word2 head \<in> dom m" by blast
  from q(2) show "e \<in> E \<Longrightarrow> entry1 f e \<noteq> word2 head" "e \<in> E \<Longrightarrow> word2 head \<noteq> entry1 f e" by (metis imageI)+
qed

lemma stailq_word:
  assumes "stailq f head E m (ps @ zs)"
  shows "last_word f head ps \<noteq> word2 head" "word2 head \<noteq> last_word f head ps"
  using forward_word(3) [OF stailqD(1) [OF assms]] stailqD(2) [OF assms] word2_neq by metis+

lemma stailq_insert:
  assumes "stailq f head E m (ps @ zs)" and "e \<in> E" and "e \<notin> set (ps @ zs)"
  shows "stailq f head E
    ((if zs = [] then m(entry1 f e \<mapsto> first_of zs, word2 head \<mapsto> entry1 f e) else m(entry1 f e \<mapsto> first_of zs))
      (last_word f head ps \<mapsto> e)) (ps @ e # zs)"
proof -
  note q = stailqD [OF assms(1)]
  let ?m = "m(entry1 f e \<mapsto> first_of zs, last_word f head ps \<mapsto> e)"
  have fw: "forward f head E ?m (ps @ e # zs)" using forward_insert [OF q(1) assms(2,3)] .
  note w = stailq_word [OF assms(1)]
  have tw: "m(entry1 f e \<mapsto> n, word2 head \<mapsto> v, last_word f head ps \<mapsto> e) =
      m(entry1 f e \<mapsto> n, last_word f head ps \<mapsto> e, word2 head \<mapsto> v)" for n v
    using w by (simp add: fun_upd_twist)
  show ?thesis
  proof (cases "zs = []")
    case True
    from forward_upd [OF fw, of "word2 head" "entry1 f e"] q(2) True show ?thesis by (simp add: stailq_def tw)
  next
    case False
    with fw q(2,3) q(6) [OF assms(2)] w show ?thesis by (simp add: stailq_def last_word_insert del: last_word_append)
  qed
qed

lemma stailq_remove:
  assumes "stailq f head E m (ps @ x # zs)"
  shows "stailq f head E
    (if zs = [] then m(last_word f head ps \<mapsto> first_of zs, word2 head \<mapsto> last_word f head ps)
     else m(last_word f head ps \<mapsto> first_of zs)) (ps @ zs)"
proof -
  note q = stailqD [OF assms] and w = stailq_word [OF assms]
  have fw: "forward f head E (m(last_word f head ps \<mapsto> first_of zs)) (ps @ zs)" using forward_remove [OF q(1)] .
  show ?thesis
  proof (cases "zs = []")
    case True
    from forward_upd [OF fw, of "word2 head" "last_word f head ps"] q(2) True show ?thesis by (simp add: stailq_def)
  next
    case False
    with fw q(2,3) w last_word_remove [of f head ps zs x] show ?thesis
      by (simp add: stailq_def del: last_word_append)
  qed
qed

lemma STAILQ_INSERT_HEAD_ok:
  assumes "stailq f head E m xs" and "e \<in> E" and "e \<notin> set xs"
  shows "\<exists>m'. STAILQ_INSERT_HEAD f head e m = Inr m' \<and> stailq f head E m' (e # xs) \<and>
    within (stailq_words f head E) m m'"
proof -
  note q = stailqD [OF assms(1)]
  note h = forward_head [OF q(1)] and e = forward_pool [OF q(1) assms(2)] and r = forward_rest [of f head E m "[]" xs]
  from stailq_insert [of f head E m "[]" xs e] assms h e q r show ?thesis
    by (simp add: STAILQ_INSERT_HEAD_def split: if_splits)
qed

lemma STAILQ_INSERT_AFTER_ok:
  assumes "stailq f head E m (ps @ x # zs)" and "e \<in> E" and "e \<notin> set (ps @ x # zs)"
  shows "\<exists>m'. STAILQ_INSERT_AFTER f head x e m = Inr m' \<and> stailq f head E m' (ps @ x # e # zs) \<and>
    within (stailq_words f head E) m m'"
proof -
  note q = stailqD [OF assms(1)]
  note h = forward_head [OF q(1)] and e = forward_pool [OF q(1) assms(2)] and x = forward_elem [OF q(1)]
    and r = forward_rest [of f head E m "ps @ [x]" zs]
  from stailq_insert [of f head E m "ps @ [x]" zs e] assms h e q r x show ?thesis
    by (simp add: STAILQ_INSERT_AFTER_def split: if_splits)
qed

lemma STAILQ_INSERT_TAIL_ok:
  assumes "stailq f head E m xs" and "e \<in> E" and "e \<notin> set xs"
  shows "\<exists>m'. STAILQ_INSERT_TAIL f head e m = Inr m' \<and> stailq f head E m' (xs @ [e]) \<and>
    within (stailq_words f head E) m m'"
proof -
  note q = stailqD [OF assms(1)]
  note h = forward_head [OF q(1)] and e = forward_pool [OF q(1) assms(2)]
    and w = forward_word [of NULL f head E m xs "[]"] stailq_word [of f head E m xs "[]"]
  have "stailq f head E (m(entry1 f e \<mapsto> NULL, word2 head \<mapsto> entry1 f e, last_word f head xs \<mapsto> e)) (xs @ [e])"
    using stailq_insert [of f head E m xs "[]" e] assms by simp
  moreover have "m(entry1 f e \<mapsto> NULL, word2 head \<mapsto> entry1 f e, last_word f head xs \<mapsto> e) =
      m(entry1 f e \<mapsto> NULL, last_word f head xs \<mapsto> e, word2 head \<mapsto> entry1 f e)"
    using w assms(1) by (simp add: fun_upd_twist)
  ultimately show ?thesis using h e q w assms by (simp add: STAILQ_INSERT_TAIL_def)
qed

lemma STAILQ_REMOVE_HEAD_ok:
  assumes "stailq f head E m (x # zs)"
  shows "\<exists>m'. STAILQ_REMOVE_HEAD f head m = Inr m' \<and> stailq f head E m' zs \<and>
    within (stailq_words f head E) m m'"
proof -
  note q = stailqD [OF assms(1)]
  note h = forward_head [OF q(1)] and x = forward_elem [of NULL f head E m "[]" x zs]
    and r = forward_rest [of f head E m "[x]" zs]
  from stailq_remove [of f head E m "[]" x zs] assms h q r x show ?thesis
    by (simp add: STAILQ_REMOVE_HEAD_def split: if_splits)
qed

lemma STAILQ_REMOVE_ok:
  assumes "stailq f head E m (ps @ x # zs)"
  shows "\<exists>m'. STAILQ_REMOVE f head x m = Some (Inr m') \<and> stailq f head E m' (ps @ zs) \<and>
    within (stailq_words f head E) m m'"
proof (cases ps rule: rev_cases)
  case Nil
  with forward_head [OF stailqD(1) [OF assms]] STAILQ_REMOVE_HEAD_ok [of f head E m x zs] assms show ?thesis
    by (auto simp: STAILQ_REMOVE_def)
next
  case (snoc qs c)
  note q = stailqD [OF assms]
  have fw: "forward f head E m (qs @ c # x # zs)" using q(1) snoc by simp
  note h = forward_head [OF fw] and c = forward_elem [OF fw] and x = forward_elem [OF q(1)]
    and r = forward_rest [of f head E m "qs @ [c, x]" zs]
  from stailq_remove [OF assms] h c x q r forward_find_before [OF fw] snoc show ?thesis
    by (simp add: STAILQ_REMOVE_def split: if_splits)
qed

lemma STAILQ_REMOVE_absent:
  assumes "stailq f head E m xs" and "x \<notin> set xs" and "x \<noteq> NULL"
  shows "STAILQ_REMOVE f head x m = Some (Inl NullDeref)"
  using forward_head [OF stailqD(1) [OF assms(1)]] forward_find_absent [OF stailqD(1) [OF assms(1)] assms(2,3)]
  by (simp add: STAILQ_REMOVE_def)

lemma STAILQ_FOREACH_list: "stailq f head E m xs \<Longrightarrow> STAILQ_FOREACH f head m = Some (Inr xs)"
  using visit_forward [of f head E m xs] forward_head [of NULL f head E m xs] by (simp add: stailq_def STAILQ_FOREACH_def)

subsection \<open>The contract\<close>

lemma slist_exec_rep:
  assumes "slist f head E m xs" and "slist_supports q" and "qvalid E xs q"
  shows "\<exists>m'. slist_exec f head q m = Some (Inr m') \<and> slist f head E m' (qspec q xs) \<and> within (words1 f head E) m m'"
proof -
  have fw: "forward f head E m xs" using assms(1) by (simp add: slist_def)
  show ?thesis
  proof (cases q)
    case (Insert_head e)
    with assms fw forward_insert [of NULL f head E m "[]" xs e] show ?thesis
      by (simp add: SLIST_INSERT_HEAD_mem slist_def)
  next
    case (Insert_after x e)
    with assms obtain ps zs where xs: "xs = ps @ x # zs" "x \<notin> set ps" by (auto dest: split_list_first)
    note x = forward_elem [OF fw [unfolded xs]]
    from Insert_after assms fw xs x forward_insert [of NULL f head E m "ps @ [x]" zs e] show ?thesis
      by (simp add: SLIST_INSERT_AFTER_mem slist_def put_after_split)
  next
    case (Remove x)
    with assms obtain ps zs where xs: "xs = ps @ x # zs" "x \<notin> set ps" by (auto dest: split_list_first)
    from Remove fw xs forward_remove [of NULL f head E m ps x zs] forward_word [of NULL f head E m ps "x # zs"] show ?thesis
      by (simp add: SLIST_REMOVE_mem slist_def remove1_split)
  next
    case Remove_head
    with assms obtain x zs where "xs = x # zs" by (cases xs) auto
    with Remove_head fw forward_remove [of NULL f head E m "[]" x zs] show ?thesis
      by (simp add: SLIST_REMOVE_HEAD_mem slist_def)
  qed (use assms in auto)
qed

interpretation sl: intrusive_list "slist f head E" E "words1 f head E" slist_supports "slist_exec f head" "SLIST_FOREACH f head"
  for f head E
proof unfold_locales
  fix m m' xs assume "slist f head E m xs" "\<And>a. a \<in> words1 f head E \<Longrightarrow> m' a = m a"
  then show "slist f head E m' xs" using forward_agree [of NULL f head E m xs m'] by (simp add: slist_def)
qed (simp_all add: slist_exec_rep, simp add: slist_def SLIST_FOREACH_list)

lemma stailq_exec_rep:
  assumes "stailq f head E m xs" and "stailq_supports q" and "qvalid E xs q"
  shows "\<exists>m'. stailq_exec f head q m = Some (Inr m') \<and> stailq f head E m' (qspec q xs) \<and> within (stailq_words f head E) m m'"
proof (cases q)
  case (Insert_head e)
  with assms STAILQ_INSERT_HEAD_ok [of f head E m xs e] show ?thesis by auto
next
  case (Insert_tail e)
  with assms STAILQ_INSERT_TAIL_ok [of f head E m xs e] show ?thesis by auto
next
  case (Insert_after x e)
  with assms obtain ps zs where xs: "xs = ps @ x # zs" "x \<notin> set ps" by (auto dest: split_list_first)
  with Insert_after assms STAILQ_INSERT_AFTER_ok [of f head E m ps x zs e] show ?thesis by (auto simp: put_after_split)
next
  case (Remove x)
  with assms obtain ps zs where xs: "xs = ps @ x # zs" "x \<notin> set ps" by (auto dest: split_list_first)
  with Remove assms STAILQ_REMOVE_ok [of f head E m ps x zs] show ?thesis by (auto simp: remove1_split)
next
  case Remove_head
  with assms obtain x zs where "xs = x # zs" by (cases xs) auto
  with Remove_head assms STAILQ_REMOVE_HEAD_ok [of f head E m x zs] show ?thesis by auto
qed (use assms in auto)

interpretation sq: intrusive_list "stailq f head E" E "stailq_words f head E" stailq_supports "stailq_exec f head"
    "STAILQ_FOREACH f head" for f head E
proof unfold_locales
  fix m m' xs assume "stailq f head E m xs" "\<And>a. a \<in> stailq_words f head E \<Longrightarrow> m' a = m a"
  then show "stailq f head E m' xs" using forward_agree [of NULL f head E m xs m'] by (simp add: stailq_def)
qed (simp_all add: stailq_exec_rep STAILQ_FOREACH_list)

subsection \<open>Initialisation and concatenation\<close>

lemma SLIST_INIT_ok: "room f head E m \<Longrightarrow> SLIST_INIT head m = Inr (m(head \<mapsto> NULL)) \<and> slist f head E (m(head \<mapsto> NULL)) []"
  using forward_init [of f head E m NULL] by (simp add: SLIST_INIT_def slist_def room_def)

lemma STAILQ_INIT_ok:
  assumes "room_q f head E m"
  shows "STAILQ_INIT head m = Inr (m(head \<mapsto> NULL, word2 head \<mapsto> head))"
    and "stailq f head E (m(head \<mapsto> NULL, word2 head \<mapsto> head)) []"
  using assms forward_upd [OF forward_init [of f head E m NULL], of "word2 head" head]
  by (simp_all add: STAILQ_INIT_def stailq_def room_q_def room_def)

lemma STAILQ_CONCAT_ok:
  assumes q1: "stailq f h1 E m xs" and q2: "stailq f h2 E m ys" and d: "set xs \<inter> set ys = {}"
    and ap: "{h1, word2 h1} \<inter> {h2, word2 h2} = {}"
  shows "\<exists>m'. STAILQ_CONCAT h1 h2 m = Inr m' \<and> stailq f h1 E m' (xs @ ys) \<and> stailq f h2 E m' []"
proof (cases "ys = []")
  case True
  with q1 q2 forward_head [OF stailqD(1) [OF q2]] show ?thesis
    by (simp add: STAILQ_CONCAT_def STAILQ_EMPTY_def)
next
  case False
  note a = stailqD [OF q1] and b = stailqD [OF q2]
  note h1 = forward_head [OF a(1)] and h2 = forward_head [OF b(1)]
    and w = forward_word [of NULL f h1 E m xs "[]"] stailq_word [of f h1 E m xs "[]"]
  have ne: "first_of ys \<noteq> NULL" using forward_rest [of f h2 E m "[]" ys] b(1) False by simp
  have l1: "last_word f h1 xs \<noteq> h2" "last_word f h1 xs \<noteq> word2 h2"
    using w(3) a(1) ap b(5) forward_pool(3) [OF b(1)] by fastforce+
  let ?m1 = "m(last_word f h1 xs \<mapsto> first_of ys)"
  let ?m = "?m1(word2 h1 \<mapsto> last_word f h2 ys, h2 \<mapsto> NULL, word2 h2 \<mapsto> h2)"
  have lw: "last_word f h1 (xs @ ys) = last_word f h2 ys" using False by (simp add: last_word_nonempty)
  have "forward f h1 E ?m1 (xs @ ys)" using forward_concat [OF a(1) b(1) d False] .
  then have "forward f h1 E ?m (xs @ ys)"
    using ap a(2) b(2) forward_pool(3) [OF b(1)]
    by (intro forward_upd [OF forward_upd [OF forward_upd]]) auto
  then have r1: "stailq f h1 E ?m (xs @ ys)" using a(2) ap lw by (auto simp: stailq_def)
  have "room f h2 E ?m1" using b(1) w(2) a(1) by (simp add: forward_to_def)
  then have "room_q f h2 E (?m1(word2 h1 \<mapsto> last_word f h2 ys))" using a(4) b(2,4) by (simp add: room_q_def)
  from STAILQ_INIT_ok [OF this] r1 have i: "STAILQ_INIT h2 (?m1(word2 h1 \<mapsto> last_word f h2 ys)) = Inr ?m"
    and r2: "stailq f h2 E ?m []" by simp_all
  from i r1 r2 h1 h2 w a b ne l1 ap show ?thesis by (simp add: STAILQ_CONCAT_def STAILQ_EMPTY_def)
qed

text \<open>The simple queue is the tail queue under other names, without concatenation.\<close>

lemma simpleq_stailq:
  "SIMPLEQ_INIT = STAILQ_INIT" "SIMPLEQ_INSERT_HEAD = STAILQ_INSERT_HEAD" "SIMPLEQ_INSERT_TAIL = STAILQ_INSERT_TAIL"
  "SIMPLEQ_INSERT_AFTER = STAILQ_INSERT_AFTER" "SIMPLEQ_REMOVE_HEAD = STAILQ_REMOVE_HEAD" "SIMPLEQ_REMOVE = STAILQ_REMOVE"
  "SIMPLEQ_FOREACH = STAILQ_FOREACH" "SIMPLEQ_EMPTY = STAILQ_EMPTY" "SIMPLEQ_FIRST = STAILQ_FIRST" "SIMPLEQ_NEXT = STAILQ_NEXT"
proof -
  show h: "SIMPLEQ_REMOVE_HEAD = STAILQ_REMOVE_HEAD"
    by (intro ext) (simp add: SIMPLEQ_REMOVE_HEAD_def STAILQ_REMOVE_HEAD_def)
  show "SIMPLEQ_REMOVE = STAILQ_REMOVE"
    unfolding SIMPLEQ_REMOVE_def STAILQ_REMOVE_def h fun_eq_iff by simp
qed (intro ext, simp add: SIMPLEQ_INIT_def STAILQ_INIT_def SIMPLEQ_INSERT_HEAD_def STAILQ_INSERT_HEAD_def
    SIMPLEQ_INSERT_TAIL_def STAILQ_INSERT_TAIL_def SIMPLEQ_INSERT_AFTER_def STAILQ_INSERT_AFTER_def
    SIMPLEQ_FOREACH_def STAILQ_FOREACH_def SIMPLEQ_EMPTY_def STAILQ_EMPTY_def SIMPLEQ_FIRST_def STAILQ_FIRST_def
    SIMPLEQ_NEXT_def STAILQ_NEXT_def)+

lemma simpleq_exec: "simpleq_exec f head q m = stailq_exec f head q m"
  by (cases q) (simp_all add: simpleq_stailq)

interpretation mq: intrusive_list "stailq f head E" E "stailq_words f head E" stailq_supports "simpleq_exec f head"
    "SIMPLEQ_FOREACH f head" for f head E
proof unfold_locales
  fix m m' xs assume "stailq f head E m xs" "\<And>a. a \<in> stailq_words f head E \<Longrightarrow> m' a = m a"
  then show "stailq f head E m' xs" by (rule sq.rep_region)
qed (simp_all add: simpleq_exec simpleq_stailq stailq_exec_rep STAILQ_FOREACH_list)

end
