(* ===== verification/Queue_Double.thy ===== *)
theory Queue_Double
  imports Queue_Memory
begin

section \<open>Lists and tail queues\<close>

text \<open>
  The macros \<open>LIST_X\<close> and \<open>TAILQ_X\<close> of \<^verbatim>\<open>sys/queue.h\<close>, statement by statement. The second word of an
  entry has the address of the word that points to the element. The macros that go backwards in a tail
  queue take an entry or a head for a head, since both begin with the same two words; here this is the
  address of the second word, \<open>word2\<close>, whatever structure it belongs to.
\<close>

subsection \<open>Lists\<close>

definition LIST_HEAD_INITIALIZER :: "addr \<Rightarrow> addr list" where
  "LIST_HEAD_INITIALIZER head = [NULL]"

definition LIST_EMPTY :: "addr \<Rightarrow> mem \<Rightarrow> bool result" where
  "LIST_EMPTY head m = res_bind (ptr_ld m head head) (\<lambda>v. Inr (v = NULL))"

definition LIST_FIRST :: "addr \<Rightarrow> mem \<Rightarrow> addr result" where
  "LIST_FIRST head m = ptr_ld m head head"

definition LIST_NEXT :: "addr \<Rightarrow> addr \<Rightarrow> mem \<Rightarrow> addr result" where
  "LIST_NEXT f elm m = ptr_ld m elm (entry1 f elm)"

definition LIST_INIT :: "addr \<Rightarrow> mem \<Rightarrow> mem result" where
  "LIST_INIT head m = ptr_st m head head NULL"

definition LIST_INSERT_AFTER :: "addr \<Rightarrow> addr \<Rightarrow> addr \<Rightarrow> mem \<Rightarrow> mem result" where
  "LIST_INSERT_AFTER f listelm elm m =
     res_bind (ptr_ld m listelm (entry1 f listelm)) (\<lambda>n.
     res_bind (ptr_st m elm (entry1 f elm) n) (\<lambda>m.
     res_bind (if n \<noteq> NULL then
                 res_bind (ptr_ld m listelm (entry1 f listelm)) (\<lambda>y. ptr_st m y (entry2 f y) (entry1 f elm))
               else Inr m) (\<lambda>m.
     res_bind (ptr_st m listelm (entry1 f listelm) elm) (\<lambda>m.
     ptr_st m elm (entry2 f elm) (entry1 f listelm)))))"

definition LIST_INSERT_BEFORE :: "addr \<Rightarrow> addr \<Rightarrow> addr \<Rightarrow> mem \<Rightarrow> mem result" where
  "LIST_INSERT_BEFORE f listelm elm m =
     res_bind (ptr_ld m listelm (entry2 f listelm)) (\<lambda>p.
     res_bind (ptr_st m elm (entry2 f elm) p) (\<lambda>m.
     res_bind (ptr_st m elm (entry1 f elm) listelm) (\<lambda>m.
     res_bind (ptr_ld m listelm (entry2 f listelm)) (\<lambda>p.
     res_bind (ptr_st m p p elm) (\<lambda>m.
     ptr_st m listelm (entry2 f listelm) (entry1 f elm))))))"

definition LIST_INSERT_HEAD :: "addr \<Rightarrow> addr \<Rightarrow> addr \<Rightarrow> mem \<Rightarrow> mem result" where
  "LIST_INSERT_HEAD f head elm m =
     res_bind (ptr_ld m head head) (\<lambda>n.
     res_bind (ptr_st m elm (entry1 f elm) n) (\<lambda>m.
     res_bind (if n \<noteq> NULL then
                 res_bind (ptr_ld m head head) (\<lambda>y. ptr_st m y (entry2 f y) (entry1 f elm))
               else Inr m) (\<lambda>m.
     res_bind (ptr_st m head head elm) (\<lambda>m.
     ptr_st m elm (entry2 f elm) head))))"

definition LIST_REMOVE :: "addr \<Rightarrow> addr \<Rightarrow> mem \<Rightarrow> mem result" where
  "LIST_REMOVE f elm m =
     res_bind (ptr_ld m elm (entry1 f elm)) (\<lambda>n.
     res_bind (if n \<noteq> NULL then
                 res_bind (ptr_ld m elm (entry2 f elm)) (\<lambda>p. ptr_st m n (entry2 f n) p)
               else Inr m) (\<lambda>m.
     res_bind (ptr_ld m elm (entry1 f elm)) (\<lambda>n.
     res_bind (ptr_ld m elm (entry2 f elm)) (\<lambda>p.
     ptr_st m p p n))))"

definition LIST_FOREACH :: "addr \<Rightarrow> addr \<Rightarrow> mem \<Rightarrow> addr list result option" where
  "LIST_FOREACH f head m =
     (case ptr_ld m head head of Inl e \<Rightarrow> Some (Inl e) | Inr x \<Rightarrow> visit m (entry1 f) NULL x)"

fun list_exec :: "addr \<Rightarrow> addr \<Rightarrow> qop \<Rightarrow> mem \<Rightarrow> mem result option" where
  "list_exec f head (Insert_head e) m = Some (LIST_INSERT_HEAD f head e m)"
| "list_exec f head (Insert_after x e) m = Some (LIST_INSERT_AFTER f x e m)"
| "list_exec f head (Insert_before x e) m = Some (LIST_INSERT_BEFORE f x e m)"
| "list_exec f head (Remove e) m = Some (LIST_REMOVE f e m)"
| "list_exec f head _ m = None"

subsection \<open>Tail queues\<close>

definition TAILQ_HEAD_INITIALIZER :: "addr \<Rightarrow> addr list" where
  "TAILQ_HEAD_INITIALIZER head = [NULL, head]"

definition TAILQ_EMPTY :: "addr \<Rightarrow> mem \<Rightarrow> bool result" where
  "TAILQ_EMPTY head m = res_bind (ptr_ld m head head) (\<lambda>v. Inr (v = NULL))"

definition TAILQ_FIRST :: "addr \<Rightarrow> mem \<Rightarrow> addr result" where
  "TAILQ_FIRST head m = ptr_ld m head head"

definition TAILQ_NEXT :: "addr \<Rightarrow> addr \<Rightarrow> mem \<Rightarrow> addr result" where
  "TAILQ_NEXT f elm m = ptr_ld m elm (entry1 f elm)"

definition TAILQ_LAST :: "addr \<Rightarrow> mem \<Rightarrow> addr result" where
  "TAILQ_LAST head m =
     res_bind (ptr_ld m head (word2 head)) (\<lambda>l.
     res_bind (ptr_ld m l (word2 l)) (\<lambda>p.
     ptr_ld m p p))"

definition TAILQ_PREV :: "addr \<Rightarrow> addr \<Rightarrow> mem \<Rightarrow> addr result" where
  "TAILQ_PREV f elm m =
     res_bind (ptr_ld m elm (entry2 f elm)) (\<lambda>l.
     res_bind (ptr_ld m l (word2 l)) (\<lambda>p.
     ptr_ld m p p))"

definition TAILQ_INIT :: "addr \<Rightarrow> mem \<Rightarrow> mem result" where
  "TAILQ_INIT head m = res_bind (ptr_st m head head NULL) (\<lambda>m. ptr_st m head (word2 head) head)"

definition TAILQ_INSERT_HEAD :: "addr \<Rightarrow> addr \<Rightarrow> addr \<Rightarrow> mem \<Rightarrow> mem result" where
  "TAILQ_INSERT_HEAD f head elm m =
     res_bind (ptr_ld m head head) (\<lambda>n.
     res_bind (ptr_st m elm (entry1 f elm) n) (\<lambda>m.
     res_bind (if n \<noteq> NULL then
                 res_bind (ptr_ld m head head) (\<lambda>y. ptr_st m y (entry2 f y) (entry1 f elm))
               else ptr_st m head (word2 head) (entry1 f elm)) (\<lambda>m.
     res_bind (ptr_st m head head elm) (\<lambda>m.
     ptr_st m elm (entry2 f elm) head))))"

definition TAILQ_INSERT_TAIL :: "addr \<Rightarrow> addr \<Rightarrow> addr \<Rightarrow> mem \<Rightarrow> mem result" where
  "TAILQ_INSERT_TAIL f head elm m =
     res_bind (ptr_st m elm (entry1 f elm) NULL) (\<lambda>m.
     res_bind (ptr_ld m head (word2 head)) (\<lambda>l.
     res_bind (ptr_st m elm (entry2 f elm) l) (\<lambda>m.
     res_bind (ptr_ld m head (word2 head)) (\<lambda>l.
     res_bind (ptr_st m l l elm) (\<lambda>m.
     ptr_st m head (word2 head) (entry1 f elm))))))"

definition TAILQ_INSERT_AFTER :: "addr \<Rightarrow> addr \<Rightarrow> addr \<Rightarrow> addr \<Rightarrow> mem \<Rightarrow> mem result" where
  "TAILQ_INSERT_AFTER f head listelm elm m =
     res_bind (ptr_ld m listelm (entry1 f listelm)) (\<lambda>n.
     res_bind (ptr_st m elm (entry1 f elm) n) (\<lambda>m.
     res_bind (if n \<noteq> NULL then
                 res_bind (ptr_ld m elm (entry1 f elm)) (\<lambda>y. ptr_st m y (entry2 f y) (entry1 f elm))
               else ptr_st m head (word2 head) (entry1 f elm)) (\<lambda>m.
     res_bind (ptr_st m listelm (entry1 f listelm) elm) (\<lambda>m.
     ptr_st m elm (entry2 f elm) (entry1 f listelm)))))"

definition TAILQ_INSERT_BEFORE :: "addr \<Rightarrow> addr \<Rightarrow> addr \<Rightarrow> mem \<Rightarrow> mem result" where
  "TAILQ_INSERT_BEFORE f listelm elm m =
     res_bind (ptr_ld m listelm (entry2 f listelm)) (\<lambda>p.
     res_bind (ptr_st m elm (entry2 f elm) p) (\<lambda>m.
     res_bind (ptr_st m elm (entry1 f elm) listelm) (\<lambda>m.
     res_bind (ptr_ld m listelm (entry2 f listelm)) (\<lambda>p.
     res_bind (ptr_st m p p elm) (\<lambda>m.
     ptr_st m listelm (entry2 f listelm) (entry1 f elm))))))"

definition TAILQ_REMOVE :: "addr \<Rightarrow> addr \<Rightarrow> addr \<Rightarrow> mem \<Rightarrow> mem result" where
  "TAILQ_REMOVE f head elm m =
     res_bind (ptr_ld m elm (entry1 f elm)) (\<lambda>n.
     res_bind (ptr_ld m elm (entry2 f elm)) (\<lambda>p.
     res_bind (if n \<noteq> NULL then ptr_st m n (entry2 f n) p else ptr_st m head (word2 head) p) (\<lambda>m.
     res_bind (ptr_ld m elm (entry1 f elm)) (\<lambda>n.
     res_bind (ptr_ld m elm (entry2 f elm)) (\<lambda>p.
     ptr_st m p p n)))))"

definition TAILQ_FOREACH :: "addr \<Rightarrow> addr \<Rightarrow> mem \<Rightarrow> addr list result option" where
  "TAILQ_FOREACH f head m =
     (case ptr_ld m head head of Inl e \<Rightarrow> Some (Inl e) | Inr x \<Rightarrow> visit m (entry1 f) NULL x)"

partial_function (option) tailq_back :: "addr \<Rightarrow> mem \<Rightarrow> addr \<Rightarrow> addr list result option" where
  "tailq_back f m var =
     (if var = NULL then Some (Inr [])
      else case TAILQ_PREV f var m of
             Inl e \<Rightarrow> Some (Inl e)
           | Inr p \<Rightarrow> Option.bind (tailq_back f m p) (\<lambda>r. Some (res_bind r (\<lambda>xs. Inr (var # xs)))))"

definition TAILQ_FOREACH_REVERSE :: "addr \<Rightarrow> addr \<Rightarrow> mem \<Rightarrow> addr list result option" where
  "TAILQ_FOREACH_REVERSE f head m =
     (case TAILQ_LAST head m of Inl e \<Rightarrow> Some (Inl e) | Inr x \<Rightarrow> tailq_back f m x)"

definition TAILQ_CONCAT :: "addr \<Rightarrow> addr \<Rightarrow> addr \<Rightarrow> mem \<Rightarrow> mem result" where
  "TAILQ_CONCAT f head1 head2 m =
     res_bind (TAILQ_EMPTY head2 m) (\<lambda>e.
     if \<not> e then
       res_bind (ptr_ld m head1 (word2 head1)) (\<lambda>l1.
       res_bind (ptr_ld m head2 head2) (\<lambda>x.
       res_bind (ptr_st m l1 l1 x) (\<lambda>m.
       res_bind (ptr_ld m head2 head2) (\<lambda>x.
       res_bind (ptr_ld m head1 (word2 head1)) (\<lambda>l1.
       res_bind (ptr_st m x (entry2 f x) l1) (\<lambda>m.
       res_bind (ptr_ld m head2 (word2 head2)) (\<lambda>l2.
       res_bind (ptr_st m head1 (word2 head1) l2) (\<lambda>m.
       TAILQ_INIT head2 m))))))))
     else Inr m)"

fun tailq_exec :: "addr \<Rightarrow> addr \<Rightarrow> qop \<Rightarrow> mem \<Rightarrow> mem result option" where
  "tailq_exec f head (Insert_head e) m = Some (TAILQ_INSERT_HEAD f head e m)"
| "tailq_exec f head (Insert_tail e) m = Some (TAILQ_INSERT_TAIL f head e m)"
| "tailq_exec f head (Insert_after x e) m = Some (TAILQ_INSERT_AFTER f head x e m)"
| "tailq_exec f head (Insert_before x e) m = Some (TAILQ_INSERT_BEFORE f x e m)"
| "tailq_exec f head (Remove e) m = Some (TAILQ_REMOVE f head e m)"
| "tailq_exec f head _ m = None"

subsection \<open>Shapes\<close>

definition dlist :: "addr \<Rightarrow> addr \<Rightarrow> addr set \<Rightarrow> mem \<Rightarrow> addr list \<Rightarrow> bool" where
  "dlist f head E m xs \<longleftrightarrow> forward f head E m xs \<and> room2 f head E m \<and> backs m f head xs"

definition tailq :: "addr \<Rightarrow> addr \<Rightarrow> addr set \<Rightarrow> mem \<Rightarrow> addr list \<Rightarrow> bool" where
  "tailq f head E m xs \<longleftrightarrow>
     dlist f head E m xs \<and> word2 head \<notin> entry1 f ` E \<and> word2 head \<notin> entry2 f ` E \<and>
     m (word2 head) = Some (last_word f head xs)"

abbreviation dlist_words :: "addr \<Rightarrow> addr \<Rightarrow> addr set \<Rightarrow> addr set" where
  "dlist_words f head E \<equiv> words1 f head E \<union> words2 f E"

abbreviation tailq_words :: "addr \<Rightarrow> addr \<Rightarrow> addr set \<Rightarrow> addr set" where
  "tailq_words f head E \<equiv> insert (word2 head) (dlist_words f head E)"

fun list_supports :: "qop \<Rightarrow> bool" where
  "list_supports (Insert_tail _) = False"
| "list_supports Remove_head = False"
| "list_supports _ = True"

fun tailq_supports :: "qop \<Rightarrow> bool" where
  "tailq_supports Remove_head = False"
| "tailq_supports _ = True"

text \<open>
  The memory after an element entered between \<open>ps\<close> and \<open>zs\<close>, and after one left there: the word in
  front of the place has the address \<open>p\<close>.
\<close>

definition entered :: "addr \<Rightarrow> addr \<Rightarrow> addr \<Rightarrow> addr list \<Rightarrow> mem \<Rightarrow> mem" where
  "entered f p e zs m =
     (if zs = [] then m(entry1 f e \<mapsto> NULL)
      else m(entry1 f e \<mapsto> first_of zs, entry2 f (first_of zs) \<mapsto> entry1 f e))(p \<mapsto> e, entry2 f e \<mapsto> p)"

definition left :: "addr \<Rightarrow> addr \<Rightarrow> addr list \<Rightarrow> mem \<Rightarrow> mem" where
  "left f p zs m = (if zs = [] then m else m(entry2 f (first_of zs) \<mapsto> p))(p \<mapsto> first_of zs)"

subsection \<open>Lists\<close>

lemma dlistD:
  assumes "dlist f head E m xs"
  shows "forward f head E m xs" "room2 f head E m" "backs m f head xs"
  using assms by (simp_all add: dlist_def)

lemma dlist_pool:
  assumes "dlist f head E m xs" and "e \<in> E"
  shows "entry2 f e \<in> dom m" "entry2 f e \<noteq> head" "head \<noteq> entry2 f e"
    "y \<in> E \<Longrightarrow> entry2 f e \<noteq> entry1 f y" "y \<in> E \<Longrightarrow> entry1 f y \<noteq> entry2 f e" "entry2 f e \<notin> words1 f head E"
  using assms by (fastforce simp: dlist_def room2_def words1_def)+

lemma dlist_word:
  assumes "dlist f head E m (ps @ zs)" and "e \<in> E"
  shows "last_word f head ps \<noteq> entry2 f e" "entry2 f e \<noteq> last_word f head ps"
  using forward_word(5) [OF dlistD(1) [OF assms(1)]] dlist_pool(6) [OF assms] by auto

lemma dlist_elem:
  assumes "dlist f head E m (ps @ x # zs)"
  shows "m (entry2 f x) = Some (last_word f head ps)"
  using dlistD(3) [OF assms] by simp

lemma forward_elsewhere:
  assumes "forward f head E m xs" and "\<And>a. a \<in> words1 f head E \<Longrightarrow> m' a = m a"
  shows "forward f head E m' xs"
  using assms by (intro forward_agree [OF assms(1)]) auto

lemma dlist_entered:
  assumes d: "dlist f head E m (ps @ zs)" and e: "e \<in> E" "e \<notin> set (ps @ zs)"
  shows "dlist f head E (entered f (last_word f head ps) e zs m) (ps @ e # zs)"
    and "within (dlist_words f head E) m (entered f (last_word f head ps) e zs m)"
proof -
  let ?p = "last_word f head ps"
  note fw = dlistD(1) [OF d] and p = dlist_pool [OF d] and w = dlist_word [OF d] and fp = forward_pool [OF dlistD(1) [OF d]]
    and pw = forward_word [OF dlistD(1) [OF d]]
  have z: "first_of zs \<in> E" if "zs \<noteq> []" using that forward_head(6) [OF fw] by (cases zs) auto
  show "within (dlist_words f head E) m (entered f ?p e zs m)"
    using z e pw(5) by (auto simp: entered_def)
  have "forward f head E (m(entry1 f e \<mapsto> first_of zs, ?p \<mapsto> e)) (ps @ e # zs)" using forward_insert [OF fw e] .
  then have "forward f head E (entered f ?p e zs m) (ps @ e # zs)"
    by (rule forward_elsewhere) (use z p(6) e in \<open>auto simp: entered_def\<close>)
  moreover have "room2 f head E (entered f ?p e zs m)"
    using dlistD(2) [OF d] z p(1) e(1) fp pw(2) by (simp add: entered_def)
  moreover have "backs (entered f ?p e zs m) f head (ps @ e # zs)"
  proof -
    have sub: "set ps \<subseteq> E" "set zs \<subseteq> E" and di: "set ps \<inter> set zs = {}" "distinct zs"
      using forward_head(5,6) [OF fw] by auto
    have b: "backs m f head ps" "backs m f ?p zs" using dlistD(3) [OF d] by simp_all
    have n: "entry1 f e \<notin> entry2 f ` E" "?p \<notin> entry2 f ` E" using p(5) e(1) w(1) by auto
    have "backs (entered f ?p e zs m) f head ps"
      using b(1) sub di n e(2) by (cases zs) (auto simp: entered_def subset_iff image_iff)
    moreover have "backs (entered f ?p e zs m) f (entry1 f e) zs"
    proof (cases zs)
      case (Cons z ys)
      with b(2) sub di n e(2) w(2) show ?thesis
        by (auto simp: entered_def subset_iff image_iff)
    qed simp
    ultimately show ?thesis by (simp add: entered_def)
  qed
  ultimately show "dlist f head E (entered f ?p e zs m) (ps @ e # zs)" by (simp add: dlist_def)
qed

lemma dlist_left:
  assumes d: "dlist f head E m (ps @ x # zs)"
  shows "dlist f head E (left f (last_word f head ps) zs m) (ps @ zs)"
    and "within (dlist_words f head E) m (left f (last_word f head ps) zs m)"
proof -
  let ?p = "last_word f head ps"
  note fw = dlistD(1) [OF d] and p = dlist_pool [OF d] and w = dlist_word [OF d]
    and pw = forward_word [OF dlistD(1) [OF d]]
  have z: "first_of zs \<in> E" if "zs \<noteq> []" using that forward_head(6) [OF fw] by (cases zs) auto
  show "within (dlist_words f head E) m (left f ?p zs m)" using z pw(5) by (auto simp: left_def)
  have "forward f head E (m(?p \<mapsto> first_of zs)) (ps @ zs)" using forward_remove [OF fw] .
  then have "forward f head E (left f ?p zs m) (ps @ zs)"
    by (rule forward_elsewhere) (use z p(6) in \<open>auto simp: left_def\<close>)
  moreover have "room2 f head E (left f ?p zs m)" using dlistD(2) [OF d] z p(1) pw(2) by (simp add: left_def)
  moreover have "backs (left f ?p zs m) f head (ps @ zs)"
  proof -
    have sub: "set ps \<subseteq> E" "set zs \<subseteq> E" and di: "set ps \<inter> set zs = {}" "distinct zs"
      using forward_head(5,6) [OF fw] by auto
    have b: "backs m f head ps" "backs m f (entry1 f x) zs" using dlistD(3) [OF d] by simp_all
    have n: "?p \<notin> entry2 f ` E" using w(1) by auto
    have "backs (left f ?p zs m) f head ps"
      using b(1) sub di n by (cases zs) (auto simp: left_def subset_iff image_iff)
    moreover have "backs (left f ?p zs m) f ?p zs"
    proof (cases zs)
      case (Cons z ys)
      with b(2) sub di n w(2) show ?thesis by (auto simp: left_def subset_iff image_iff)
    qed simp
    ultimately show ?thesis by simp
  qed
  ultimately show "dlist f head E (left f ?p zs m) (ps @ zs)" by (simp add: dlist_def)
qed

text \<open>The memory after each macro.\<close>

lemma LIST_INSERT_HEAD_mem:
  assumes d: "dlist f head E m xs" and e: "e \<in> E" and n: "e \<notin> set xs"
  shows "LIST_INSERT_HEAD f head e m = Inr (entered f head e xs m)"
proof (cases xs)
  case Nil
  with forward_head [OF dlistD(1) [OF d]] forward_pool [OF dlistD(1) [OF d] e] dlist_pool [OF d e] show ?thesis
    by (simp add: LIST_INSERT_HEAD_def entered_def)
next
  case (Cons z zs)
  then have z: "z \<in> E" "z \<noteq> e" using forward_head(6) [OF dlistD(1) [OF d]] n by auto
  note fw = dlistD(1) [OF d]
  from Cons forward_head [OF fw] forward_pool [OF fw e] forward_pool [OF fw z(1)] dlist_pool [OF d e] dlist_pool [OF d z(1)] z e
  show ?thesis by (simp add: LIST_INSERT_HEAD_def entered_def)
qed

lemma LIST_INSERT_AFTER_mem:
  assumes d: "dlist f head E m (ps @ x # zs)" and e: "e \<in> E" and n: "e \<notin> set (ps @ x # zs)"
  shows "LIST_INSERT_AFTER f x e m = Inr (entered f (entry1 f x) e zs m)"
proof -
  note fw = dlistD(1) [OF d]
  note x = forward_elem [OF fw] and fe = forward_pool [OF fw e] and de = dlist_pool [OF d e]
  show ?thesis
  proof (cases zs)
    case Nil
    with x fe de n show ?thesis by (simp add: LIST_INSERT_AFTER_def entered_def)
  next
    case (Cons z ys)
    then have z: "z \<in> E" "z \<noteq> e" using forward_head(6) [OF fw] n by auto
    from Cons x fe de n forward_pool [OF fw z(1)] dlist_pool [OF d z(1)] z e show ?thesis
      by (simp add: LIST_INSERT_AFTER_def entered_def)
  qed
qed

lemma LIST_INSERT_BEFORE_mem:
  assumes d: "dlist f head E m (ps @ x # zs)" and e: "e \<in> E" and n: "e \<notin> set (ps @ x # zs)"
  shows "LIST_INSERT_BEFORE f x e m = Inr (entered f (last_word f head ps) e (x # zs) m)"
proof -
  note fw = dlistD(1) [OF d]
  note x = forward_elem [OF fw] and fe = forward_pool [OF fw e] and de = dlist_pool [OF d e]
    and w = dlist_word [OF d] and b = dlist_elem [OF d] and pw = forward_word [OF fw]
  have xe: "x \<noteq> e" "e \<noteq> x" "entry2 f x \<in> dom m" "entry2 f x \<noteq> entry1 f e" "entry1 f e \<noteq> entry2 f x"
    using n dlist_pool [OF d x(1)] e by auto
  let ?p = "last_word f head ps"
  have "LIST_INSERT_BEFORE f x e m = Inr (m(entry2 f e \<mapsto> ?p, entry1 f e \<mapsto> x, ?p \<mapsto> e, entry2 f x \<mapsto> entry1 f e))"
    using x fe de w [OF e] w [OF x(1)] b pw xe by (simp add: LIST_INSERT_BEFORE_def)
  also have "m(entry2 f e \<mapsto> ?p, entry1 f e \<mapsto> x, ?p \<mapsto> e, entry2 f x \<mapsto> entry1 f e) = entered f ?p e (x # zs) m"
    using w [OF e] w [OF x(1)] xe de(4,5) [OF e] by (intro ext) (simp add: entered_def)
  finally show ?thesis .
qed

lemma LIST_REMOVE_mem:
  assumes d: "dlist f head E m (ps @ x # zs)"
  shows "LIST_REMOVE f x m = Inr (left f (last_word f head ps) zs m)"
proof -
  note fw = dlistD(1) [OF d]
  note x = forward_elem [OF fw] and dx = dlist_pool [OF d x(1)]
    and b = dlist_elem [OF d] and pw = forward_word [OF fw]
  show ?thesis
  proof (cases zs)
    case Nil
    with x b pw dx show ?thesis by (simp add: LIST_REMOVE_def left_def)
  next
    case (Cons z ys)
    then have z: "z \<in> E" "z \<noteq> x" using forward_head(5,6) [OF fw] by auto
    from Cons x b pw dx z forward_pool [OF fw z(1)] dlist_pool [OF d z(1)] show ?thesis
      by (simp add: LIST_REMOVE_def left_def)
  qed
qed

lemma dlist_elsewhere:
  assumes d: "dlist f head E m xs" and a: "\<And>a. a \<in> dlist_words f head E \<Longrightarrow> m' a = m a"
  shows "dlist f head E m' xs"
proof -
  have e: "m' (entry2 f e) = m (entry2 f e)" if "e \<in> E" for e using a that by simp
  have "backs m' f p ys = backs m f p ys" if "set ys \<subseteq> E" for p ys
    using that e by (induction ys arbitrary: p) auto
  moreover have "set xs \<subseteq> E" using forward_head(6) [OF dlistD(1) [OF d]] .
  moreover have "forward f head E m' xs" using forward_elsewhere [OF dlistD(1) [OF d]] a by simp
  moreover have "room2 f head E m'" using dlistD(2) [OF d] e by (simp add: room2_def domIff)
  ultimately show ?thesis using dlistD(3) [OF d] by (simp add: dlist_def)
qed

lemma LIST_FOREACH_list: "dlist f head E m xs \<Longrightarrow> LIST_FOREACH f head m = Some (Inr xs)"
  using visit_forward [of f head E m xs] forward_head [of NULL f head E m xs] by (simp add: dlist_def LIST_FOREACH_def)

lemma LIST_INIT_ok:
  "room f head E m \<Longrightarrow> room2 f head E m \<Longrightarrow>
   LIST_INIT head m = Inr (m(head \<mapsto> NULL)) \<and> dlist f head E (m(head \<mapsto> NULL)) []"
  using forward_init [of f head E m NULL] by (simp add: LIST_INIT_def dlist_def room_def)

lemma list_exec_rep:
  assumes d: "dlist f head E m xs" and "list_supports q" and "qvalid E xs q"
  shows "\<exists>m'. list_exec f head q m = Some (Inr m') \<and> dlist f head E m' (qspec q xs) \<and> within (dlist_words f head E) m m'"
proof (cases q)
  case (Insert_head e)
  with assms dlist_entered [of f head E m "[]" xs e] show ?thesis by (simp add: LIST_INSERT_HEAD_mem)
next
  case (Insert_after x e)
  with assms obtain ps zs where xs: "xs = ps @ x # zs" "x \<notin> set ps" by (auto dest: split_list_first)
  with Insert_after assms dlist_entered [of f head E m "ps @ [x]" zs e] LIST_INSERT_AFTER_mem [of f head E m ps x zs e]
  show ?thesis by (simp add: put_after_split)
next
  case (Insert_before x e)
  with assms obtain ps zs where xs: "xs = ps @ x # zs" "x \<notin> set ps" by (auto dest: split_list_first)
  with Insert_before assms dlist_entered [of f head E m ps "x # zs" e] LIST_INSERT_BEFORE_mem [of f head E m ps x zs e]
  show ?thesis by (simp add: put_before_split)
next
  case (Remove x)
  with assms obtain ps zs where xs: "xs = ps @ x # zs" "x \<notin> set ps" by (auto dest: split_list_first)
  with Remove assms dlist_left [of f head E m ps x zs] LIST_REMOVE_mem [of f head E m ps x zs] show ?thesis
    by (simp add: remove1_split)
qed (use assms in auto)

interpretation dl: intrusive_list "dlist f head E" E "dlist_words f head E" list_supports "list_exec f head"
    "LIST_FOREACH f head" for f head E
proof unfold_locales
  fix m m' xs assume "dlist f head E m xs" "\<And>a. a \<in> dlist_words f head E \<Longrightarrow> m' a = m a"
  then show "dlist f head E m' xs" by (rule dlist_elsewhere)
qed (simp_all add: list_exec_rep LIST_FOREACH_list)

subsection \<open>Tail queues\<close>

lemma tailqD:
  assumes "tailq f head E m xs"
  shows "dlist f head E m xs" "m (word2 head) = Some (last_word f head xs)" "word2 head \<in> dom m"
    "word2 head \<notin> dlist_words f head E"
  using assms by (auto simp: tailq_def words1_def words2_def)

lemma tailq_neq:
  assumes "tailq f head E m xs" and "e \<in> E"
  shows "entry1 f e \<noteq> word2 head" "word2 head \<noteq> entry1 f e" "entry2 f e \<noteq> word2 head" "word2 head \<noteq> entry2 f e"
  using tailqD(4) [OF assms(1)] assms(2) by (metis UnI1 UnI2 words_simps(2,3))+

lemma tailq_word:
  assumes "tailq f head E m (ps @ zs)"
  shows "last_word f head ps \<noteq> word2 head" "word2 head \<noteq> last_word f head ps"
  using tailqD(4) [OF assms] forward_word(5) [OF dlistD(1) [OF tailqD(1) [OF assms]]] by auto

lemma tailq_update:
  assumes "dlist f head E m' ys" and "word2 head \<notin> dlist_words f head E"
  shows "tailq f head E (m'(word2 head \<mapsto> last_word f head ys)) ys"
proof -
  have "dlist f head E (m'(word2 head \<mapsto> last_word f head ys)) ys"
    by (rule dlist_elsewhere [OF assms(1)]) (use assms(2) in auto)
  with assms(2) show ?thesis by (simp add: tailq_def words1_def words2_def)
qed

text \<open>The queue is kept when the list is and the tail pointer, if it has to move, is set.\<close>

lemma tailq_entered:
  assumes q: "tailq f head E m (ps @ zs)" and e: "e \<in> E" "e \<notin> set (ps @ zs)"
  defines "m1 \<equiv> entered f (last_word f head ps) e zs m"
  defines "m2 \<equiv> (if zs = [] then m1(word2 head \<mapsto> entry1 f e) else m1)"
  shows "tailq f head E m2 (ps @ e # zs)" and "within (tailq_words f head E) m m2"
proof -
  note t = tailqD [OF q]
  have d: "dlist f head E m1 (ps @ e # zs)" and w: "within (dlist_words f head E) m m1"
    unfolding m1_def using dlist_entered [OF t(1) e] by blast+
  from w show "within (tailq_words f head E) m m2" by (auto simp: within_def m2_def)
  show "tailq f head E m2 (ps @ e # zs)"
  proof (cases "zs = []")
    case True
    with tailq_update [OF d t(4)] show ?thesis by (simp add: m2_def)
  next
    case False
    have "m1 (word2 head) = m (word2 head)" using w t(4) by (auto simp: within_def)
    with False t d show ?thesis
      by (simp add: m2_def tailq_def last_word_insert words1_def words2_def del: last_word_append)
  qed
qed

lemma tailq_left:
  assumes q: "tailq f head E m (ps @ x # zs)"
  defines "m1 \<equiv> left f (last_word f head ps) zs m"
  defines "m2 \<equiv> (if zs = [] then m1(word2 head \<mapsto> last_word f head ps) else m1)"
  shows "tailq f head E m2 (ps @ zs)" and "within (tailq_words f head E) m m2"
proof -
  note t = tailqD [OF q]
  have d: "dlist f head E m1 (ps @ zs)" and w: "within (dlist_words f head E) m m1"
    unfolding m1_def using dlist_left [OF t(1)] by blast+
  from w show "within (tailq_words f head E) m m2" by (auto simp: within_def m2_def)
  show "tailq f head E m2 (ps @ zs)"
  proof (cases "zs = []")
    case True
    with tailq_update [OF d t(4)] show ?thesis by (simp add: m2_def)
  next
    case False
    have "m1 (word2 head) = m (word2 head)" using w t(4) by (auto simp: within_def)
    with False t d last_word_remove [of f head ps zs x] show ?thesis
      by (simp add: m2_def tailq_def words1_def words2_def del: last_word_append)
  qed
qed

lemma TAILQ_INSERT_HEAD_mem:
  assumes q: "tailq f head E m xs" and e: "e \<in> E" and n: "e \<notin> set xs"
  shows "TAILQ_INSERT_HEAD f head e m =
    Inr (if xs = [] then (entered f head e xs m)(word2 head \<mapsto> entry1 f e) else entered f head e xs m)"
proof (cases xs)
  case Nil
  note t = tailqD [OF q]
  note fw = dlistD(1) [OF t(1)]
  have "TAILQ_INSERT_HEAD f head e m = Inr (m(entry1 f e \<mapsto> NULL, word2 head \<mapsto> entry1 f e, head \<mapsto> e, entry2 f e \<mapsto> head))"
    using Nil t forward_head [OF fw] forward_pool [OF fw e] dlist_pool [OF t(1) e] by (simp add: TAILQ_INSERT_HEAD_def)
  also have "m(entry1 f e \<mapsto> NULL, word2 head \<mapsto> entry1 f e, head \<mapsto> e, entry2 f e \<mapsto> head) =
      (entered f head e xs m)(word2 head \<mapsto> entry1 f e)"
    using Nil tailq_neq [OF q e] by (intro ext) (simp add: entered_def)
  finally show ?thesis using Nil by (simp add: fun_upd_def)
next
  case (Cons z zs)
  note h = forward_head [OF dlistD(1) [OF tailqD(1) [OF q]]]
  have "z \<noteq> NULL" using Cons h(2,6) by auto
  with Cons h(1,4) have "TAILQ_INSERT_HEAD f head e m = LIST_INSERT_HEAD f head e m"
    by (simp add: TAILQ_INSERT_HEAD_def LIST_INSERT_HEAD_def)
  with Cons LIST_INSERT_HEAD_mem [OF tailqD(1) [OF q] e n] show ?thesis by simp
qed

lemma TAILQ_INSERT_AFTER_mem:
  assumes q: "tailq f head E m (ps @ x # zs)" and e: "e \<in> E" and n: "e \<notin> set (ps @ x # zs)"
  shows "TAILQ_INSERT_AFTER f head x e m =
    Inr (if zs = [] then (entered f (entry1 f x) e zs m)(word2 head \<mapsto> entry1 f e) else entered f (entry1 f x) e zs m)"
proof -
  note t = tailqD [OF q]
  note fw = dlistD(1) [OF t(1)]
  note x = forward_elem [OF fw] and fe = forward_pool [OF fw e] and de = dlist_pool [OF t(1) e]
  show ?thesis
  proof (cases zs)
    case Nil
    have "TAILQ_INSERT_AFTER f head x e m =
        Inr (m(entry1 f e \<mapsto> NULL, word2 head \<mapsto> entry1 f e, entry1 f x \<mapsto> e, entry2 f e \<mapsto> entry1 f x))"
      using Nil t x fe de forward_head [OF fw] by (simp add: TAILQ_INSERT_AFTER_def)
    also have "m(entry1 f e \<mapsto> NULL, word2 head \<mapsto> entry1 f e, entry1 f x \<mapsto> e, entry2 f e \<mapsto> entry1 f x) =
        (entered f (entry1 f x) e zs m)(word2 head \<mapsto> entry1 f e)"
      using Nil tailq_neq [OF q e] tailq_neq [OF q x(1)] by (intro ext) (simp add: entered_def)
    finally show ?thesis using Nil by (simp add: fun_upd_def)
  next
    case (Cons z ys)
    then have z: "z \<in> E" "z \<noteq> e" using forward_head(6) [OF fw] n by auto
    from Cons x fe de n forward_pool [OF fw z(1)] dlist_pool [OF t(1) z(1)] z e show ?thesis
      by (simp add: TAILQ_INSERT_AFTER_def entered_def)
  qed
qed

lemma TAILQ_INSERT_TAIL_mem:
  assumes q: "tailq f head E m xs" and e: "e \<in> E" and n: "e \<notin> set xs"
  shows "TAILQ_INSERT_TAIL f head e m = Inr ((entered f (last_word f head xs) e [] m)(word2 head \<mapsto> entry1 f e))"
proof -
  note t = tailqD [OF q]
  note fw = dlistD(1) [OF t(1)]
  let ?p = "last_word f head xs"
  note de = dlist_pool [OF t(1) e] and pw = forward_word [of NULL f head E m xs "[]"]
    and w = dlist_word [of f head E m xs "[]" e] and ne = tailq_neq [OF q e]
  have "TAILQ_INSERT_TAIL f head e m =
      Inr (m(entry1 f e \<mapsto> NULL, entry2 f e \<mapsto> ?p, ?p \<mapsto> e, word2 head \<mapsto> entry1 f e))"
    using t forward_head [OF fw] forward_pool [OF fw e] de pw fw ne by (simp add: TAILQ_INSERT_TAIL_def)
  also have "m(entry1 f e \<mapsto> NULL, entry2 f e \<mapsto> ?p, ?p \<mapsto> e, word2 head \<mapsto> entry1 f e) =
      (entered f ?p e [] m)(word2 head \<mapsto> entry1 f e)"
    using w t(1) e by (intro ext) (simp add: entered_def)
  finally show ?thesis .
qed

lemma TAILQ_INSERT_BEFORE_mem:
  assumes "tailq f head E m (ps @ x # zs)" and "e \<in> E" and "e \<notin> set (ps @ x # zs)"
  shows "TAILQ_INSERT_BEFORE f x e m = Inr (entered f (last_word f head ps) e (x # zs) m)"
  using LIST_INSERT_BEFORE_mem [OF tailqD(1) [OF assms(1)] assms(2,3)]
  by (simp add: TAILQ_INSERT_BEFORE_def LIST_INSERT_BEFORE_def)

lemma TAILQ_REMOVE_mem:
  assumes q: "tailq f head E m (ps @ x # zs)"
  defines "p \<equiv> last_word f head ps"
  shows "TAILQ_REMOVE f head x m = Inr (if zs = [] then (left f p zs m)(word2 head \<mapsto> p) else left f p zs m)"
proof -
  note t = tailqD [OF q]
  note fw = dlistD(1) [OF t(1)]
  note x = forward_elem [OF fw] and dx = dlist_pool [OF t(1) x(1)] and b = dlist_elem [OF t(1), folded p_def]
    and pw = forward_word [OF fw, folded p_def] and ne = tailq_neq [OF q x(1)] and w = tailq_word [OF q, folded p_def]
  show ?thesis
  proof (cases zs)
    case Nil
    have "TAILQ_REMOVE f head x m = Inr (m(word2 head \<mapsto> p, p \<mapsto> NULL))"
      using Nil t x b pw dx ne forward_head [OF fw] by (simp add: TAILQ_REMOVE_def)
    also have "m(word2 head \<mapsto> p, p \<mapsto> NULL) = (left f p zs m)(word2 head \<mapsto> p)"
      using Nil w by (intro ext) (simp add: left_def)
    finally show ?thesis using Nil by (simp add: fun_upd_def)
  next
    case (Cons z ys)
    then have z: "z \<in> E" "z \<noteq> x" using forward_head(5,6) [OF fw] by auto
    from Cons x b pw dx z forward_pool [OF fw z(1)] dlist_pool [OF t(1) z(1)] show ?thesis
      by (simp add: TAILQ_REMOVE_def left_def)
  qed
qed

lemma TAILQ_FOREACH_list: "tailq f head E m xs \<Longrightarrow> TAILQ_FOREACH f head m = Some (Inr xs)"
  using visit_forward [of f head E m xs] forward_head [of NULL f head E m xs]
  by (simp add: tailq_def dlist_def TAILQ_FOREACH_def)

lemma tailq_exec_rep:
  assumes q: "tailq f head E m xs" and "tailq_supports op" and "qvalid E xs op"
  shows "\<exists>m'. tailq_exec f head op m = Some (Inr m') \<and> tailq f head E m' (qspec op xs) \<and> within (tailq_words f head E) m m'"
proof (cases op)
  case (Insert_head e)
  with assms tailq_entered [of f head E m "[]" xs e] show ?thesis
    by (cases "xs = []") (simp_all add: TAILQ_INSERT_HEAD_mem)
next
  case (Insert_tail e)
  with assms tailq_entered [of f head E m xs "[]" e] show ?thesis by (simp add: TAILQ_INSERT_TAIL_mem)
next
  case (Insert_after x e)
  with assms obtain ps zs where xs: "xs = ps @ x # zs" "x \<notin> set ps" by (auto dest: split_list_first)
  with Insert_after assms tailq_entered [of f head E m "ps @ [x]" zs e] TAILQ_INSERT_AFTER_mem [of f head E m ps x zs e]
  show ?thesis by (cases "zs = []") (simp_all add: put_after_split)
next
  case (Insert_before x e)
  with assms obtain ps zs where xs: "xs = ps @ x # zs" "x \<notin> set ps" by (auto dest: split_list_first)
  with Insert_before assms tailq_entered [of f head E m ps "x # zs" e] TAILQ_INSERT_BEFORE_mem [of f head E m ps x zs e]
  show ?thesis by (simp add: put_before_split)
next
  case (Remove x)
  with assms obtain ps zs where xs: "xs = ps @ x # zs" "x \<notin> set ps" by (auto dest: split_list_first)
  with Remove assms tailq_left [of f head E m ps x zs] TAILQ_REMOVE_mem [of f head E m ps x zs] show ?thesis
    by (simp add: remove1_split)
qed (use assms in auto)

interpretation tq: intrusive_list "tailq f head E" E "tailq_words f head E" tailq_supports "tailq_exec f head"
    "TAILQ_FOREACH f head" for f head E
proof unfold_locales
  fix m m' xs assume q: "tailq f head E m xs" and a: "\<And>a. a \<in> tailq_words f head E \<Longrightarrow> m' a = m a"
  have "dlist f head E m' xs" using dlist_elsewhere [OF tailqD(1) [OF q]] a by simp
  with q a show "tailq f head E m' xs" by (simp add: tailq_def)
qed (simp_all add: tailq_exec_rep TAILQ_FOREACH_list)

subsection \<open>Going backwards\<close>

text \<open>
  The word that points to a place, taken for the first word of a head or an entry, is followed by a
  word with the address of what points to the element in front; for the first place this is the tail
  pointer, and the word it points to ends the list.
\<close>

lemma tailq_before:
  assumes q: "tailq f head E m (ps @ zs)"
  defines "l \<equiv> last_word f head ps"
  shows "\<exists>p. ptr_ld m l (word2 l) = Inr p \<and> ptr_ld m p p = Inr (if ps = [] then NULL else last ps)"
proof (cases ps rule: rev_cases)
  case Nil
  note t = tailqD [OF q]
  note fw = dlistD(1) [OF t(1)]
  have "forward f head E m ((ps @ zs) @ [])" using fw by simp
  note w = forward_word [OF this]
  from Nil t w forward_head [OF fw] show ?thesis by (auto simp: l_def)
next
  case (snoc qs x)
  note t = tailqD [OF q]
  have d: "dlist f head E m (qs @ x # zs)" using t(1) snoc by simp
  note fw = dlistD(1) [OF d]
  note x = forward_elem [OF fw] and w = forward_word [OF fw]
  have "entry1 f x \<noteq> NULL" using fw x(1) by (auto simp: forward_to_def room_def)
  with snoc dlist_elem [OF d] w show ?thesis by (simp add: l_def)
qed

lemma TAILQ_LAST_list:
  assumes q: "tailq f head E m xs"
  shows "TAILQ_LAST head m = Inr (if xs = [] then NULL else last xs)"
  using tailq_before [of f head E m xs "[]"] tailqD [OF q] forward_head [OF dlistD(1) [OF tailqD(1) [OF q]]] q
  by (auto simp: TAILQ_LAST_def)

lemma TAILQ_PREV_list:
  assumes q: "tailq f head E m (ps @ x # zs)"
  shows "TAILQ_PREV f x m = Inr (if ps = [] then NULL else last ps)"
  using tailq_before [OF q] dlist_elem [OF tailqD(1) [OF q]] forward_elem [OF dlistD(1) [OF tailqD(1) [OF q]]]
  by (auto simp: TAILQ_PREV_def)

lemma tailq_back_list:
  assumes "tailq f head E m (ps @ zs)"
  shows "tailq_back f m (if ps = [] then NULL else last ps) = Some (Inr (rev ps))"
  using assms
proof (induction ps arbitrary: zs rule: rev_induct)
  case Nil
  show ?case by (subst tailq_back.simps) simp
next
  case (snoc x ps)
  have q: "tailq f head E m (ps @ x # zs)" using snoc.prems by simp
  have "x \<noteq> NULL" using forward_elem [OF dlistD(1) [OF tailqD(1) [OF q]]] by simp
  with snoc.IH [OF q] TAILQ_PREV_list [OF q] show ?case by (subst tailq_back.simps) simp
qed

lemma TAILQ_FOREACH_REVERSE_list:
  assumes "tailq f head E m xs"
  shows "TAILQ_FOREACH_REVERSE f head m = Some (Inr (rev xs))"
  using TAILQ_LAST_list [OF assms] tailq_back_list [of f head E m xs "[]"] assms
  by (simp add: TAILQ_FOREACH_REVERSE_def)

subsection \<open>Initialisation and concatenation\<close>

lemma TAILQ_INIT_ok:
  assumes "room_t f head E m"
  shows "TAILQ_INIT head m = Inr (m(head \<mapsto> NULL, word2 head \<mapsto> head))"
    and "tailq f head E (m(head \<mapsto> NULL, word2 head \<mapsto> head)) []"
proof -
  have r: "head \<noteq> NULL" "head \<in> dom m" "word2 head \<in> dom m" "room2 f head E m" "room f head E m"
    "word2 head \<notin> dlist_words f head E"
    using assms by (auto simp: room_t_def room_q_def room_def words1_def words2_def)
  then show "TAILQ_INIT head m = Inr (m(head \<mapsto> NULL, word2 head \<mapsto> head))" by (simp add: TAILQ_INIT_def)
  have "dlist f head E (m(head \<mapsto> NULL)) []" using r forward_init [of f head E m NULL] by (simp add: dlist_def)
  from tailq_update [OF this r(6)] show "tailq f head E (m(head \<mapsto> NULL, word2 head \<mapsto> head)) []" by simp
qed

lemma TAILQ_CONCAT_ok:
  assumes q1: "tailq f h1 E m xs" and q2: "tailq f h2 E m ys" and d: "set xs \<inter> set ys = {}"
    and ap: "{h1, word2 h1} \<inter> {h2, word2 h2} = {}"
  shows "\<exists>m'. TAILQ_CONCAT f h1 h2 m = Inr m' \<and> tailq f h1 E m' (xs @ ys) \<and> tailq f h2 E m' []"
proof (cases ys)
  case Nil
  with q1 q2 forward_head [OF dlistD(1) [OF tailqD(1) [OF q2]]] show ?thesis
    by (simp add: TAILQ_CONCAT_def TAILQ_EMPTY_def)
next
  case (Cons y zs)
  note a = tailqD [OF q1] and b = tailqD [OF q2]
  note fa = dlistD(1) [OF a(1)] and fb = dlistD(1) [OF b(1)]
  have y: "y \<in> E" "y \<noteq> NULL" using forward_head(2,6) [OF fb] Cons by auto
  have q1': "tailq f h1 E m (xs @ [])" and fa': "forward f h1 E m (xs @ [])" using q1 fa by simp_all
  note h1 = forward_head [OF fa] and h2 = forward_head [OF fb] and w = forward_word [OF fa'] tailq_word [OF q1']
  let ?l = "last_word f h1 xs"
  have l: "?l \<noteq> h2" "?l \<noteq> word2 h2" "?l \<noteq> entry2 f y"
  proof -
    show "?l \<noteq> entry2 f y" using dlist_word [OF tailqD(1) [OF q1'] y(1)] by simp
    show "?l \<noteq> h2" "?l \<noteq> word2 h2"
      using w(3) ap tailq_neq(1) [OF q2] forward_pool(3) [OF fb] by fastforce+
  qed
  note py1 = dlist_pool [OF a(1) y(1)] and py2 = dlist_pool [OF b(1) y(1)]
    and n1 = tailq_neq [OF q1 y(1)] and n2 = tailq_neq [OF q2 y(1)]
  let ?m2 = "m(?l \<mapsto> y, entry2 f y \<mapsto> ?l)"
  let ?m3 = "?m2(word2 h1 \<mapsto> last_word f h2 ys)"
  have lw: "last_word f h1 (xs @ ys) = last_word f h2 ys" using Cons by (simp add: last_word_nonempty)
  have dl: "dlist f h1 E ?m2 (xs @ ys)"
  proof -
    have "forward f h1 E (m(?l \<mapsto> y)) (xs @ ys)" using forward_concat [OF fa fb d] Cons by simp
    then have "forward f h1 E ?m2 (xs @ ys)" by (rule forward_elsewhere) (use py1(6) in auto)
    moreover have "room2 f h1 E ?m2" using dlistD(2) [OF a(1)] w(2) py1(1) by simp
    moreover have "backs ?m2 f h1 (xs @ ys)"
    proof -
      have "?l \<notin> entry2 f ` E" using dlist_word(1) [OF tailqD(1) [OF q1']] by auto
      moreover have "y \<notin> set xs" "y \<notin> set zs" using d h2(5) Cons by auto
      moreover have "backs m f h1 xs" "backs m f (entry1 f y) zs"
        using dlistD(3) [OF a(1)] dlistD(3) [OF b(1)] Cons by simp_all
      ultimately show ?thesis using h1(6) h2(6) Cons by (auto simp: subset_iff image_iff)
    qed
    ultimately show ?thesis by (simp add: dlist_def)
  qed
  have r3: "tailq f h1 E ?m3 (xs @ ys)" using tailq_update [OF dl a(4)] unfolding lw .
  have o: "word2 h2 \<notin> tailq_words f h1 E" "h2 \<notin> tailq_words f h1 E"
    using ap b(4) dlist_pool(3) [OF b(1)] forward_pool(3) [OF fb] by (auto simp: words1_def words2_def)
  have r1: "tailq f h1 E (?m3(h2 \<mapsto> NULL, word2 h2 \<mapsto> h2)) (xs @ ys)"
    by (rule tq.rep_region [OF r3]) (use o in auto)
  have "room f h2 E m" "room2 f h2 E m" using fb dlistD(2) [OF b(1)] by (simp_all add: forward_to_def)
  then have "room_t f h2 E ?m3"
    using b(3,4) w(2) py1(1) a(3) by (simp add: room_t_def room_q_def words1_def words2_def)
  note i = TAILQ_INIT_ok [OF this]
  have "TAILQ_CONCAT f h1 h2 m = TAILQ_INIT h2 ?m3"
    using Cons h1 h2 w a b y l py1 n1 n2 ap by (simp add: TAILQ_CONCAT_def TAILQ_EMPTY_def)
  with i r1 show ?thesis by auto
qed

end
