(* ===== verification/Queue_Circle.thy ===== *)
theory Queue_Circle
  imports Queue_Memory
begin

section \<open>Circular queues\<close>

text \<open>
  The macros \<open>CIRCLEQ_X\<close> of \<^verbatim>\<open>sys/queue.h\<close>, statement by statement. Both words of a head and of an entry
  are pointers to elements, and the end is marked in both directions by the address of the head.

  Seen from its second words a circular queue is again a chain, with the entry at an offset eight bytes
  higher and the elements in reverse order. So the lemmas on chains apply in both directions.
\<close>

subsection \<open>Operations\<close>

definition CIRCLEQ_HEAD_INITIALIZER :: "addr \<Rightarrow> addr list" where
  "CIRCLEQ_HEAD_INITIALIZER head = [head, head]"

definition CIRCLEQ_EMPTY :: "addr \<Rightarrow> mem \<Rightarrow> bool result" where
  "CIRCLEQ_EMPTY head m = res_bind (ptr_ld m head head) (\<lambda>v. Inr (v = head))"

definition CIRCLEQ_FIRST :: "addr \<Rightarrow> mem \<Rightarrow> addr result" where
  "CIRCLEQ_FIRST head m = ptr_ld m head head"

definition CIRCLEQ_LAST :: "addr \<Rightarrow> mem \<Rightarrow> addr result" where
  "CIRCLEQ_LAST head m = ptr_ld m head (word2 head)"

definition CIRCLEQ_NEXT :: "addr \<Rightarrow> addr \<Rightarrow> mem \<Rightarrow> addr result" where
  "CIRCLEQ_NEXT f elm m = ptr_ld m elm (entry1 f elm)"

definition CIRCLEQ_PREV :: "addr \<Rightarrow> addr \<Rightarrow> mem \<Rightarrow> addr result" where
  "CIRCLEQ_PREV f elm m = ptr_ld m elm (entry2 f elm)"

definition CIRCLEQ_LOOP_NEXT :: "addr \<Rightarrow> addr \<Rightarrow> addr \<Rightarrow> mem \<Rightarrow> addr result" where
  "CIRCLEQ_LOOP_NEXT f head elm m =
     res_bind (ptr_ld m elm (entry1 f elm)) (\<lambda>n. if n = head then ptr_ld m head head else ptr_ld m elm (entry1 f elm))"

definition CIRCLEQ_LOOP_PREV :: "addr \<Rightarrow> addr \<Rightarrow> addr \<Rightarrow> mem \<Rightarrow> addr result" where
  "CIRCLEQ_LOOP_PREV f head elm m =
     res_bind (ptr_ld m elm (entry2 f elm)) (\<lambda>p. if p = head then ptr_ld m head (word2 head) else ptr_ld m elm (entry2 f elm))"

definition CIRCLEQ_INIT :: "addr \<Rightarrow> mem \<Rightarrow> mem result" where
  "CIRCLEQ_INIT head m = res_bind (ptr_st m head head head) (\<lambda>m. ptr_st m head (word2 head) head)"

definition CIRCLEQ_INSERT_AFTER :: "addr \<Rightarrow> addr \<Rightarrow> addr \<Rightarrow> addr \<Rightarrow> mem \<Rightarrow> mem result" where
  "CIRCLEQ_INSERT_AFTER f head listelm elm m =
     res_bind (ptr_ld m listelm (entry1 f listelm)) (\<lambda>n.
     res_bind (ptr_st m elm (entry1 f elm) n) (\<lambda>m.
     res_bind (ptr_st m elm (entry2 f elm) listelm) (\<lambda>m.
     res_bind (ptr_ld m listelm (entry1 f listelm)) (\<lambda>n.
     res_bind (if n = head then ptr_st m head (word2 head) elm else ptr_st m n (entry2 f n) elm) (\<lambda>m.
     ptr_st m listelm (entry1 f listelm) elm)))))"

definition CIRCLEQ_INSERT_BEFORE :: "addr \<Rightarrow> addr \<Rightarrow> addr \<Rightarrow> addr \<Rightarrow> mem \<Rightarrow> mem result" where
  "CIRCLEQ_INSERT_BEFORE f head listelm elm m =
     res_bind (ptr_st m elm (entry1 f elm) listelm) (\<lambda>m.
     res_bind (ptr_ld m listelm (entry2 f listelm)) (\<lambda>p.
     res_bind (ptr_st m elm (entry2 f elm) p) (\<lambda>m.
     res_bind (ptr_ld m listelm (entry2 f listelm)) (\<lambda>p.
     res_bind (if p = head then ptr_st m head head elm else ptr_st m p (entry1 f p) elm) (\<lambda>m.
     ptr_st m listelm (entry2 f listelm) elm)))))"

definition CIRCLEQ_INSERT_HEAD :: "addr \<Rightarrow> addr \<Rightarrow> addr \<Rightarrow> mem \<Rightarrow> mem result" where
  "CIRCLEQ_INSERT_HEAD f head elm m =
     res_bind (ptr_ld m head head) (\<lambda>x.
     res_bind (ptr_st m elm (entry1 f elm) x) (\<lambda>m.
     res_bind (ptr_st m elm (entry2 f elm) head) (\<lambda>m.
     res_bind (ptr_ld m head (word2 head)) (\<lambda>l.
     res_bind (if l = head then ptr_st m head (word2 head) elm
               else res_bind (ptr_ld m head head) (\<lambda>x. ptr_st m x (entry2 f x) elm)) (\<lambda>m.
     ptr_st m head head elm)))))"

definition CIRCLEQ_INSERT_TAIL :: "addr \<Rightarrow> addr \<Rightarrow> addr \<Rightarrow> mem \<Rightarrow> mem result" where
  "CIRCLEQ_INSERT_TAIL f head elm m =
     res_bind (ptr_st m elm (entry1 f elm) head) (\<lambda>m.
     res_bind (ptr_ld m head (word2 head)) (\<lambda>l.
     res_bind (ptr_st m elm (entry2 f elm) l) (\<lambda>m.
     res_bind (ptr_ld m head head) (\<lambda>x.
     res_bind (if x = head then ptr_st m head head elm
               else res_bind (ptr_ld m head (word2 head)) (\<lambda>l. ptr_st m l (entry1 f l) elm)) (\<lambda>m.
     ptr_st m head (word2 head) elm)))))"

definition CIRCLEQ_REMOVE :: "addr \<Rightarrow> addr \<Rightarrow> addr \<Rightarrow> mem \<Rightarrow> mem result" where
  "CIRCLEQ_REMOVE f head elm m =
     res_bind (ptr_ld m elm (entry1 f elm)) (\<lambda>n.
     res_bind (ptr_ld m elm (entry2 f elm)) (\<lambda>p.
     res_bind (if n = head then ptr_st m head (word2 head) p else ptr_st m n (entry2 f n) p) (\<lambda>m.
     res_bind (ptr_ld m elm (entry2 f elm)) (\<lambda>p.
     res_bind (ptr_ld m elm (entry1 f elm)) (\<lambda>n.
     if p = head then ptr_st m head head n else ptr_st m p (entry1 f p) n)))))"

definition CIRCLEQ_FOREACH :: "addr \<Rightarrow> addr \<Rightarrow> mem \<Rightarrow> addr list result option" where
  "CIRCLEQ_FOREACH f head m =
     (case ptr_ld m head head of Inl e \<Rightarrow> Some (Inl e) | Inr x \<Rightarrow> visit m (entry1 f) head x)"

definition CIRCLEQ_FOREACH_REVERSE :: "addr \<Rightarrow> addr \<Rightarrow> mem \<Rightarrow> addr list result option" where
  "CIRCLEQ_FOREACH_REVERSE f head m =
     (case ptr_ld m head (word2 head) of Inl e \<Rightarrow> Some (Inl e) | Inr x \<Rightarrow> visit m (entry2 f) head x)"

fun circleq_exec :: "addr \<Rightarrow> addr \<Rightarrow> qop \<Rightarrow> mem \<Rightarrow> mem result option" where
  "circleq_exec f head (Insert_head e) m = Some (CIRCLEQ_INSERT_HEAD f head e m)"
| "circleq_exec f head (Insert_tail e) m = Some (CIRCLEQ_INSERT_TAIL f head e m)"
| "circleq_exec f head (Insert_after x e) m = Some (CIRCLEQ_INSERT_AFTER f head x e m)"
| "circleq_exec f head (Insert_before x e) m = Some (CIRCLEQ_INSERT_BEFORE f head x e m)"
| "circleq_exec f head (Remove e) m = Some (CIRCLEQ_REMOVE f head e m)"
| "circleq_exec f head _ m = None"

subsection \<open>Shape\<close>

definition cwords1 :: "addr \<Rightarrow> addr \<Rightarrow> addr set \<Rightarrow> addr set" where
  "cwords1 f head E = words1 f head E"

definition cwords2 :: "addr \<Rightarrow> addr \<Rightarrow> addr set \<Rightarrow> addr set" where
  "cwords2 f head E = words1 (f + 8) (word2 head) E"

definition circleq :: "addr \<Rightarrow> addr \<Rightarrow> addr set \<Rightarrow> mem \<Rightarrow> addr list \<Rightarrow> bool" where
  "circleq f head E m xs \<longleftrightarrow>
     forward_to head f head E m xs \<and> forward_to head (f + 8) (word2 head) E m (rev xs) \<and>
     cwords1 f head E \<inter> cwords2 f head E = {} \<and> head \<notin> E"

text \<open>What the memory of the queue has to provide before it is initialised.\<close>

definition room_c :: "addr \<Rightarrow> addr \<Rightarrow> addr set \<Rightarrow> mem \<Rightarrow> bool" where
  "room_c f head E m \<longleftrightarrow>
     room f head E m \<and> room (f + 8) (word2 head) E m \<and> cwords1 f head E \<inter> cwords2 f head E = {} \<and> head \<notin> E"

text \<open>
  The words that point forwards to \<open>zs\<close> from \<open>ps\<close>, and backwards to \<open>ps\<close> from \<open>zs\<close>.
\<close>

definition fword :: "addr \<Rightarrow> addr \<Rightarrow> addr list \<Rightarrow> addr" where
  "fword f head ps = (if ps = [] then head else entry1 f (last ps))"

definition bword :: "addr \<Rightarrow> addr \<Rightarrow> addr list \<Rightarrow> addr" where
  "bword f head zs = (if zs = [] then word2 head else entry2 f (hd zs))"

definition last_or :: "addr \<Rightarrow> addr list \<Rightarrow> addr" where
  "last_or fin ps = (if ps = [] then fin else last ps)"

fun circleq_supports :: "qop \<Rightarrow> bool" where
  "circleq_supports Remove_head = False"
| "circleq_supports _ = True"

abbreviation circleq_words :: "addr \<Rightarrow> addr \<Rightarrow> addr set \<Rightarrow> addr set" where
  "circleq_words f head E \<equiv> cwords1 f head E \<union> cwords2 f head E"

subsection \<open>Both directions\<close>

lemma entry1_8: "entry1 (f + 8) = entry2 f"
  by (simp add: fun_eq_iff entry1_def entry2_def word2_def add.assoc)

lemma words_in [simp]:
  "head \<in> cwords1 f head E" "word2 head \<in> cwords2 f head E" "e \<in> E \<Longrightarrow> entry1 f e \<in> cwords1 f head E"
  "e \<in> E \<Longrightarrow> entry2 f e \<in> cwords2 f head E"
  by (simp_all add: cwords1_def cwords2_def words1_def entry1_8)

lemma last_word_fword: "last_word f head ps = fword f head ps"
  by (cases "ps = []") (simp_all add: fword_def last_word_nonempty)

lemma last_word_bword: "last_word (f + 8) (word2 head) (rev zs) = bword f head zs"
  by (cases zs) (simp_all add: bword_def entry1_8)

lemma first_or_rev: "first_or fin (rev ps) = last_or fin ps"
  by (cases ps rule: rev_cases) (simp_all add: last_or_def)

lemma circleqD:
  assumes "circleq f head E m xs"
  shows "forward_to head f head E m xs" "forward_to head (f + 8) (word2 head) E m (rev xs)"
    "head \<notin> E" "NULL \<notin> E" "set xs \<subseteq> E" "distinct xs" "head \<noteq> NULL" "m head = Some (first_or head xs)"
    "m (word2 head) = Some (last_or head xs)" "head \<in> dom m" "word2 head \<in> dom m"
proof -
  show a: "forward_to head f head E m xs" and b: "forward_to head (f + 8) (word2 head) E m (rev xs)" and "head \<notin> E"
    using assms by (simp_all add: circleq_def)
  from forward_head [OF a] forward_head [OF b] show "NULL \<notin> E" "set xs \<subseteq> E" "distinct xs" "head \<noteq> NULL"
    "m head = Some (first_or head xs)" "m (word2 head) = Some (last_or head xs)" "head \<in> dom m" "word2 head \<in> dom m"
    by (simp_all add: first_or_rev)
qed

lemma circleq_apart:
  assumes "circleq f head E m xs" and "a \<in> cwords1 f head E" and "b \<in> cwords2 f head E"
  shows "a \<noteq> b" "b \<noteq> a"
  using assms by (auto simp: circleq_def)

lemma circleq_pool:
  assumes "circleq f head E m xs" and "e \<in> E"
  shows "e \<noteq> NULL" "e \<noteq> head" "entry1 f e \<in> dom m" "entry2 f e \<in> dom m" "entry1 f e \<noteq> head" "head \<noteq> entry1 f e"
    "entry2 f e \<noteq> word2 head" "word2 head \<noteq> entry2 f e"
proof -
  note c = circleqD [OF assms(1)]
  from forward_pool [OF c(1) assms(2)] forward_pool [OF c(2) assms(2)] c(3) assms(2)
  show "e \<noteq> NULL" "e \<noteq> head" "entry1 f e \<in> dom m" "entry2 f e \<in> dom m" "entry1 f e \<noteq> head" "head \<noteq> entry1 f e"
    "entry2 f e \<noteq> word2 head" "word2 head \<noteq> entry2 f e" by (auto simp: entry1_8)
qed

lemma circleq_cross:
  assumes "circleq f head E m xs" and "e \<in> E"
  shows "entry1 f e \<noteq> word2 head" "word2 head \<noteq> entry1 f e" "entry2 f e \<noteq> head" "head \<noteq> entry2 f e"
    "x \<in> E \<Longrightarrow> entry1 f e \<noteq> entry2 f x" "x \<in> E \<Longrightarrow> entry2 f x \<noteq> entry1 f e"
  using circleq_apart [OF assms(1)] assms(2) by (metis words_in)+

lemma circleq_elem:
  assumes "circleq f head E m (ps @ x # zs)"
  shows "x \<in> E" "m (entry1 f x) = Some (first_or head zs)" "m (entry2 f x) = Some (last_or head ps)"
proof -
  note c = circleqD [OF assms]
  show "x \<in> E" using c(5) by simp
  show "m (entry1 f x) = Some (first_or head zs)" using forward_elem(5) [OF c(1)] .
  have "forward_to head (f + 8) (word2 head) E m (rev zs @ x # rev ps)" using c(2) by simp
  from forward_elem(5) [OF this] show "m (entry2 f x) = Some (last_or head ps)" by (simp add: entry1_8 first_or_rev)
qed

lemma circleq_word:
  assumes "circleq f head E m (ps @ zs)"
  shows "fword f head ps \<in> cwords1 f head E" "bword f head zs \<in> cwords2 f head E"
    "fword f head ps \<in> dom m" "bword f head zs \<in> dom m"
proof -
  note c = circleqD [OF assms]
  have b: "forward_to head (f + 8) (word2 head) E m (rev zs @ rev ps)" using c(2) by simp
  from forward_word [OF c(1), unfolded last_word_fword] forward_word [OF b, unfolded last_word_bword]
  show "fword f head ps \<in> cwords1 f head E" "bword f head zs \<in> cwords2 f head E"
    "fword f head ps \<in> dom m" "bword f head zs \<in> dom m"
    by (simp_all add: cwords1_def cwords2_def)
qed

lemma forward_same:
  assumes "forward_to fin f h E m xs" and "\<And>a. a \<in> words1 f h E \<Longrightarrow> m' a = m a"
  shows "forward_to fin f h E m' xs"
  using assms by (intro forward_agree [OF assms(1)]) auto

text \<open>An element enters between \<open>ps\<close> and \<open>zs\<close>, or leaves there.\<close>

lemma circleq_enter:
  assumes q: "circleq f head E m (ps @ zs)" and e: "e \<in> E" "e \<notin> set (ps @ zs)"
  defines "m' \<equiv> m(entry1 f e \<mapsto> first_or head zs, fword f head ps \<mapsto> e,
                 entry2 f e \<mapsto> last_or head ps, bword f head zs \<mapsto> e)"
  shows "circleq f head E m' (ps @ e # zs)" "within (circleq_words f head E) m m'"
proof -
  note c = circleqD [OF q] and w = circleq_word [OF q]
  have ap: "a \<in> cwords2 f head E \<Longrightarrow> a \<notin> cwords1 f head E" "a \<in> cwords1 f head E \<Longrightarrow> a \<notin> cwords2 f head E" for a
    using circleq_apart [OF q] by blast+
  have b: "forward_to head (f + 8) (word2 head) E m (rev zs @ rev ps)" using c(2) by simp
  have "forward_to head f head E (m(entry1 f e \<mapsto> first_or head zs, fword f head ps \<mapsto> e)) (ps @ e # zs)"
    using forward_insert [OF c(1) e] by (simp add: last_word_fword)
  then have f1: "forward_to head f head E m' (ps @ e # zs)"
    by (rule forward_same) (use ap(1) [of "entry2 f e"] ap(1) [OF w(2)] e in \<open>auto simp: m'_def cwords1_def [symmetric]\<close>)
  have "forward_to head (f + 8) (word2 head) E (m(entry2 f e \<mapsto> last_or head ps, bword f head zs \<mapsto> e)) (rev zs @ e # rev ps)"
    using forward_insert [OF b, of e] e by (simp add: last_word_bword first_or_rev entry1_8)
  then have "forward_to head (f + 8) (word2 head) E m' (rev zs @ e # rev ps)"
    by (rule forward_same) (use ap(2) [of "entry1 f e"] ap(2) [OF w(1)] e in \<open>auto simp: m'_def cwords2_def [symmetric]\<close>)
  with f1 q show "circleq f head E m' (ps @ e # zs)" by (simp add: circleq_def)
  show "within (circleq_words f head E) m m'" using w e by (simp add: m'_def)
qed

lemma circleq_leave:
  assumes q: "circleq f head E m (ps @ x # zs)"
  defines "m' \<equiv> m(bword f head zs \<mapsto> last_or head ps, fword f head ps \<mapsto> first_or head zs)"
  shows "circleq f head E m' (ps @ zs)" "within (circleq_words f head E) m m'"
proof -
  note c = circleqD [OF q]
  have w: "fword f head ps \<in> cwords1 f head E" "bword f head zs \<in> cwords2 f head E"
    using circleq_word(1) [OF q] circleq_word(2) [of f head E m "ps @ [x]" zs] q by simp_all
  have ap: "a \<in> cwords2 f head E \<Longrightarrow> a \<notin> cwords1 f head E" "a \<in> cwords1 f head E \<Longrightarrow> a \<notin> cwords2 f head E" for a
    using circleq_apart [OF q] by blast+
  have b: "forward_to head (f + 8) (word2 head) E m (rev zs @ x # rev ps)" using c(2) by simp
  have "forward_to head f head E (m(fword f head ps \<mapsto> first_or head zs)) (ps @ zs)"
    using forward_remove [OF c(1)] by (simp add: last_word_fword)
  then have f1: "forward_to head f head E m' (ps @ zs)"
    by (rule forward_same) (use ap(1) [OF w(2)] in \<open>auto simp: m'_def cwords1_def [symmetric]\<close>)
  have "forward_to head (f + 8) (word2 head) E (m(bword f head zs \<mapsto> last_or head ps)) (rev zs @ rev ps)"
    using forward_remove [OF b] by (simp add: last_word_bword first_or_rev)
  then have "forward_to head (f + 8) (word2 head) E m' (rev zs @ rev ps)"
    by (rule forward_same) (use ap(2) [OF w(1)] in \<open>auto simp: m'_def cwords2_def [symmetric]\<close>)
  with f1 q show "circleq f head E m' (ps @ zs)" by (simp add: circleq_def)
  show "within (circleq_words f head E) m m'" using w by (simp add: m'_def)
qed

subsection \<open>The memory after each macro\<close>

lemma last_or_simps [simp]: "last_or fin [] = fin" "last_or fin (ps @ [x]) = x"
  by (simp_all add: last_or_def)

lemma fword_simps [simp]: "fword f head [] = head" "fword f head (ps @ [x]) = entry1 f x"
  by (simp_all add: fword_def)

lemma bword_simps [simp]: "bword f head [] = word2 head" "bword f head (z # zs) = entry2 f z"
  by (simp_all add: bword_def)

text \<open>The four updates of an insertion in the order of the source.\<close>

lemma enter_order:
  assumes "p \<noteq> b" and "e2 \<noteq> p" and "e2 \<noteq> e1"
  shows "m(e1 \<mapsto> n, e2 \<mapsto> l, b \<mapsto> e, p \<mapsto> e) = m(e1 \<mapsto> n, p \<mapsto> e, e2 \<mapsto> l, b \<mapsto> e)"
    and "m(e1 \<mapsto> n, e2 \<mapsto> l, p \<mapsto> e, b \<mapsto> e) = m(e1 \<mapsto> n, p \<mapsto> e, e2 \<mapsto> l, b \<mapsto> e)"
  using assms by (auto simp: fun_eq_iff)

lemma CIRCLEQ_INSERT_AFTER_ok:
  assumes q: "circleq f head E m (ps @ x # zs)" and e: "e \<in> E" "e \<notin> set (ps @ x # zs)"
  shows "\<exists>m'. CIRCLEQ_INSERT_AFTER f head x e m = Inr m' \<and> circleq f head E m' (ps @ x # e # zs) \<and>
    within (circleq_words f head E) m m'"
proof -
  note c = circleqD [OF q] and x = circleq_elem [OF q] and pe = circleq_pool [OF q e(1)] and ce = circleq_cross [OF q e(1)]
  note px = circleq_pool [OF q x(1)] and cx = circleq_cross [OF q x(1)]
  have q': "circleq f head E m ((ps @ [x]) @ zs)" and e': "e \<notin> set ((ps @ [x]) @ zs)" using q e by simp_all
  note w = circleq_word [OF q'] and r = circleq_enter [OF q' e(1) e']
  have "CIRCLEQ_INSERT_AFTER f head x e m =
      Inr (m(entry1 f e \<mapsto> first_or head zs, entry2 f e \<mapsto> x, bword f head zs \<mapsto> e, entry1 f x \<mapsto> e))"
  proof (cases zs)
    case Nil
    with c x pe ce px cx e show ?thesis by (simp add: CIRCLEQ_INSERT_AFTER_def)
  next
    case (Cons z ys)
    then have z: "z \<in> E" using c(5) by simp
    from Cons c x pe ce px cx e z circleq_pool [OF q z] circleq_cross [OF q z] show ?thesis
      by (simp add: CIRCLEQ_INSERT_AFTER_def)
  qed
  moreover have "m(entry1 f e \<mapsto> first_or head zs, entry2 f e \<mapsto> x, bword f head zs \<mapsto> e, entry1 f x \<mapsto> e) =
      m(entry1 f e \<mapsto> first_or head zs, entry1 f x \<mapsto> e, entry2 f e \<mapsto> x, bword f head zs \<mapsto> e)"
    by (rule enter_order) (use circleq_apart [OF q _ w(2)] x(1) e(1) cx ce in auto)
  ultimately show ?thesis using r by simp
qed

lemma CIRCLEQ_INSERT_BEFORE_ok:
  assumes q: "circleq f head E m (ps @ x # zs)" and e: "e \<in> E" "e \<notin> set (ps @ x # zs)"
  shows "\<exists>m'. CIRCLEQ_INSERT_BEFORE f head x e m = Inr m' \<and> circleq f head E m' (ps @ e # x # zs) \<and>
    within (circleq_words f head E) m m'"
proof -
  note c = circleqD [OF q] and x = circleq_elem [OF q] and pe = circleq_pool [OF q e(1)] and ce = circleq_cross [OF q e(1)]
  note px = circleq_pool [OF q x(1)] and cx = circleq_cross [OF q x(1)]
  note w = circleq_word [OF q] and r = circleq_enter [OF q e]
  have "CIRCLEQ_INSERT_BEFORE f head x e m =
      Inr (m(entry1 f e \<mapsto> x, entry2 f e \<mapsto> last_or head ps, fword f head ps \<mapsto> e, entry2 f x \<mapsto> e))"
  proof (cases ps rule: rev_cases)
    case Nil
    with c x pe ce px cx e show ?thesis by (auto simp: CIRCLEQ_INSERT_BEFORE_def simp del: domIff)
  next
    case (snoc ys y)
    then have y: "y \<in> E" using c(5) by simp
    from snoc c x pe ce px cx e y circleq_pool [OF q y] circleq_cross [OF q y] show ?thesis
      by (auto simp: CIRCLEQ_INSERT_BEFORE_def simp del: domIff)
  qed
  moreover have "m(entry1 f e \<mapsto> x, entry2 f e \<mapsto> last_or head ps, fword f head ps \<mapsto> e, entry2 f x \<mapsto> e) =
      m(entry1 f e \<mapsto> x, fword f head ps \<mapsto> e, entry2 f e \<mapsto> last_or head ps, entry2 f x \<mapsto> e)"
    by (rule enter_order) (use circleq_apart [OF q w(1)] x(1) e(1) ce in auto)
  ultimately show ?thesis using r by simp
qed

lemma CIRCLEQ_INSERT_HEAD_ok:
  assumes q: "circleq f head E m xs" and e: "e \<in> E" "e \<notin> set xs"
  shows "\<exists>m'. CIRCLEQ_INSERT_HEAD f head e m = Inr m' \<and> circleq f head E m' (e # xs) \<and>
    within (circleq_words f head E) m m'"
proof -
  note c = circleqD [OF q] and pe = circleq_pool [OF q e(1)] and ce = circleq_cross [OF q e(1)]
  have q': "circleq f head E m ([] @ xs)" and e': "e \<notin> set ([] @ xs)" using q e by simp_all
  note w = circleq_word [OF q'] and r = circleq_enter [OF q' e(1) e']
  have "CIRCLEQ_INSERT_HEAD f head e m =
      Inr (m(entry1 f e \<mapsto> first_or head xs, entry2 f e \<mapsto> head, bword f head xs \<mapsto> e, head \<mapsto> e))"
  proof (cases xs)
    case Nil
    with c pe ce show ?thesis by (simp add: CIRCLEQ_INSERT_HEAD_def)
  next
    case (Cons z ys)
    then have z: "z \<in> E" "last_or head xs \<noteq> head" using c(3,5) last_in_set [of xs] by (auto simp: last_or_def)
    from Cons c pe ce z circleq_pool [OF q z(1)] circleq_cross [OF q z(1)] show ?thesis
      by (simp add: CIRCLEQ_INSERT_HEAD_def)
  qed
  moreover have "m(entry1 f e \<mapsto> first_or head xs, entry2 f e \<mapsto> head, bword f head xs \<mapsto> e, head \<mapsto> e) =
      m(entry1 f e \<mapsto> first_or head xs, head \<mapsto> e, entry2 f e \<mapsto> head, bword f head xs \<mapsto> e)"
    by (rule enter_order) (use circleq_apart [OF q _ w(2)] e(1) ce in auto)
  ultimately show ?thesis using r by simp
qed

lemma CIRCLEQ_INSERT_TAIL_ok:
  assumes q: "circleq f head E m xs" and e: "e \<in> E" "e \<notin> set xs"
  shows "\<exists>m'. CIRCLEQ_INSERT_TAIL f head e m = Inr m' \<and> circleq f head E m' (xs @ [e]) \<and>
    within (circleq_words f head E) m m'"
proof -
  note c = circleqD [OF q] and pe = circleq_pool [OF q e(1)] and ce = circleq_cross [OF q e(1)]
  have q': "circleq f head E m (xs @ [])" and e': "e \<notin> set (xs @ [])" using q e by simp_all
  note w = circleq_word [OF q'] and r = circleq_enter [OF q' e(1) e']
  have "CIRCLEQ_INSERT_TAIL f head e m =
      Inr (m(entry1 f e \<mapsto> head, entry2 f e \<mapsto> last_or head xs, fword f head xs \<mapsto> e, word2 head \<mapsto> e))"
  proof (cases xs rule: rev_cases)
    case Nil
    with c pe ce show ?thesis by (simp add: CIRCLEQ_INSERT_TAIL_def)
  next
    case (snoc ys y)
    then have y: "y \<in> E" "first_or head xs \<noteq> head" using c(3,5) first_or_fin [of head xs] by auto
    from snoc c pe ce y circleq_pool [OF q y(1)] circleq_cross [OF q y(1)] show ?thesis
      by (simp add: CIRCLEQ_INSERT_TAIL_def)
  qed
  moreover have "m(entry1 f e \<mapsto> head, entry2 f e \<mapsto> last_or head xs, fword f head xs \<mapsto> e, word2 head \<mapsto> e) =
      m(entry1 f e \<mapsto> head, fword f head xs \<mapsto> e, entry2 f e \<mapsto> last_or head xs, word2 head \<mapsto> e)"
    by (rule enter_order) (use circleq_apart [OF q w(1)] e(1) ce in auto)
  ultimately show ?thesis using r by simp
qed

lemma CIRCLEQ_REMOVE_ok:
  assumes q: "circleq f head E m (ps @ x # zs)"
  shows "\<exists>m'. CIRCLEQ_REMOVE f head x m = Inr m' \<and> circleq f head E m' (ps @ zs) \<and>
    within (circleq_words f head E) m m'"
proof -
  note c = circleqD [OF q] and x = circleq_elem [OF q] and r = circleq_leave [OF q]
  note px = circleq_pool [OF q x(1)] and cx = circleq_cross [OF q x(1)]
  have b: "(if first_or head zs = head then ptr_st m head (word2 head) p else ptr_st m (first_or head zs) (entry2 f (first_or head zs)) p) =
      Inr (m(bword f head zs \<mapsto> p))" for p
  proof (cases zs)
    case (Cons z ys)
    then have "z \<in> E" using c(5) by simp
    with Cons circleq_pool [OF q] show ?thesis by simp
  qed (use c in simp)
  have f: "(if last_or head ps = head then ptr_st m' head head n else ptr_st m' (last_or head ps) (entry1 f (last_or head ps)) n) =
      Inr (m'(fword f head ps \<mapsto> n))" if "dom m \<subseteq> dom m'" for m' n
  proof (cases ps rule: rev_cases)
    case (snoc ys y)
    then have "y \<in> E" using c(5) by simp
    with snoc circleq_pool [OF q] that show ?thesis by (simp add: subset_iff)
  qed (use c that in \<open>simp add: subset_iff\<close>)
  have n: "bword f head zs \<noteq> entry1 f x" "bword f head zs \<noteq> entry2 f x"
  proof -
    have "bword f head zs \<in> cwords2 f head E" using circleq_word(2) [of f head E m "ps @ [x]" zs] q by simp
    then show "bword f head zs \<noteq> entry1 f x" using circleq_apart [OF q, of "entry1 f x"] x(1) by simp
    show "bword f head zs \<noteq> entry2 f x" using c(6) px by (cases zs) auto
  qed
  have "CIRCLEQ_REMOVE f head x m = Inr (m(bword f head zs \<mapsto> last_or head ps, fword f head ps \<mapsto> first_or head zs))"
    using x px n by (simp add: CIRCLEQ_REMOVE_def b f subset_insertI)
  with r show ?thesis by simp
qed

subsection \<open>The contract, and going round\<close>

lemma CIRCLEQ_FOREACH_list:
  assumes "circleq f head E m xs"
  shows "CIRCLEQ_FOREACH f head m = Some (Inr xs)"
  using circleqD [OF assms] visit_forward_to [of head f head E m xs] by (simp add: CIRCLEQ_FOREACH_def)

lemma CIRCLEQ_FOREACH_REVERSE_list:
  assumes "circleq f head E m xs"
  shows "CIRCLEQ_FOREACH_REVERSE f head m = Some (Inr (rev xs))"
  using circleqD [OF assms] visit_forward_to [of head "f + 8" "word2 head" E m "rev xs"]
  by (simp add: CIRCLEQ_FOREACH_REVERSE_def entry1_8 first_or_rev)

lemma circleq_exec_rep:
  assumes q: "circleq f head E m xs" and "circleq_supports op" and "qvalid E xs op"
  shows "\<exists>m'. circleq_exec f head op m = Some (Inr m') \<and> circleq f head E m' (qspec op xs) \<and> within (circleq_words f head E) m m'"
proof (cases op)
  case (Insert_head e)
  with assms CIRCLEQ_INSERT_HEAD_ok [of f head E m xs e] show ?thesis by auto
next
  case (Insert_tail e)
  with assms CIRCLEQ_INSERT_TAIL_ok [of f head E m xs e] show ?thesis by auto
next
  case (Insert_after x e)
  with assms obtain ps zs where "xs = ps @ x # zs" "x \<notin> set ps" by (auto dest: split_list_first)
  with Insert_after assms CIRCLEQ_INSERT_AFTER_ok [of f head E m ps x zs e] show ?thesis by (auto simp: put_after_split)
next
  case (Insert_before x e)
  with assms obtain ps zs where "xs = ps @ x # zs" "x \<notin> set ps" by (auto dest: split_list_first)
  with Insert_before assms CIRCLEQ_INSERT_BEFORE_ok [of f head E m ps x zs e] show ?thesis by (auto simp: put_before_split)
next
  case (Remove x)
  with assms obtain ps zs where "xs = ps @ x # zs" "x \<notin> set ps" by (auto dest: split_list_first)
  with Remove assms CIRCLEQ_REMOVE_ok [of f head E m ps x zs] show ?thesis by (auto simp: remove1_split)
qed (use assms in auto)

interpretation cq: intrusive_list "circleq f head E" E "circleq_words f head E" circleq_supports "circleq_exec f head"
    "CIRCLEQ_FOREACH f head" for f head E
proof unfold_locales
  fix m m' xs assume q: "circleq f head E m xs" and a: "\<And>a. a \<in> circleq_words f head E \<Longrightarrow> m' a = m a"
  have "forward_to head f head E m' xs" "forward_to head (f + 8) (word2 head) E m' (rev xs)"
    using forward_same [OF circleqD(1) [OF q]] forward_same [OF circleqD(2) [OF q]] a
    by (simp_all add: cwords1_def cwords2_def)
  with q show "circleq f head E m' xs" by (simp add: circleq_def)
qed (simp_all add: circleq_exec_rep CIRCLEQ_FOREACH_list)

lemma CIRCLEQ_INIT_ok:
  assumes "room_c f head E m"
  shows "CIRCLEQ_INIT head m = Inr (m(head \<mapsto> head, word2 head \<mapsto> head))"
    and "circleq f head E (m(head \<mapsto> head, word2 head \<mapsto> head)) []"
proof -
  have r: "room f head E m" "room (f + 8) (word2 head) E m" "cwords1 f head E \<inter> cwords2 f head E = {}" "head \<notin> E"
    using assms by (simp_all add: room_c_def)
  then show "CIRCLEQ_INIT head m = Inr (m(head \<mapsto> head, word2 head \<mapsto> head))"
    by (simp add: CIRCLEQ_INIT_def room_def)
  let ?m = "m(head \<mapsto> head, word2 head \<mapsto> head)"
  have n: "word2 head \<notin> cwords1 f head E" "head \<notin> cwords2 f head E" using r(3) words_in by blast+
  have "forward_to head f head E ?m []"
    by (rule forward_same [OF forward_init [OF r(1), of head]]) (use n in \<open>auto simp: cwords1_def [symmetric]\<close>)
  moreover have "forward_to head (f + 8) (word2 head) E ?m []"
    by (rule forward_same [OF forward_init [OF r(2), of head]]) (use n in \<open>auto simp: cwords2_def [symmetric]\<close>)
  ultimately show "circleq f head E ?m []" using r by (simp add: circleq_def)
qed

text \<open>The looping accesses go round without the head.\<close>

lemma CIRCLEQ_LOOP_NEXT_list:
  assumes q: "circleq f head E m (ps @ x # zs)"
  shows "CIRCLEQ_LOOP_NEXT f head x m = Inr (first_or (first_or x ps) zs)"
proof -
  note c = circleqD [OF q] and x = circleq_elem [OF q] and px = circleq_pool [OF q circleq_elem(1) [OF q]]
  have "first_or head (ps @ x # zs) = first_or x ps" by (cases ps) simp_all
  moreover have "first_or head zs = head \<longleftrightarrow> zs = []" using c(3,5) by (intro first_or_fin) auto
  ultimately show ?thesis using c x px by (cases zs) (simp_all add: CIRCLEQ_LOOP_NEXT_def)
qed

lemma CIRCLEQ_LOOP_PREV_list:
  assumes q: "circleq f head E m (ps @ x # zs)"
  shows "CIRCLEQ_LOOP_PREV f head x m = Inr (last_or (last_or x zs) ps)"
proof -
  note c = circleqD [OF q] and x = circleq_elem [OF q] and px = circleq_pool [OF q circleq_elem(1) [OF q]]
  have "last_or head (ps @ x # zs) = last_or x zs" by (simp add: last_or_def)
  moreover have "last_or head ps = head \<longleftrightarrow> ps = []" using c(3,5) by (cases ps rule: rev_cases) auto
  ultimately show ?thesis using c x px by (cases ps rule: rev_cases) (simp_all add: CIRCLEQ_LOOP_PREV_def)
qed

end
