(* ===== verification/Intrusive_Lists.thy ===== *)
theory Intrusive_Lists
  imports Queue_Single Queue_Double Queue_Circle
begin

section \<open>The list macros as a whole\<close>

text \<open>
  Properties of the macros of \<^verbatim>\<open>sys/queue.h\<close> that rest on the interpretations of \<open>intrusive_list\<close>: what
  any sequence of operations leaves, that the structures agree with each other, and that lists in
  separate memory do not disturb each other.
\<close>

text \<open>Operations on two lists in any order: \<open>Inl\<close> on the first one, \<open>Inr\<close> on the second one.\<close>

fun run_two ::
    "(qop \<Rightarrow> mem \<Rightarrow> mem result option) \<Rightarrow> (qop \<Rightarrow> mem \<Rightarrow> mem result option) \<Rightarrow> (qop + qop) list \<Rightarrow> mem \<Rightarrow>
     mem result option" where
  "run_two exec1 exec2 [] m = Some (Inr m)"
| "run_two exec1 exec2 (q # qs) m =
     (case (case q of Inl a \<Rightarrow> exec1 a m | Inr b \<Rightarrow> exec2 b m) of
        None \<Rightarrow> None
      | Some (Inl e) \<Rightarrow> Some (Inl e)
      | Some (Inr m') \<Rightarrow> run_two exec1 exec2 qs m')"

fun lefts :: "('a + 'b) list \<Rightarrow> 'a list" where
  "lefts [] = []"
| "lefts (Inl a # qs) = a # lefts qs"
| "lefts (Inr b # qs) = lefts qs"

fun rights :: "('a + 'b) list \<Rightarrow> 'b list" where
  "rights [] = []"
| "rights (Inl a # qs) = rights qs"
| "rights (Inr b # qs) = b # rights qs"

text \<open>A memory of twelve words: heads at 8 and 24, entries at 40 and on for elements from 32 on.\<close>

definition demo_mem :: mem where
  "demo_mem = map_of (map (\<lambda>a. (a, 0)) [8, 16, 24, 32, 40, 48, 56, 64, 72, 80, 88, 96])"

lemma run_two_rep:
  assumes A: "intrusive_list rep1 E1 R1 sup1 ex1 each1" and B: "intrusive_list rep2 E2 R2 sup2 ex2 each2"
    and disj: "R1 \<inter> R2 = {}"
  shows "rep1 m xs \<Longrightarrow> rep2 m ys \<Longrightarrow> \<forall>q \<in> set (lefts qs). sup1 q \<Longrightarrow> \<forall>q \<in> set (rights qs). sup2 q \<Longrightarrow>
    all_valid E1 xs (lefts qs) \<Longrightarrow> all_valid E2 ys (rights qs) \<Longrightarrow>
    \<exists>m'. run_two ex1 ex2 qs m = Some (Inr m') \<and> rep1 m' (fold qspec (lefts qs) xs) \<and> rep2 m' (fold qspec (rights qs) ys)"
proof (induction qs arbitrary: m xs ys)
  case (Cons q qs)
  show ?case
  proof (cases q)
    case (Inl a)
    with intrusive_list.exec_rep [OF A, of m xs a] Cons.prems obtain m' where
      m': "ex1 a m = Some (Inr m')" "rep1 m' (qspec a xs)" "within R1 m m'" by auto
    with intrusive_list.elsewhere [OF B Cons.prems(2) m'(3) disj] Cons.IH [of m' "qspec a xs" ys] Cons.prems Inl
    show ?thesis by simp
  next
    case (Inr b)
    with intrusive_list.exec_rep [OF B, of m ys b] Cons.prems obtain m' where
      m': "ex2 b m = Some (Inr m')" "rep2 m' (qspec b ys)" "within R2 m m'" by auto
    have "R2 \<inter> R1 = {}" using disj by blast
    with intrusive_list.elsewhere [OF A Cons.prems(1) m'(3)] Cons.IH [of m' xs "qspec b ys"] Cons.prems Inr m'
    show ?thesis by simp
  qed
qed simp

lemma demo_room: "room_t 8 8 {32, 48, 64} demo_mem" "room_c 8 8 {32, 48, 64} demo_mem" "room_q 8 8 {32, 48, 64} demo_mem"
  by (simp_all add: room_t_def room_c_def room_q_def room_def room2_def demo_mem_def entry1_def entry2_def word2_def
      cwords1_def cwords2_def words1_def)

text \<open>A head with a static initialiser is in the state its macro for initialisation leaves.\<close>

lemma head_initializers:
  "room f head E m \<Longrightarrow> SLIST_INIT head m = Inr (m(head \<mapsto> SLIST_HEAD_INITIALIZER head ! 0))"
  "room f head E m \<Longrightarrow> LIST_INIT head m = Inr (m(head \<mapsto> LIST_HEAD_INITIALIZER head ! 0))"
  "room_q f head E m \<Longrightarrow> STAILQ_INIT head m =
     Inr (m(head \<mapsto> STAILQ_HEAD_INITIALIZER head ! 0, word2 head \<mapsto> STAILQ_HEAD_INITIALIZER head ! 1))"
  "room_q f head E m \<Longrightarrow> SIMPLEQ_INIT head m =
     Inr (m(head \<mapsto> SIMPLEQ_HEAD_INITIALIZER head ! 0, word2 head \<mapsto> SIMPLEQ_HEAD_INITIALIZER head ! 1))"
  "room_q f head E m \<Longrightarrow> TAILQ_INIT head m =
     Inr (m(head \<mapsto> TAILQ_HEAD_INITIALIZER head ! 0, word2 head \<mapsto> TAILQ_HEAD_INITIALIZER head ! 1))"
  "room_q f head E m \<Longrightarrow> CIRCLEQ_INIT head m =
     Inr (m(head \<mapsto> CIRCLEQ_HEAD_INITIALIZER head ! 0, word2 head \<mapsto> CIRCLEQ_HEAD_INITIALIZER head ! 1))"
  by (simp_all add: room_q_def room_def SLIST_INIT_def SLIST_HEAD_INITIALIZER_def LIST_INIT_def LIST_HEAD_INITIALIZER_def
      STAILQ_INIT_def STAILQ_HEAD_INITIALIZER_def SIMPLEQ_INIT_def SIMPLEQ_HEAD_INITIALIZER_def TAILQ_INIT_def
      TAILQ_HEAD_INITIALIZER_def CIRCLEQ_INIT_def CIRCLEQ_HEAD_INITIALIZER_def)

subsection \<open>Properties\<close>

text \<open>
  C36. A tail queue is a list: on any memory with room for it, \<open>TAILQ_INIT\<close> followed by any sequence of
  insertions and removals the caller may make ends without a fault and writes only words of the queue.
  Walking it forwards then visits exactly the elements of the specified list in order, walking it
  backwards visits them in reverse, and \<open>TAILQ_LAST\<close> is the last of them.
\<close>

theorem tailq_refines_list:
  assumes "room_t f head E m" and "\<forall>q \<in> set qs. tailq_supports q" and "all_valid E [] qs"
  shows "\<exists>m0 m'. TAILQ_INIT head m = Inr m0 \<and> run_ops (tailq_exec f head) qs m0 = Some (Inr m') \<and>
           TAILQ_FOREACH f head m' = Some (Inr (fold qspec qs [])) \<and>
           TAILQ_FOREACH_REVERSE f head m' = Some (Inr (rev (fold qspec qs []))) \<and>
           TAILQ_LAST head m' = Inr (if fold qspec qs [] = [] then NULL else last (fold qspec qs [])) \<and>
           within (tailq_words f head E) m m'"
proof -
  note i = TAILQ_INIT_ok [OF assms(1)]
  from tq.run_rep [OF i(2) assms(2,3)] obtain m' where
    m': "run_ops (tailq_exec f head) qs (m(head \<mapsto> NULL, word2 head \<mapsto> head)) = Some (Inr m')"
      "tailq f head E m' (fold qspec qs [])" "within (tailq_words f head E) (m(head \<mapsto> NULL, word2 head \<mapsto> head)) m'" by blast
  have "within (tailq_words f head E) m (m(head \<mapsto> NULL, word2 head \<mapsto> head))" by simp
  with m' i(1) TAILQ_FOREACH_list [OF m'(2)] TAILQ_FOREACH_REVERSE_list [OF m'(2)] TAILQ_LAST_list [OF m'(2)] show ?thesis
    by (blast intro: within_trans)
qed

theorem tailq_refines_list_witness:
  "\<exists>m0 m'. TAILQ_INIT 8 demo_mem = Inr m0 \<and>
     run_ops (tailq_exec 8 8) [Insert_tail 32, Insert_head 48, Insert_before 32 64, Remove 48] m0 = Some (Inr m') \<and>
     TAILQ_FOREACH 8 8 m' = Some (Inr [64, 32]) \<and> TAILQ_FOREACH_REVERSE 8 8 m' = Some (Inr [32, 64])"
  using tailq_refines_list [OF demo_room(1), of "[Insert_tail 32, Insert_head 48, Insert_before 32 64, Remove 48]"] by auto

text \<open>
  A circular queue is a list: \<open>CIRCLEQ_INIT\<close> followed by any such sequence ends without a fault, and
  walking the queue visits the elements of the specified list forwards and in reverse backwards. The
  looping accesses never return the head: from each element they go to the next and the previous one,
  and at the ends to the other end.
\<close>

lemma circleq_refines_list:
  assumes "room_c f head E m" and "\<forall>q \<in> set qs. circleq_supports q" and "all_valid E [] qs"
  shows "\<exists>m0 m'. CIRCLEQ_INIT head m = Inr m0 \<and> run_ops (circleq_exec f head) qs m0 = Some (Inr m') \<and>
           CIRCLEQ_FOREACH f head m' = Some (Inr (fold qspec qs [])) \<and>
           CIRCLEQ_FOREACH_REVERSE f head m' = Some (Inr (rev (fold qspec qs []))) \<and>
           (\<forall>ps x zs. fold qspec qs [] = ps @ x # zs \<longrightarrow>
              CIRCLEQ_LOOP_NEXT f head x m' = Inr (hd (zs @ ps @ [x])) \<and>
              CIRCLEQ_LOOP_PREV f head x m' = Inr (last (x # zs @ ps)))"
proof -
  note i = CIRCLEQ_INIT_ok [OF assms(1)]
  from cq.run_rep [OF i(2) assms(2,3)] obtain m' where
    m': "run_ops (circleq_exec f head) qs (m(head \<mapsto> head, word2 head \<mapsto> head)) = Some (Inr m')"
      "circleq f head E m' (fold qspec qs [])" by blast
  have "CIRCLEQ_LOOP_NEXT f head x m' = Inr (hd (zs @ ps @ [x])) \<and> CIRCLEQ_LOOP_PREV f head x m' = Inr (last (x # zs @ ps))"
    if s: "fold qspec qs [] = ps @ x # zs" for ps x zs
  proof -
    have "first_or (first_or x ps) zs = hd (zs @ ps @ [x])" by (cases zs; cases ps) simp_all
    moreover have "last_or (last_or x zs) ps = last (x # zs @ ps)" by (simp add: last_or_def)
    ultimately show ?thesis using CIRCLEQ_LOOP_NEXT_list CIRCLEQ_LOOP_PREV_list m'(2) unfolding s by metis
  qed
  with m' i(1) CIRCLEQ_FOREACH_list [OF m'(2)] CIRCLEQ_FOREACH_REVERSE_list [OF m'(2)] show ?thesis by blast
qed

text \<open>
  C37. The queues are interchangeable: from a singly linked tail queue, a simple queue, a tail queue and a
  circular queue with the same elements, any sequence of insertions and removals that all of them
  have ends without a fault in all of them, and walking them visits the same elements in the same
  order, whatever the offsets of the entries and the memory are.
\<close>

theorem queues_agree:
  assumes "stailq f1 h1 E m1 xs" and "stailq f2 h2 E m2 xs" and "tailq f3 h3 E m3 xs" and "circleq f4 h4 E m4 xs"
    and "\<forall>q \<in> set qs. stailq_supports q \<and> tailq_supports q" and "all_valid E xs qs"
  shows "\<exists>m1' m2' m3' m4' ys.
           run_ops (stailq_exec f1 h1) qs m1 = Some (Inr m1') \<and> STAILQ_FOREACH f1 h1 m1' = Some (Inr ys) \<and>
           run_ops (simpleq_exec f2 h2) qs m2 = Some (Inr m2') \<and> SIMPLEQ_FOREACH f2 h2 m2' = Some (Inr ys) \<and>
           run_ops (tailq_exec f3 h3) qs m3 = Some (Inr m3') \<and> TAILQ_FOREACH f3 h3 m3' = Some (Inr ys) \<and>
           run_ops (circleq_exec f4 h4) qs m4 = Some (Inr m4') \<and> CIRCLEQ_FOREACH f4 h4 m4' = Some (Inr ys)"
proof -
  have "circleq_supports q" if "tailq_supports q" for q using that by (cases q) simp_all
  with assms(5) have s: "\<forall>q \<in> set qs. stailq_supports q" "\<forall>q \<in> set qs. tailq_supports q" "\<forall>q \<in> set qs. circleq_supports q"
    by auto
  from sq.run_each [OF assms(1) s(1) assms(6)] mq.run_each [OF assms(2) s(1) assms(6)]
    tq.run_each [OF assms(3) s(2) assms(6)] cq.run_each [OF assms(4) s(3) assms(6)]
  show ?thesis by blast
qed

theorem queues_agree_witness:
  "\<exists>m1' m4' ys. run_ops (stailq_exec 8 8) [Insert_tail 32, Insert_tail 48] (demo_mem(8 \<mapsto> 0, 16 \<mapsto> 8)) = Some (Inr m1') \<and>
     STAILQ_FOREACH 8 8 m1' = Some (Inr ys) \<and>
     run_ops (circleq_exec 8 8) [Insert_tail 32, Insert_tail 48] (demo_mem(8 \<mapsto> 8, 16 \<mapsto> 8)) = Some (Inr m4') \<and>
     CIRCLEQ_FOREACH 8 8 m4' = Some (Inr ys)"
proof -
  have w: "word2 8 = 16" by (simp add: word2_def)
  note i = STAILQ_INIT_ok(2) [OF demo_room(3), unfolded w] TAILQ_INIT_ok(2) [OF demo_room(1), unfolded w]
    CIRCLEQ_INIT_ok(2) [OF demo_room(2), unfolded w]
  from queues_agree [OF i(1) i(1) i(2) i(3), of "[Insert_tail 32, Insert_tail 48]"] show ?thesis by auto
qed

text \<open>
  Lists in separate memory do not disturb each other: for a tail queue and a list whose words do not
  overlap, any interleaving of operations on the two ends without a fault, and walking each of them
  visits what its own operations alone specify.
\<close>

lemma lists_do_not_interfere:
  assumes "tailq f head E m xs" and "dlist g head2 F m ys" and "tailq_words f head E \<inter> dlist_words g head2 F = {}"
    and "\<forall>q \<in> set (lefts qs). tailq_supports q" and "\<forall>q \<in> set (rights qs). list_supports q"
    and "all_valid E xs (lefts qs)" and "all_valid F ys (rights qs)"
  shows "\<exists>m'. run_two (tailq_exec f head) (list_exec g head2) qs m = Some (Inr m') \<and>
           TAILQ_FOREACH f head m' = Some (Inr (fold qspec (lefts qs) xs)) \<and>
           LIST_FOREACH g head2 m' = Some (Inr (fold qspec (rights qs) ys))"
  using run_two_rep [OF tq.intrusive_list_axioms dl.intrusive_list_axioms assms(3,1,2,4-7)]
    TAILQ_FOREACH_list LIST_FOREACH_list by blast

text \<open>
  Removing needs the element: \<open>SLIST_REMOVE\<close>, \<open>STAILQ_REMOVE\<close> and \<open>SIMPLEQ_REMOVE\<close> of an element that
  is not in the list run to its end and dereference the null pointer, for every list, the empty one
  included; they neither loop nor change anything.
\<close>

lemma remove_absent_faults:
  assumes "x \<noteq> NULL" and "x \<notin> set xs"
  shows "(slist f head E m xs \<longrightarrow> SLIST_REMOVE f head x m = Some (Inl NullDeref)) \<and>
         (stailq f head E m xs \<longrightarrow>
            STAILQ_REMOVE f head x m = Some (Inl NullDeref) \<and> SIMPLEQ_REMOVE f head x m = Some (Inl NullDeref))"
  using assms by (simp add: slist_def SLIST_REMOVE_absent STAILQ_REMOVE_absent simpleq_stailq)

end
