(* ===== verification/Finder.thy ===== *)
theory Finder
  imports Small_Programs "HOL-Library.Sublist" "HOL-Library.List_Lexorder" "HOL-Library.Char_ord"
begin

section \<open>The finder scripts\<close>

text \<open>
  Models \<^verbatim>\<open>finder-app/finder.sh\<close>, which counts the files of a directory and the lines that match a
  pattern, and \<^verbatim>\<open>finder-app/finder-test.sh\<close>, which has the writer create files, runs the finder and
  compares its output; and \<^verbatim>\<open>finder-app/autorun-qemu.sh\<close>, which runs the test when the image starts.

  A path is the list of its components, and the file system maps paths to contents or directories.
  \<open>ls\<close>, the matching of \<open>grep\<close> and \<open>seq\<close> are programs outside the repository: a parameter \<open>tools\<close>, whose
  documented behaviour is \<open>tools_ok\<close>; so is the status of a shell whose \<open>cd\<close> fails, which shells differ in.
  Words that the scripts expand without quotes are taken to be single words that are neither options nor
  patterns (\<open>one_word\<close>), paths to have no dot components, and files to be text. Both scripts run under \<open>set -e\<close>: the result is the exit status with the output, where a
  failing command ends the script.

  \<open>finder.sh\<close> asks for \<^verbatim>\<open>/bin/sh\<close> but uses an arithmetic command, \<open>((...))\<close>. Shells without this extension
  take it for nested subshells that run a command of that name, which is not found: status 127. The
  parameter \<open>arith\<close> says whether the shell has it.
\<close>

datatype fnode = Reg string | Dirn

type_synonym path = "string list"
type_synonym fsys = "path \<rightharpoonup> fnode"

record tools =
  ls :: "fsys \<Rightarrow> path \<Rightarrow> string list"
  grep_line :: "string \<Rightarrow> string \<Rightarrow> bool"
  seq :: "string \<Rightarrow> string list"
  cd_status :: nat

subsection \<open>Shell and file system\<close>

definition ifs :: "char \<Rightarrow> bool" where
  "ifs c \<longleftrightarrow> c = CHR '' '' \<or> c = CHR 0x09 \<or> c = CHR 0x0A"

text \<open>The parts of a string between separators; the fields of an unquoted expansion are the non-empty ones.\<close>

fun split_at :: "(char \<Rightarrow> bool) \<Rightarrow> string \<Rightarrow> string list" where
  "split_at P [] = [[]]"
| "split_at P (c # cs) =
     (if P c then [] # split_at P cs
      else case split_at P cs of [] \<Rightarrow> [[c]] | w # ws \<Rightarrow> (c # w) # ws)"

definition fields :: "(char \<Rightarrow> bool) \<Rightarrow> string \<Rightarrow> string list" where
  "fields P s = filter (\<lambda>w. w \<noteq> []) (split_at P s)"

definition shell_words :: "string \<Rightarrow> string list" where
  "shell_words = fields ifs"

definition comps :: "string \<Rightarrow> path" where
  "comps = fields (\<lambda>c. c = CHR ''/'')"

definition resolve :: "path \<Rightarrow> string \<Rightarrow> path" where
  "resolve cwd s = (if s \<noteq> [] \<and> hd s = CHR ''/'' then comps s else cwd @ comps s)"

definition is_dir :: "fsys \<Rightarrow> path \<Rightarrow> bool" where
  "is_dir fs p \<longleftrightarrow> p = [] \<or> fs p = Some Dirn"

text \<open>The lines of a text; a last line without line feed counts.\<close>

definition text_lines :: "string \<Rightarrow> string list" where
  "text_lines s = (let ls = split_at (\<lambda>c. c = CHR 0x0A) s in if last ls = [] then butlast ls else ls)"

text \<open>\<open>grep pattern file | wc -l\<close>; a directory or a missing file gives no line.\<close>

definition grep_count :: "tools \<Rightarrow> string \<Rightarrow> fsys \<Rightarrow> path \<Rightarrow> nat" where
  "grep_count tls pat fs p =
     (case fs p of Some (Reg c) \<Rightarrow> length (filter (grep_line tls pat) (text_lines c)) | _ \<Rightarrow> 0)"

text \<open>What \<open>ls\<close> writes into a pipe, and \<open>wc -l\<close>, which counts line feeds.\<close>

definition ls_output :: "tools \<Rightarrow> fsys \<Rightarrow> path \<Rightarrow> string" where
  "ls_output tls fs p = concat (map (\<lambda>n. n @ [CHR 0x0A]) (ls tls fs p))"

definition wc_l :: "string \<Rightarrow> nat" where
  "wc_l s = length (filter (\<lambda>c. c = CHR 0x0A) s)"

text \<open>What \<open>$(...)\<close> makes of an output: trailing line feeds are dropped.\<close>

definition subst_output :: "string \<Rightarrow> string" where
  "subst_output s = rev (dropWhile (\<lambda>c. c = CHR 0x0A) (rev s))"

text \<open>\<open>[ $v != s ]\<close> without quotes: with no word, or several ordinary ones, it is an error, which counts as false.\<close>

definition test_neq :: "string \<Rightarrow> string \<Rightarrow> bool" where
  "test_neq v s = (case shell_words v of [w] \<Rightarrow> w \<noteq> s | _ \<Rightarrow> False)"

fun mkdir_p :: "path \<Rightarrow> path \<Rightarrow> fsys \<Rightarrow> fsys option" where
  "mkdir_p done [] fs = Some fs"
| "mkdir_p done (c # cs) fs =
     (case fs (done @ [c]) of
        None \<Rightarrow> mkdir_p (done @ [c]) cs (fs(done @ [c] \<mapsto> Dirn))
      | Some Dirn \<Rightarrow> mkdir_p (done @ [c]) cs fs
      | Some (Reg _) \<Rightarrow> None)"

definition rm_rf :: "path \<Rightarrow> fsys \<Rightarrow> fsys" where
  "rm_rf p fs = (\<lambda>q. if prefix p q then None else fs q)"

text \<open>Decimal numbers.\<close>

definition digit :: "nat \<Rightarrow> char" where
  "digit n = ''0123456789'' ! n"

fun dec :: "nat \<Rightarrow> string" where
  "dec n = (if n < 10 then [digit n] else dec (n div 10) @ [digit (n mod 10)])"

declare dec.simps [simp del]

text \<open>Running the writer: it opens a path whose directory exists and which is no directory itself.\<close>

definition can_open :: "fsys \<Rightarrow> string \<Rightarrow> bool" where
  "can_open fs path =
     (let p = comps path in p \<noteq> [] \<and> is_dir fs (butlast p) \<and> fs p \<noteq> Some Dirn)"

definition file_view :: "fsys \<Rightarrow> string \<rightharpoonup> string" where
  "file_view fs path = (case fs (comps path) of Some (Reg c) \<Rightarrow> Some c | _ \<Rightarrow> None)"

definition run_writer :: "string list \<Rightarrow> fsys \<Rightarrow> (nat \<times> fsys) result" where
  "run_writer argv fs =
     res_bind (writer_main argv (can_open fs) (file_view fs)) (\<lambda>(status, m).
       Inr (unat status,
         case m (argv ! 1) of
           Some c \<Rightarrow> if status = 0 then fs(comps (argv ! 1) \<mapsto> Reg c) else fs
         | None \<Rightarrow> fs))"

subsection \<open>The finder\<close>

text \<open>One pass of the loop over the words of \<open>$(ls)\<close>; \<open>Inl\<close> is the exit status.\<close>

fun finder_loop :: "bool \<Rightarrow> tools \<Rightarrow> fsys \<Rightarrow> path \<Rightarrow> string \<Rightarrow> string list \<Rightarrow> nat \<Rightarrow> nat \<Rightarrow> nat + nat \<times> nat" where
  "finder_loop arith tls fs cwd pat [] fCounter strCounter = Inr (fCounter, strCounter)"
| "finder_loop arith tls fs cwd pat (file # rest) fCounter strCounter =
     (let fCounter = fCounter + 1; p = cwd @ [file] in
      if is_dir fs p then
        (if arith then
           finder_loop arith tls fs cwd pat rest (fCounter + wc_l (ls_output tls fs p))
             (strCounter + sum_list (map (\<lambda>n. grep_count tls pat fs (p @ [n])) (ls tls fs p)))
         else Inl 127)
      else finder_loop arith tls fs cwd pat rest fCounter (strCounter + grep_count tls pat fs p))"

definition assignment_file :: path where
  "assignment_file = [''etc'', ''finder-app'', ''conf'', ''assignment.txt'']"

definition username_file :: path where
  "username_file = [''etc'', ''finder-app'', ''conf'', ''username.txt'']"

definition results_name :: string where
  "results_name = ''assignment4-results.txt''"

definition finder_output :: "nat \<Rightarrow> nat \<Rightarrow> string" where
  "finder_output f s =
     ''The number of files are '' @ dec f @ [CHR 0x0A] @
     ''and the number of matching lines are '' @ dec s @ [CHR 0x0A]"

definition finder :: "bool \<Rightarrow> tools \<Rightarrow> path \<Rightarrow> string list \<Rightarrow> fsys \<Rightarrow> nat \<times> string" where
  "finder arith tls cwd args fs =
     (case args of
        dir # pat # _ \<Rightarrow>
          (case fs assignment_file of
             Some (Reg a) \<Rightarrow>
               (let d = resolve cwd dir in
                if \<not> is_dir fs d then (cd_status tls, [])
                else if test_neq (subst_output a) ''assignment4'' then
                  (case finder_loop arith tls fs d pat (shell_words (ls_output tls fs d)) 0 0 of
                     Inl status \<Rightarrow> (status, [])
                   | Inr (f, s) \<Rightarrow> (0, finder_output f s))
                else if fs (resolve d dir @ [results_name]) \<noteq> None then
                  (0, finder_output 1 (grep_count tls pat fs (d @ [results_name])))
                else (0, finder_output 0 0))
           | _ \<Rightarrow> (1, []))
      | _ \<Rightarrow> (1, ''invalid number of arguments, must be 2!'' @ [CHR 0x0A]))"

subsection \<open>The test script\<close>

fun write_files :: "string \<Rightarrow> string \<Rightarrow> string \<Rightarrow> string list \<Rightarrow> fsys \<Rightarrow> (nat \<times> fsys) result" where
  "write_files dir username str [] fs = Inr (0, fs)"
| "write_files dir username str (i # is) fs =
     res_bind (run_writer [''./writer'', dir @ ''/'' @ username @ i @ ''.txt'', str] fs) (\<lambda>(status, fs).
       if status \<noteq> 0 then Inr (status, fs) else write_files dir username str is fs)"

text \<open>The variables \<open>NUMFILES\<close>, \<open>WRITESTR\<close> and \<open>WRITEDIR\<close>.\<close>

definition test_vars :: "bool \<Rightarrow> string list \<Rightarrow> string \<times> string \<times> string" where
  "test_vars a4 args =
     (let num = (if a4 then ''1'' else ''10''); dir = (if a4 then ''/tmp'' else ''/tmp/aeld-data''); str = ''AELD_IS_FUN'' in
      case args of
        n # s # d # _ \<Rightarrow> (n, s, ''/tmp/aeld-data/'' @ d)
      | n # _ \<Rightarrow> (n, str, dir)
      | [] \<Rightarrow> (num, str, dir))"

definition match_str :: "string \<Rightarrow> string" where
  "match_str num = ''The number of files are '' @ num @ '' and the number of matching lines are '' @ num"

fun join_words :: "string list \<Rightarrow> string" where
  "join_words [] = []"
| "join_words [w] = w"
| "join_words (w # ws) = w @ '' '' @ join_words ws"

text \<open>
  The exit status and the files left. \<open>test_neq\<close> with \<open>set -e\<close>: a test in an \<open>if\<close> that fails does not end
  the script.
\<close>

definition finder_test :: "bool \<Rightarrow> tools \<Rightarrow> path \<Rightarrow> string list \<Rightarrow> fsys \<Rightarrow> (nat \<times> fsys) result" where
  "finder_test arith tls cwd args fs =
     (case (fs assignment_file, fs username_file) of
        (Some (Reg a), Some (Reg u)) \<Rightarrow>
          (let assignment = subst_output a; username = subst_output u;
               n4 = test_neq assignment ''assignment4'';
               (num, str, dir) = test_vars (\<not> n4) args;
               fs = rm_rf (if n4 then comps dir else comps dir @ [results_name]) fs;
               made = (if test_neq assignment ''assignment1'' \<and> n4 then mkdir_p [] (comps dir) fs else Some fs) in
           case made of
             None \<Rightarrow> Inr (1, fs)
           | Some fs \<Rightarrow>
               res_bind (if n4 then write_files dir username str (seq tls num) fs
                         else run_writer [''./writer'', dir @ ''/'' @ results_name, str] fs) (\<lambda>(status, fs).
               if status \<noteq> 0 then Inr (status, fs)
               else let (rc, out) = finder arith tls cwd [dir, str] fs in
                 if rc \<noteq> 0 then Inr (rc, fs)
                 else Inr (if grep_line tls (match_str num) (join_words (shell_words (subst_output out))) then 0 else 1, fs)))
      | _ \<Rightarrow> Inr (1, fs))"

text \<open>What the start-up script of the image prints of the test before it starts a shell.\<close>

definition autorun_qemu :: "bool \<Rightarrow> tools \<Rightarrow> path \<Rightarrow> fsys \<Rightarrow> (string \<times> fsys) result" where
  "autorun_qemu arith tls cwd fs =
     res_bind (finder_test arith tls cwd [] fs) (\<lambda>(rc, fs).
     Inr (if rc = 0 then ''Completed with success!!''
          else ''Completed with failure, failed with rc='' @ dec rc, fs))"

text \<open>
  What is relied on: \<open>ls\<close> prints each visible name of a directory once, a text of letters, digits,
  blanks and the characters \<open>_\<close> and \<open>-\<close> matches itself as a pattern, \<open>seq\<close> counts from one, and a failing \<open>cd\<close> has a status other than 0.
\<close>

definition plain_char :: "char \<Rightarrow> bool" where
  "plain_char c \<longleftrightarrow>
     c \<in> set ''abcdefghijklmnopqrstuvwxyzABCDEFGHIJKLMNOPQRSTUVWXYZ0123456789_-''"

definition plain_word :: "string \<Rightarrow> bool" where
  "plain_word w \<longleftrightarrow> (\<forall>c \<in> set w. plain_char c) \<and> (w = [] \<or> hd w \<noteq> CHR ''-'')"


definition visible :: "string \<Rightarrow> bool" where
  "visible n \<longleftrightarrow> n \<noteq> [] \<and> hd n \<noteq> CHR ''.''"

definition names :: "fsys \<Rightarrow> path \<Rightarrow> string set" where
  "names fs d = {n. fs (d @ [n]) \<noteq> None \<and> visible n}"

definition tools_ok :: "tools \<Rightarrow> bool" where
  "tools_ok tls \<longleftrightarrow>
     (\<forall>fs d. finite (names fs d) \<longrightarrow> distinct (ls tls fs d) \<and> set (ls tls fs d) = names fs d) \<and>
     (\<forall>s. (\<forall>c \<in> set s. plain_char c \<or> c = CHR '' '') \<longrightarrow> grep_line tls s s) \<and>
     (\<forall>n. seq tls (dec n) = map dec [1..<Suc n]) \<and> cd_status tls \<noteq> 0"

text \<open>What an entry of the directory contributes to the two counters.\<close>

definition entry_files :: "fsys \<Rightarrow> path \<Rightarrow> string \<Rightarrow> nat" where
  "entry_files fs d n = (if is_dir fs (d @ [n]) then Suc (card (names fs (d @ [n]))) else 1)"

definition entry_lines :: "tools \<Rightarrow> string \<Rightarrow> fsys \<Rightarrow> path \<Rightarrow> string \<Rightarrow> nat" where
  "entry_lines tls pat fs d n =
     (if is_dir fs (d @ [n]) then \<Sum>k \<in> names fs (d @ [n]). grep_count tls pat fs (d @ [n, k])
      else grep_count tls pat fs (d @ [n]))"

text \<open>No entry of the subdirectories has a line feed in its name.\<close>

definition sub_lines :: "fsys \<Rightarrow> path \<Rightarrow> string \<Rightarrow> bool" where
  "sub_lines fs d n \<longleftrightarrow> finite (names fs (d @ [n])) \<and> (\<forall>k \<in> names fs (d @ [n]). CHR 0x0A \<notin> set k)"

text \<open>The name of a file the test has written.\<close>

definition file_name :: "string \<Rightarrow> string \<Rightarrow> string" where
  "file_name username i = username @ i @ ''.txt''"

text \<open>Tools that behave so: a sorted listing, equality for the matching.\<close>

fun undec :: "string \<Rightarrow> nat" where
  "undec s = fold (\<lambda>c n. 10 * n + (of_char c - 48)) s 0"

definition demo_tools :: tools where
  "demo_tools = \<lparr>ls = (\<lambda>fs d. sorted_list_of_set (names fs d)), grep_line = (\<lambda>p l. p = l),
     seq = (\<lambda>s. map dec [1..<Suc (undec s)]), cd_status = 2\<rparr>"

subsection \<open>Splitting\<close>

lemma split_at_none: "\<forall>c \<in> set xs. \<not> P c \<Longrightarrow> split_at P xs = [xs]"
  by (induction xs) auto

lemma split_at_nonempty [simp]: "split_at P xs \<noteq> []"
  by (induction xs) (auto split: list.split)

lemma split_at_append: "P c \<Longrightarrow> split_at P (xs @ c # ys) = split_at P xs @ split_at P ys"
  by (induction xs) (auto split: list.split)

lemma fields_append: "P c \<Longrightarrow> fields P (xs @ c # ys) = fields P xs @ fields P ys"
  by (simp add: fields_def split_at_append)

lemma fields_word: "\<forall>c \<in> set w. \<not> P c \<Longrightarrow> fields P w = (if w = [] then [] else [w])"
  by (simp add: fields_def split_at_none)

lemma fields_lines:
  assumes "\<forall>w \<in> set ws. w \<noteq> [] \<and> (\<forall>c \<in> set w. \<not> P c)" and "P sep"
  shows "fields P (concat (map (\<lambda>w. w @ [sep]) ws)) = ws"
  using assms(1)
proof (induction ws)
  case Nil
  show ?case by (simp add: fields_def)
next
  case (Cons w ws)
  then show ?case using fields_append [of P sep w "concat (map (\<lambda>w. w @ [sep]) ws)"] assms(2) by (simp add: fields_word)
qed

lemma comps_child:
  assumes "n \<noteq> []" and "CHR ''/'' \<notin> set n"
  shows "comps (dir @ ''/'' @ n) = comps dir @ [n]"
proof -
  have "\<forall>c \<in> set n. \<not> c = CHR ''/''" using assms(2) by auto
  from fields_word [OF this] assms(1) show ?thesis
    using fields_append [of "\<lambda>c. c = CHR ''/''" "CHR ''/''" dir n] by (simp add: comps_def)
qed

lemma text_lines_one: "s \<noteq> [] \<Longrightarrow> CHR 0x0A \<notin> set s \<Longrightarrow> text_lines s = [s]"
  using split_at_none [of s "\<lambda>c. c = CHR 0x0A"] by (fastforce simp: text_lines_def)

subsection \<open>Decimal numbers\<close>

lemma digit_cases:
  assumes "n < 10"
  shows "plain_char (digit n)" "of_char (digit n) = (48 + n :: nat)"
proof -
  have "n \<in> {0, 1, 2, 3, 4, 5, 6, 7, 8, 9}" using assms by auto
  then show "plain_char (digit n)" "of_char (digit n) = (48 + n :: nat)"
    by (auto simp: digit_def plain_char_def)
qed

lemma dec_nonempty [simp]: "dec n \<noteq> []"
  by (subst dec.simps) simp

lemma dec_plain: "c \<in> set (dec n) \<Longrightarrow> plain_char c"
proof (induction n rule: dec.induct)
  case (1 n)
  then show ?case by (cases "n < 10") (auto simp: dec.simps [of n] intro: digit_cases)
qed

lemma undec_snoc: "undec (s @ [digit d]) = 10 * undec s + d" if "d < 10"
  using that by (simp add: digit_cases)

lemma undec_dec: "undec (dec n) = n"
proof (induction n rule: dec.induct)
  case (1 n)
  show ?case
  proof (cases "n < 10")
    case True
    then show ?thesis using undec_snoc [of n "[]"] by (subst dec.simps) simp
  next
    case False
    have "undec (dec n) = 10 * undec (dec (n div 10)) + n mod 10"
      using False undec_snoc [of "n mod 10" "dec (n div 10)"] by (subst dec.simps) simp
    with 1 False show ?thesis by simp
  qed
qed

lemma dec_inj [simp]: "dec m = dec n \<longleftrightarrow> m = n"
  using undec_dec by metis

lemma demo_tools_ok: "tools_ok demo_tools"
  by (simp add: tools_ok_def demo_tools_def undec_dec del: undec.simps)

lemma plain_simps: "plain_char c \<Longrightarrow> \<not> ifs c \<and> c \<noteq> CHR ''/'' \<and> c \<noteq> CHR ''.'' \<and> c \<noteq> CHR 0x0A"
  by (auto simp: plain_char_def ifs_def)

subsection \<open>The finder\<close>

lemma tools_ls: "tools_ok tls \<Longrightarrow> finite (names fs d) \<Longrightarrow> distinct (ls tls fs d) \<and> set (ls tls fs d) = names fs d"
  by (simp add: tools_ok_def)

lemma sum_ls:
  assumes "tools_ok tls" and "finite (names fs d)"
  shows "sum_list (map g (ls tls fs d)) = sum g (names fs d)" and "length (ls tls fs d) = card (names fs d)"
  using tools_ls [OF assms] by (auto simp: sum_list_distinct_conv_sum_set distinct_card [symmetric])

lemma wc_ls: "\<forall>n \<in> set (ls tls fs d). CHR 0x0A \<notin> set n \<Longrightarrow> wc_l (ls_output tls fs d) = length (ls tls fs d)"
proof -
  have "\<forall>n \<in> set xs. CHR 0x0A \<notin> set n \<Longrightarrow> wc_l (concat (map (\<lambda>n. n @ [CHR 0x0A]) xs)) = length xs" for xs
    by (induction xs) (auto simp: wc_l_def filter_empty_conv)
  then show "\<forall>n \<in> set (ls tls fs d). CHR 0x0A \<notin> set n \<Longrightarrow> wc_l (ls_output tls fs d) = length (ls tls fs d)"
    unfolding ls_output_def .
qed

lemma wc_sub:
  assumes "tools_ok tls" and "sub_lines fs d n"
  shows "wc_l (ls_output tls fs (d @ [n])) = card (names fs (d @ [n]))"
  using assms tools_ls [OF assms(1), of fs "d @ [n]"] sum_ls(2) [OF assms(1), of fs "d @ [n]"] by (simp add: sub_lines_def wc_ls)

lemma finder_loop_counts:
  assumes "tools_ok tls" and "\<forall>n \<in> set ws. sub_lines fs d n" and "arith \<or> (\<forall>n \<in> set ws. \<not> is_dir fs (d @ [n]))"
  shows "finder_loop arith tls fs d pat ws f s =
    Inr (f + sum_list (map (entry_files fs d) ws), s + sum_list (map (entry_lines tls pat fs d) ws))"
  using assms(2,3)
proof (induction ws arbitrary: f s)
  case (Cons n ws)
  have "finite (names fs (d @ [n]))" using Cons.prems(1) by (simp add: sub_lines_def)
  with Cons show ?case by (auto simp: Let_def entry_files_def entry_lines_def sum_ls [OF assms(1)] wc_sub [OF assms(1)])
qed simp


lemma ls_words:
  assumes "tools_ok tls" and "finite (names fs d)" and "\<forall>n \<in> names fs d. \<forall>c \<in> set n. \<not> ifs c"
  shows "shell_words (ls_output tls fs d) = ls tls fs d"
proof -
  have "\<forall>w \<in> set (ls tls fs d). w \<noteq> [] \<and> (\<forall>c \<in> set w. \<not> ifs c)"
    using tools_ls [OF assms(1,2)] assms(3) by (auto simp: names_def visible_def)
  then show ?thesis unfolding shell_words_def ls_output_def by (rule fields_lines) (simp add: ifs_def)
qed

lemma finder_directory:
  assumes "tools_ok tls" and "finite (names fs d)" and "\<forall>n \<in> names fs d. sub_lines fs d n"
    and "\<forall>n \<in> names fs d. \<forall>c \<in> set n. \<not> ifs c" and "arith \<or> (\<forall>n \<in> names fs d. \<not> is_dir fs (d @ [n]))"
    and "fs assignment_file = Some (Reg a)" and "test_neq (subst_output a) ''assignment4''"
    and "resolve cwd dir = d" and "is_dir fs d"
  shows "finder arith tls cwd (dir # pat # rest) fs =
    (0, finder_output (sum (entry_files fs d) (names fs d)) (sum (entry_lines tls pat fs d) (names fs d)))"
proof -
  note l = tools_ls [OF assms(1,2)]
  have "finder_loop arith tls fs d pat (ls tls fs d) 0 0 =
      Inr (sum (entry_files fs d) (names fs d), sum (entry_lines tls pat fs d) (names fs d))"
    using finder_loop_counts [OF assms(1), of "ls tls fs d" fs d arith pat 0 0] l assms(3,5) by (simp add: sum_ls [OF assms(1,2)])
  with assms show ?thesis by (simp add: finder_def Let_def ls_words)
qed

subsection \<open>The files of the test\<close>

lemma run_writer_ok:
  assumes "can_open fs path"
  shows "run_writer [prog, path, str] fs = Inr (0, fs(comps path \<mapsto> Reg str))"
  using assms by (simp add: run_writer_def writer_cases)

lemma run_writer_fails:
  assumes "\<not> can_open fs path"
  shows "\<exists>fs'. run_writer [prog, path, str] fs = Inr (1, fs')"
  using assms by (simp add: run_writer_def writer_cases)

lemma file_name_inj: "file_name u i = file_name u j \<longleftrightarrow> i = j"
  by (simp add: file_name_def)

lemma write_files_all:
  assumes "is_dir fs (comps dir)" and "\<forall>i \<in> set is. CHR ''/'' \<notin> set (file_name u i)"
    and "\<forall>i \<in> set is. fs (comps dir @ [file_name u i]) \<noteq> Some Dirn"
  shows "\<exists>fs'. write_files dir u str is fs = Inr (0, fs') \<and>
    (\<forall>q. fs' q = (if \<exists>i \<in> set is. q = comps dir @ [file_name u i] then Some (Reg str) else fs q))"
  using assms
proof (induction "is" arbitrary: fs)
  case (Cons i "is")
  have c: "comps (dir @ ''/'' @ u @ i @ ''.txt'') = comps dir @ [file_name u i]"
    using Cons.prems(2) comps_child [of "file_name u i" dir] by (simp add: file_name_def)
  have "can_open fs (dir @ ''/'' @ u @ i @ ''.txt'')"
    using c Cons.prems by (simp add: can_open_def)
  note w = run_writer_ok [OF this, of "''./writer''" str, unfolded c]
  let ?fs = "fs(comps dir @ [file_name u i] \<mapsto> Reg str)"
  have d: "is_dir ?fs (comps dir)" and n: "\<forall>i \<in> set is. ?fs (comps dir @ [file_name u i]) \<noteq> Some Dirn"
    using Cons.prems by (auto simp: is_dir_def)
  have "\<forall>i \<in> set is. CHR ''/'' \<notin> set (file_name u i)" using Cons.prems(2) by simp
  from Cons.IH [OF d this n] obtain fs' where
    "write_files dir u str is ?fs = Inr (0, fs')"
    "\<forall>q. fs' q = (if \<exists>i \<in> set is. q = comps dir @ [file_name u i] then Some (Reg str) else ?fs q)" by blast
  with w show ?case by auto
qed simp

subsection \<open>The output of the finder\<close>

lemma subst_output_line: "x \<noteq> [] \<Longrightarrow> last x \<noteq> CHR 0x0A \<Longrightarrow> subst_output (x @ [CHR 0x0A]) = x"
  by (cases x rule: rev_cases) (simp_all add: subst_output_def)

lemma dec_fields: "fields ifs (dec n) = [dec n]"
  using dec_plain plain_simps by (subst fields_word) auto

lemma finder_output_words:
  "join_words (shell_words (subst_output (finder_output n n))) = match_str (dec n)"
proof -
  let ?a = "''The number of files are''" and ?b = "''and the number of matching lines are''"
  let ?x = "?a @ CHR '' '' # dec n @ CHR 0x0A # ?b @ CHR '' '' # dec n"
  have "last (dec n) \<noteq> CHR 0x0A" using dec_plain [of "last (dec n)" n] plain_simps by auto
  then have o: "subst_output (finder_output n n) = ?x"
    using subst_output_line [of ?x] by (simp add: finder_output_def)
  have i: "ifs CHR '' ''" "ifs CHR 0x0A" by (simp_all add: ifs_def)
  have "shell_words ?x = fields ifs ?a @ [dec n] @ fields ifs ?b @ [dec n]"
    unfolding shell_words_def using i by (simp only: fields_append dec_fields append_assoc)
  moreover have "fields ifs ?a = [''The'', ''number'', ''of'', ''files'', ''are'']"
    "fields ifs ?b = [''and'', ''the'', ''number'', ''of'', ''matching'', ''lines'', ''are'']"
    by (simp_all add: fields_def ifs_def)
  ultimately show ?thesis unfolding o by (simp add: match_str_def)
qed

lemma match_str_matches: "tools_ok tls \<Longrightarrow> grep_line tls (match_str (dec n)) (match_str (dec n))"
proof -
  assume ok: "tools_ok tls"
  let ?P = "\<lambda>c. plain_char c \<or> c = CHR '' ''"
  have "list_all ?P ''The number of files are ''" "list_all ?P '' and the number of matching lines are ''"
    by (simp_all add: plain_char_def)
  moreover have "list_all ?P (dec n)" using dec_plain by (simp add: list_all_iff)
  ultimately have "list_all ?P (match_str (dec n))" by (simp only: match_str_def list_all_append simp_thms)
  with ok show ?thesis by (simp only: tools_ok_def list_all_iff)
qed

lemma written_directory:
  assumes ok: "tools_ok tls" and u: "\<forall>c \<in> set u. plain_char c" and str: "str \<noteq> []" "\<forall>c \<in> set str. plain_char c"
    and fs: "\<forall>x. fs (d @ [x]) = (if x \<in> (\<lambda>i. file_name u (dec i)) ` {1..n} then Some (Reg str) else None)"
    and sub: "\<forall>x y. fs (d @ [x, y]) = None"
    and a: "fs assignment_file = Some (Reg a)" "test_neq (subst_output a) ''assignment4''"
    and d: "resolve cwd dir = d" "is_dir fs d"
  shows "finder arith tls cwd [dir, str] fs = (0, finder_output n n)"
proof -
  let ?f = "\<lambda>i. file_name u (dec i)"
  have pl: "c \<in> set (?f i) \<Longrightarrow> \<not> ifs c" for c i
    using u dec_plain plain_simps by (auto simp: file_name_def ifs_def)
  have vis: "visible (?f i)" for i
  proof -
    have "hd (u @ dec i) \<in> set (u @ dec i)" by (intro hd_in_set) simp
    then have "plain_char (hd (u @ dec i))" using u dec_plain by auto
    moreover have "hd (?f i) = hd (u @ dec i)" by (cases u; cases "dec i") (simp_all add: file_name_def)
    ultimately show ?thesis using plain_simps by (auto simp: visible_def file_name_def)
  qed
  have nm: "names fs d = ?f ` {1..n}" using fs vis by (auto simp: names_def)
  have nmsub: "names fs (d @ [x]) = {}" for x using sub by (simp add: names_def)
  have nd: "\<not> is_dir fs (d @ [x])" if "x \<in> names fs d" for x using that fs nm by (auto simp: is_dir_def)
  have inj: "inj_on ?f {1..n}" by (simp add: inj_on_def file_name_inj)
  have "CHR 0x0A \<notin> set str" using str(2) plain_simps by blast
  then have tl: "text_lines str = [str]" using str(1) by (intro text_lines_one)
  have m: "grep_line tls str str" using ok str(2) by (auto simp: tools_ok_def)
  have "entry_files fs d x = 1" "entry_lines tls str fs d x = 1" if "x \<in> names fs d" for x
    using nd [OF that] that fs nm tl m by (auto simp: entry_files_def entry_lines_def grep_count_def)
  then have "sum (entry_files fs d) (names fs d) = n" "sum (entry_lines tls str fs d) (names fs d) = n"
    using inj nm by (simp_all add: card_image)
  moreover have "finder arith tls cwd (dir # str # []) fs =
      (0, finder_output (sum (entry_files fs d) (names fs d)) (sum (entry_lines tls str fs d) (names fs d)))"
    by (rule finder_directory [OF ok _ _ _ _ a d]) (use nm nmsub nd pl in \<open>auto simp: sub_lines_def\<close>)
  ultimately show ?thesis by simp
qed

subsection \<open>The test\<close>

lemma mkdir_p_ok:
  assumes "\<forall>p c. prefix p cs \<and> p \<noteq> [] \<longrightarrow> fs (at @ p) \<noteq> Some (Reg c)"
  shows "\<exists>fs'. mkdir_p at cs fs = Some fs' \<and>
    (\<forall>q. fs' q = (if \<exists>p. q = at @ p \<and> prefix p cs \<and> p \<noteq> [] then Some Dirn else fs q))"
  using assms
proof (induction cs arbitrary: at fs)
  case (Cons c cs)
  let ?fs = "fs(at @ [c] \<mapsto> Dirn)"
  have "fs (at @ [c]) \<noteq> Some (Reg x)" for x using Cons.prems [rule_format, of "[c]" x] by simp
  then have step: "mkdir_p at (c # cs) fs = mkdir_p (at @ [c]) cs ?fs"
    by (auto split: option.split fnode.split simp: fun_upd_idem)
  have "\<forall>p x. prefix p cs \<and> p \<noteq> [] \<longrightarrow> ?fs ((at @ [c]) @ p) \<noteq> Some (Reg x)"
    using Cons.prems [rule_format, of "c # p" x for p x] by simp
  from Cons.IH [OF this] obtain fs' where f: "mkdir_p (at @ [c]) cs ?fs = Some fs'"
    "\<forall>q. fs' q = (if \<exists>p. q = (at @ [c]) @ p \<and> prefix p cs \<and> p \<noteq> [] then Some Dirn else ?fs q)" by blast
  have "fs' q = (if \<exists>p. q = at @ p \<and> prefix p (c # cs) \<and> p \<noteq> [] then Some Dirn else fs q)" for q
  proof -
    have "(\<exists>p. q = at @ p \<and> prefix p (c # cs) \<and> p \<noteq> []) \<longleftrightarrow>
        q = at @ [c] \<or> (\<exists>p. q = (at @ [c]) @ p \<and> prefix p cs \<and> p \<noteq> [])"
      by (auto simp: prefix_Cons)
    then show ?thesis using f(2) by auto
  qed
  with step f(1) show ?case by auto
qed simp

lemma test_vars_dir:
  assumes "test_vars False args = (num, str, dir)"
  shows "\<exists>r. dir = ''/tmp'' @ r \<and> (r = [] \<or> hd r = CHR ''/'')"
  using assms by (auto simp: test_vars_def Let_def split: list.splits)

lemma comps_tmp: "r = [] \<or> hd r = CHR ''/'' \<Longrightarrow> comps (''/tmp'' @ r) = ''tmp'' # comps r"
proof (cases r)
  case (Cons c cs)
  assume "r = [] \<or> hd r = CHR ''/''"
  with Cons show ?thesis
    using fields_append [of "\<lambda>c. c = CHR ''/''" "CHR ''/''" "''/tmp''" cs]
      fields_append [of "\<lambda>c. c = CHR ''/''" "CHR ''/''" "[]" cs] by (simp add: comps_def fields_def)
qed (simp add: comps_def fields_def)

lemma finder_test_files:
  assumes vars: "test_vars False args = (dec n, str, dir)" and d: "comps dir = ''tmp'' # r"
    and u: "\<forall>c \<in> set u. plain_char c" and reg: "\<forall>p c. strict_prefix p (comps dir) \<longrightarrow> fs p \<noteq> Some (Reg c)"
  shows "\<exists>fs1 fs2. mkdir_p [] (comps dir) (rm_rf (comps dir) fs) = Some fs1 \<and>
    write_files dir u str (map dec [1..<Suc n]) fs1 = Inr (0, fs2) \<and>
    (\<forall>x. fs2 (comps dir @ [x]) = (if x \<in> (\<lambda>i. file_name u (dec i)) ` {1..n} then Some (Reg str) else None)) \<and>
    (\<forall>x y. fs2 (comps dir @ [x, y]) = None) \<and> fs2 (comps dir) = Some Dirn \<and>
    (\<forall>q. hd q \<noteq> ''tmp'' \<longrightarrow> fs2 q = fs q)"
proof -
  let ?d = "comps dir" and ?f = "\<lambda>i. file_name u (dec i)"
  let ?rm = "rm_rf ?d fs"
  have "\<forall>p c. prefix p ?d \<and> p \<noteq> [] \<longrightarrow> ?rm ([] @ p) \<noteq> Some (Reg c)"
    using reg by (auto simp: rm_rf_def strict_prefix_def)
  from mkdir_p_ok [OF this] obtain fs1 where m: "mkdir_p [] ?d ?rm = Some fs1"
    and f1: "fs1 q = (if prefix q ?d \<and> q \<noteq> [] then Some Dirn else ?rm q)" for q by auto
  have below: "fs1 (?d @ x # xs) = None" for x xs by (simp add: f1 rm_rf_def)
  have sl: "\<forall>i \<in> set (map dec [1..<Suc n]). CHR ''/'' \<notin> set (file_name u i)"
    using u dec_plain plain_simps by (auto simp: file_name_def)
  have "is_dir fs1 ?d" using d by (simp add: is_dir_def f1)
  from write_files_all [OF this sl] below obtain fs2 where
    w: "write_files dir u str (map dec [1..<Suc n]) fs1 = Inr (0, fs2)"
    and f2: "\<forall>q. fs2 q = (if \<exists>i \<in> set (map dec [1..<Suc n]). q = ?d @ [file_name u i] then Some (Reg str) else fs1 q)"
    by fastforce
  have s: "set (map dec [1..<Suc n]) = dec ` {1..n}" by (simp add: atLeastLessThanSuc_atLeastAtMost del: upt_Suc)
  have "fs2 (?d @ [x]) = (if x \<in> ?f ` {1..n} then Some (Reg str) else None)" for x
    using f2 [rule_format, of "?d @ [x]"] below [of x "[]"] unfolding s by auto
  moreover have "fs2 (?d @ [x, y]) = None" for x y
    using f2 [rule_format, of "?d @ [x, y]"] below [of x "[y]"] unfolding s by auto
  moreover have "fs2 ?d = Some Dirn" using f2 [rule_format, of ?d] d unfolding s by (auto simp: f1)
  moreover have "fs2 q = fs q" if "hd q \<noteq> ''tmp''" for q
    using that f2 [rule_format, of q] d unfolding s by (cases q) (auto simp: f1 rm_rf_def)
  ultimately show ?thesis using m w by blast
qed


text \<open>With a relative directory the results of the fourth assignment are looked for below the directory twice.\<close>

lemma finder_results_relative:
  assumes "fs assignment_file = Some (Reg a)" and "\<not> test_neq (subst_output a) ''assignment4''"
    and "hd dir \<noteq> CHR ''/''" and "is_dir fs (cwd @ comps dir)" and "fs (cwd @ comps dir @ comps dir @ [results_name]) = None"
  shows "finder arith tls cwd (dir # pat # rest) fs = (0, finder_output 0 0)"
  using assms by (simp add: finder_def resolve_def)

text \<open>For the first assignment the directory is removed and not made again, and the writer fails.\<close>

lemma finder_test_assignment1:
  assumes "tools_ok tls" and "fs assignment_file = Some (Reg a)" and "subst_output a = ''assignment1''"
    and "fs username_file = Some (Reg u)" and "\<forall>c \<in> set (subst_output u). plain_char c"
    and "test_vars False args = (dec n, str, dir)" and "0 < n"
  shows "\<exists>fs'. finder_test arith tls cwd args fs = Inr (1, fs')"
proof -
  obtain r where "dir = ''/tmp'' @ r" "r = [] \<or> hd r = CHR ''/''" using test_vars_dir [OF assms(6)] by blast
  then have d: "comps dir \<noteq> []" by (simp only: comps_tmp) simp
  let ?fs = "rm_rf (comps dir) fs" and ?n = "file_name (subst_output u) (dec 1)"
  have "CHR ''/'' \<notin> set ?n" using assms(5) dec_plain plain_simps by (auto simp: file_name_def)
  then have "comps (dir @ ''/'' @ ?n) = comps dir @ [?n]" by (intro comps_child) (simp_all add: file_name_def)
  then have "\<not> can_open ?fs (dir @ ''/'' @ ?n)" using d by (simp add: can_open_def is_dir_def rm_rf_def)
  from run_writer_fails [OF this] obtain fs' where
    w: "run_writer [''./writer'', dir @ ''/'' @ ?n, str] ?fs = Inr (1, fs')" by blast
  have "seq tls (dec n) = dec 1 # map dec [2..<Suc n]"
    using assms(1,7) by (simp add: tools_ok_def upt_conv_Cons numeral_2_eq_2 del: upt_Suc)
  with w have "write_files dir (subst_output u) str (seq tls (dec n)) ?fs = Inr (1, fs')" by (simp add: file_name_def)
  moreover have "test_neq ''assignment1'' ''assignment4''" "\<not> test_neq ''assignment1'' ''assignment1''"
    by (simp_all add: test_neq_def shell_words_def fields_def ifs_def)
  ultimately show ?thesis using assms(2-4,6) by (simp add: finder_test_def)
qed

text \<open>
  The image that \<^verbatim>\<open>manual-linux.sh\<close> builds has the configuration in \<^verbatim>\<open>/home/conf\<close> and none where the scripts
  look for it: the test fails.
\<close>

lemma autorun_without_conf:
  "fs assignment_file = None \<Longrightarrow> autorun_qemu arith tls cwd fs = Inr (''Completed with failure, failed with rc=1'', fs)"
  by (simp add: autorun_qemu_def finder_test_def dec.simps digit_def)



text \<open>
  C30. The test script, the writer and the finder agree: where the configuration names an assignment
  other than the first and the fourth, the user name and the string are plain, and the directory can be
  made, the test ends with status 0 for every number of files.
\<close>

theorem finder_test_succeeds:
  assumes "tools_ok tls"
    and "fs assignment_file = Some (Reg a)" and "test_neq (subst_output a) ''assignment1''" and "test_neq (subst_output a) ''assignment4''"
    and "fs username_file = Some (Reg u)" and "plain_word (subst_output u)"
    and "test_vars False args = (dec n, str, dir)" and "str \<noteq> []" and "plain_word str"
    and "\<forall>c \<in> set dir. plain_char c \<or> c = CHR ''/''"
    and "\<forall>p c. strict_prefix p (comps dir) \<longrightarrow> fs p \<noteq> Some (Reg c)"
  shows "\<exists>fs'. finder_test arith tls cwd args fs = Inr (0, fs')"
proof -
  have u: "\<forall>c \<in> set (subst_output u). plain_char c" and s: "\<forall>c \<in> set str. plain_char c"
    using assms(6,9) by (simp_all add: plain_word_def)
  obtain r where r: "dir = ''/tmp'' @ r" "r = [] \<or> hd r = CHR ''/''" using test_vars_dir [OF assms(7)] by blast
  then have d: "comps dir = ''tmp'' # comps r" by (simp only: comps_tmp)
  from finder_test_files [OF assms(7) d u assms(11)] obtain fs1 fs2 where
    m: "mkdir_p [] (comps dir) (rm_rf (comps dir) fs) = Some fs1"
    and w: "write_files dir (subst_output u) str (map dec [1..<Suc n]) fs1 = Inr (0, fs2)"
    and f: "\<forall>x. fs2 (comps dir @ [x]) = (if x \<in> (\<lambda>i. file_name (subst_output u) (dec i)) ` {1..n} then Some (Reg str) else None)"
      "\<forall>x y. fs2 (comps dir @ [x, y]) = None" "fs2 (comps dir) = Some Dirn" "\<forall>q. hd q \<noteq> ''tmp'' \<longrightarrow> fs2 q = fs q" by blast
  have a: "fs2 assignment_file = Some (Reg a)" using f(4) assms(2) by (simp add: assignment_file_def)
  have "resolve cwd dir = comps dir" using r(1) by (simp add: resolve_def)
  from written_directory [OF assms(1) u assms(8) s f(1,2) a assms(4) this] f(3)
  have "finder arith tls cwd [dir, str] fs2 = (0, finder_output n n)" by (simp add: is_dir_def)
  moreover have "seq tls (dec n) = map dec [1..<Suc n]" using assms(1) by (simp add: tools_ok_def)
  ultimately show ?thesis
    using assms(2-5,7) m w match_str_matches [OF assms(1)]
    by (simp add: finder_test_def finder_output_words del: upt_Suc)
qed

theorem finder_test_succeeds_witness:
  "\<exists>fs'. finder_test False demo_tools [] []
     [assignment_file \<mapsto> Reg (''assignment3'' @ [CHR 0x0A]), username_file \<mapsto> Reg (''user'' @ [CHR 0x0A])] = Inr (0, fs')"
proof (rule finder_test_succeeds [OF demo_tools_ok])
  show "test_vars False [] = (dec 10, ''AELD_IS_FUN'', ''/tmp/aeld-data'')"
    by (simp add: test_vars_def dec.simps digit_def)
qed (auto simp: assignment_file_def username_file_def test_neq_def subst_output_def shell_words_def fields_def ifs_def
    plain_word_def plain_char_def comps_def strict_prefix_def prefix_Cons)

end
