(* ===== verification/Control_Scripts.thy ===== *)
theory Control_Scripts
  imports Driver_Life
begin

section \<open>The control scripts\<close>

text \<open>
  Models the scripts that load and unload the driver (\<^verbatim>\<open>aesd-char-driver/aesdchar_load\<close>, \<^verbatim>\<open>aesdchar_unload\<close>),
  the scripts \<^verbatim>\<open>aesd-char-driver/relaod_aesd.sh\<close>, \<^verbatim>\<open>aesd-char-driver/aesdchar-start-stop.sh\<close> and \<^verbatim>\<open>server/aesdsocket-start-stop\<close>, and
  the decisions of \<^verbatim>\<open>full-test.sh\<close>.

  The state \<open>host\<close> has the driver while it is loaded, the node \<^verbatim>\<open>/dev/aesdchar\<close>, and whether the server runs.
  The commands are programs outside the repository: a parameter \<open>cmds\<close> that gives status and new state of
  each, with the documented behaviour \<open>cmds_ok\<close>. A loaded driver is one whose \<open>aesd_init_module\<close> returned 0.
  A script gives its exit status and the state; messages are left out, and the scripts the start-up
  script calls are taken to be found.
\<close>

record dev_node =
  n_major :: s32
  n_group :: string
  n_mode :: string

record host =
  driver :: "drv option"
  node :: "dev_node option"
  staff :: bool
  local_ko :: bool
  daemon :: bool

type_synonym cmd = "host \<Rightarrow> nat \<times> host"

record cmds =
  insmod :: "string list \<Rightarrow> cmd"
  modprobe :: cmd
  rmmod :: cmd
  proc_major :: "host \<Rightarrow> s32 option"
  rm_node :: cmd
  mknod :: "s32 option \<Rightarrow> cmd"
  chgrp :: "string \<Rightarrow> cmd"
  chmod :: "string \<Rightarrow> cmd"
  start_stop_daemon :: "string list \<Rightarrow> cmd"

text \<open>The next command under \<open>set -e\<close>.\<close>

definition set_e :: "nat \<times> host \<Rightarrow> cmd \<Rightarrow> nat \<times> host" where
  "set_e r next_cmd = (if fst r \<noteq> 0 then r else next_cmd (snd r))"

definition aesdchar_load :: "cmds \<Rightarrow> string list \<Rightarrow> cmd" where
  "aesdchar_load c args h =
     (let group = (if staff h then ''staff'' else ''wheel'');
          (status, h) = (if local_ko h then insmod c args h else modprobe c h) in
      if status \<noteq> 0 then (1, h)
      else
        (let major = proc_major c h in
         set_e (rm_node c h) (\<lambda>h.
         set_e (mknod c major h) (\<lambda>h.
         set_e (chgrp c group h) (\<lambda>h.
         chmod c ''664'' h)))))"

definition aesdchar_unload :: "cmds \<Rightarrow> cmd" where
  "aesdchar_unload c h =
     (let (status, h) = rmmod c h in
      if status \<noteq> 0 then (1, h) else rm_node c h)"

definition aesdchar_start_stop :: "cmds \<Rightarrow> string \<Rightarrow> cmd" where
  "aesdchar_start_stop c mode h =
     (if mode = ''start'' then (0, snd (aesdchar_load c [] h))
      else if mode = ''stop'' then (0, snd (aesdchar_unload c h))
      else (1, h))"

text \<open>\<^verbatim>\<open>relaod_aesd.sh\<close> ignores what fails; \<open>built\<close> says whether \<open>make\<close> left a module file.\<close>

definition relaod_aesd :: "cmds \<Rightarrow> bool \<Rightarrow> cmd" where
  "relaod_aesd c built h = aesdchar_load c [] (snd (aesdchar_unload c (h\<lparr>local_ko := built\<rparr>)))"

definition aesdsocket_start_stop :: "cmds \<Rightarrow> string list \<Rightarrow> cmd" where
  "aesdsocket_start_stop c args h =
     (case args of
        [w_mode] \<Rightarrow>
          if w_mode = ''start'' then
            (0, snd (start_stop_daemon c [''-S'', ''-n'', ''aesdsocket'', ''-a'', ''/usr/bin/aesdsocket'', ''--'', ''-d''] h))
          else if w_mode = ''stop'' then (0, snd (start_stop_daemon c [''-K'', ''-n'', ''aesdsocket''] h))
          else (1, h)
      | _ \<Rightarrow> (1, h))"

text \<open>
  The status of the unit test, the assignment's name where it is configured, and the status of the test
  of an assignment where there is one.
\<close>

definition full_test :: "nat \<Rightarrow> string option \<Rightarrow> (string \<Rightarrow> nat option) \<Rightarrow> nat" where
  "full_test unit_test_rc conf assignment_test =
     (case conf of
        None \<Rightarrow> 1
      | Some assignment \<Rightarrow>
          (case assignment_test assignment of
             None \<Rightarrow> 1
           | Some rc \<Rightarrow> if rc = 0 then unit_test_rc else rc))"

text \<open>
  What is relied on. \<open>insmod\<close> refuses a loaded module and \<open>modprobe\<close> leaves it alone; both load it with
  status 0 only if its initialisation returned 0. \<^verbatim>\<open>/proc/devices\<close> lists the major number of a loaded
  driver. \<open>mknod\<close> needs a major number and a free name. A command that fails changes nothing. That
  \<open>rm -f\<close> does not fail, as it should not for root on a usual \<^verbatim>\<open>/dev\<close>, is a separate condition, \<open>rm_works\<close>.
\<close>

definition loads :: "host \<Rightarrow> host \<Rightarrow> bool" where
  "loads h h' \<longleftrightarrow> driver h = None \<and> (\<exists>st. drv_start st \<and> h' = h\<lparr>driver := Some st\<rparr>)"

definition cmd_ok :: "cmd \<Rightarrow> (host \<Rightarrow> host \<Rightarrow> bool) \<Rightarrow> bool" where
  "cmd_ok f R \<longleftrightarrow> (\<forall>h. if fst (f h) = 0 then R h (snd (f h)) else snd (f h) = h)"

definition cmds_ok :: "cmds \<Rightarrow> bool" where
  "cmds_ok c \<longleftrightarrow>
     (\<forall>args. cmd_ok (insmod c args) loads) \<and>
     cmd_ok (modprobe c) (\<lambda>h h'. if driver h = None then loads h h' else h' = h) \<and>
     cmd_ok (rmmod c) (\<lambda>h h'. driver h \<noteq> None \<and> h' = h\<lparr>driver := None\<rparr>) \<and>
     (\<forall>h. proc_major c h = map_option aesd_major (driver h)) \<and>
     cmd_ok (rm_node c) (\<lambda>h h'. h' = h\<lparr>node := None\<rparr>) \<and>
     (\<forall>m. cmd_ok (mknod c m) (\<lambda>h h'. node h = None \<and>
        (\<exists>x g md. m = Some x \<and> h' = h\<lparr>node := Some \<lparr>n_major = x, n_group = g, n_mode = md\<rparr>\<rparr>))) \<and>
     (\<forall>g. cmd_ok (chgrp c g) (\<lambda>h h'. \<exists>n. node h = Some n \<and> h' = h\<lparr>node := Some (n\<lparr>n_group := g\<rparr>)\<rparr>)) \<and>
     (\<forall>md. cmd_ok (chmod c md) (\<lambda>h h'. \<exists>n. node h = Some n \<and> h' = h\<lparr>node := Some (n\<lparr>n_mode := md\<rparr>)\<rparr>)) \<and>
     (\<forall>args h. \<exists>d. snd (start_stop_daemon c args h) = h\<lparr>daemon := d\<rparr>)"

definition rm_works :: "cmds \<Rightarrow> bool" where
  "rm_works c \<longleftrightarrow> (\<forall>h. fst (rm_node c h) = 0)"

definition cmds_in :: "bool \<Rightarrow> cmds \<Rightarrow> bool" where
  "cmds_in removes c \<longleftrightarrow> cmds_ok c \<and> (removes \<longrightarrow> rm_works c)"

text \<open>
  The host as a state machine: the scripts, with any commands that behave so, and calls of the driver.
  With \<open>removes\<close> no \<open>rm -f\<close> fails; without it any command may.
\<close>

inductive host_step :: "bool \<Rightarrow> host \<Rightarrow> host \<Rightarrow> bool" for removes where
  run_load: "cmds_in removes c \<Longrightarrow> aesdchar_load c args h = (status, h') \<Longrightarrow> host_step removes h h'"
| run_unload: "cmds_in removes c \<Longrightarrow> aesdchar_unload c h = (status, h') \<Longrightarrow> host_step removes h h'"
| run_start_stop: "cmds_in removes c \<Longrightarrow> aesdchar_start_stop c mode h = (status, h') \<Longrightarrow> host_step removes h h'"
| run_reload: "cmds_in removes c \<Longrightarrow> relaod_aesd c built h = (status, h') \<Longrightarrow> host_step removes h h'"
| run_socket: "cmds_in removes c \<Longrightarrow> aesdsocket_start_stop c args h = (status, h') \<Longrightarrow> host_step removes h h'"
| driver_call: "driver h = Some st \<Longrightarrow> drv_step st st' \<Longrightarrow> host_step removes h (h\<lparr>driver := Some st'\<rparr>)"

definition host_start :: "host \<Rightarrow> bool" where
  "host_start h \<longleftrightarrow> driver h = None \<and> node h = None"

definition host_inv :: "bool \<Rightarrow> host \<Rightarrow> bool" where
  "host_inv removes h \<longleftrightarrow>
     (\<forall>st. driver h = Some st \<longrightarrow> drv_inv st) \<and>
     (removes \<longrightarrow> (\<forall>n. node h = Some n \<longrightarrow> (\<exists>st. driver h = Some st \<and> n_major n = aesd_major st)))"

text \<open>Commands that behave so, and a host before anything was started.\<close>

definition demo_cmds :: cmds where
  "demo_cmds = \<lparr>
     insmod = (\<lambda>args h. if driver h = None then (0, h\<lparr>driver := Some loaded\<rparr>) else (1, h)),
     modprobe = (\<lambda>h. if driver h = None then (0, h\<lparr>driver := Some loaded\<rparr>) else (0, h)),
     rmmod = (\<lambda>h. if driver h = None then (1, h) else (0, h\<lparr>driver := None\<rparr>)),
     proc_major = (\<lambda>h. map_option aesd_major (driver h)),
     rm_node = (\<lambda>h. (0, h\<lparr>node := None\<rparr>)),
     mknod = (\<lambda>m h. case (m, node h) of
        (Some x, None) \<Rightarrow> (0, h\<lparr>node := Some \<lparr>n_major = x, n_group = ''root'', n_mode = ''644''\<rparr>\<rparr>) | _ \<Rightarrow> (1, h)),
     chgrp = (\<lambda>g h. case node h of Some n \<Rightarrow> (0, h\<lparr>node := Some (n\<lparr>n_group := g\<rparr>)\<rparr>) | None \<Rightarrow> (1, h)),
     chmod = (\<lambda>md h. case node h of Some n \<Rightarrow> (0, h\<lparr>node := Some (n\<lparr>n_mode := md\<rparr>)\<rparr>) | None \<Rightarrow> (1, h)),
     start_stop_daemon = (\<lambda>args h. (0, h\<lparr>daemon := (args ! 0 = ''-S'')\<rparr>))\<rparr>"

definition stubborn_cmds :: cmds where
  "stubborn_cmds = demo_cmds\<lparr>rm_node := (\<lambda>h. if node h = None then (0, h) else (1, h))\<rparr>"

definition demo_host :: host where
  "demo_host = \<lparr>driver = None, node = None, staff = False, local_ko = True, daemon = False\<rparr>"

subsection \<open>Driver calls keep the major number\<close>

named_theorems major_frame

lemma set_major [simp]:
  "aesd_major (printk m st) = aesd_major st" "aesd_major (set_heap h st) = aesd_major st"
  "aesd_major (set_lock b st) = aesd_major st"
  by (simp_all add: printk_def set_heap_def set_lock_def)

lemma case_option_Inr:
  "(case x of None \<Rightarrow> f | Some y \<Rightarrow> g y) = Inr z \<longleftrightarrow> (x = None \<and> f = Inr z) \<or> (\<exists>y. x = Some y \<and> g y = Inr z)"
  by (cases x) auto

lemma print_major [major_frame]: "aesd_buffer_print k s p i n st = Inr st' \<Longrightarrow> aesd_major st' = aesd_major st"
  by (auto simp: aesd_buffer_print_def res_simps Let_def split: option.splits if_splits)

lemma entries_major [major_frame]: "show_entries k b n i it st = Inr st' \<Longrightarrow> aesd_major st' = aesd_major st"
  by (induction n arbitrary: i it st) (fastforce simp: res_simps split: if_splits dest: print_major)+

lemma show_major [major_frame]: "aesd_show_circular_buffer k b st = Inr st' \<Longrightarrow> aesd_major st' = aesd_major st"
  by (auto simp: aesd_show_circular_buffer_def dest!: major_frame)

lemma read_major [major_frame]:
  "read_found k buff count pos um e i st = Inr (r, pos', um', st') \<Longrightarrow> aesd_major st' = aesd_major st"
  by (auto simp: read_found_def res_simps Let_def split_def split: option.split_asm if_splits dest!: major_frame)

lemma command_major [major_frame]: "write_command k st = Inr st' \<Longrightarrow> aesd_major st' = aesd_major st"
  by (auto simp: write_command_def res_simps Let_def dest!: major_frame)

lemma copied_major [major_frame]:
  "write_copied k p count pos st = Inr (r, pos', st') \<Longrightarrow> aesd_major st' = aesd_major st"
  by (auto simp: write_copied_def res_simps Let_def split: if_splits dest!: major_frame)

lemma drv_step_major: "drv_step st st' \<Longrightarrow> aesd_major st' = aesd_major st"
proof (induction rule: drv_step.induct)
  case (call_open filp st r filp' st')
  then show ?case by (auto simp: aesd_open_def)
next
  case (call_release k filp st r st')
  then show ?case by (auto simp: aesd_release_def res_simps dest!: major_frame)
next
  case (call_read k filp intr buff count pos um st r pos' um' st')
  then show ?case
    by (auto simp: aesd_read_def res_simps case_option_Inr Let_def split_def split: if_splits dest!: major_frame)
next
  case (call_write k filp count intr buff pos um st r pos' st')
  then show ?case
    by (auto simp: aesd_write_def res_simps Let_def split_def split: if_splits option.split_asm dest!: major_frame)
qed

subsection \<open>The scripts\<close>

lemma drv_start_loaded: "drv_start loaded"
proof (rule load [OF demo_kernel_ok])
  show "full_user_entry unloaded = no_entry" by (simp add: unloaded_def)
qed (rule loaded_result)

lemma demo_cmds_ok: "cmds_ok demo_cmds" "rm_works demo_cmds" "cmds_ok stubborn_cmds"
  using drv_start_loaded
  by (auto simp: cmds_ok_def cmd_ok_def demo_cmds_def stubborn_cmds_def rm_works_def loads_def
      split: option.split prod.split)

lemma cmd_okD:
  assumes "cmd_ok f R" and "f h = (status, h')"
  shows "status = 0 \<Longrightarrow> R h h'" and "status \<noteq> 0 \<Longrightarrow> h' = h"
  using assms(1) [unfolded cmd_ok_def, rule_format, of h] assms(2) by auto

lemma cmds_okD:
  assumes "cmds_ok c"
  shows "cmd_ok (insmod c args) loads"
    and "cmd_ok (modprobe c) (\<lambda>h h'. if driver h = None then loads h h' else h' = h)"
    and "cmd_ok (rmmod c) (\<lambda>h h'. driver h \<noteq> None \<and> h' = h\<lparr>driver := None\<rparr>)"
    and "proc_major c h = map_option aesd_major (driver h)"
    and "cmd_ok (rm_node c) (\<lambda>h h'. h' = h\<lparr>node := None\<rparr>)"
    and "cmd_ok (mknod c m) (\<lambda>h h'. node h = None \<and>
        (\<exists>x g md. m = Some x \<and> h' = h\<lparr>node := Some \<lparr>n_major = x, n_group = g, n_mode = md\<rparr>\<rparr>))"
    and "cmd_ok (chgrp c gr) (\<lambda>h h'. \<exists>n. node h = Some n \<and> h' = h\<lparr>node := Some (n\<lparr>n_group := gr\<rparr>)\<rparr>)"
    and "cmd_ok (chmod c md) (\<lambda>h h'. \<exists>n. node h = Some n \<and> h' = h\<lparr>node := Some (n\<lparr>n_mode := md\<rparr>)\<rparr>)"
    and "\<exists>d. snd (start_stop_daemon c args h) = h\<lparr>daemon := d\<rparr>"
  using assms by (simp_all add: cmds_ok_def)

text \<open>The last three commands of the load script.\<close>

lemma make_node:
  assumes c: "cmds_ok c" and n: "node h = None"
    and m: "set_e (mknod c (Some x) h) (\<lambda>h. set_e (chgrp c g h) (\<lambda>h. chmod c md h)) = (status, h')"
  shows "driver h' = driver h \<and> (if status = 0 then node h' = Some \<lparr>n_major = x, n_group = g, n_mode = md\<rparr>
    else node h' = None \<or> (\<exists>n. node h' = Some n \<and> n_major n = x))"
proof -
  obtain s1 h1 where 1: "mknod c (Some x) h = (s1, h1)" by fastforce
  obtain s2 h2 where 2: "chgrp c g h1 = (s2, h2)" by fastforce
  obtain s3 h3 where 3: "chmod c md h2 = (s3, h3)" by fastforce
  note d = cmd_okD [OF cmds_okD(6) [OF c] 1] cmd_okD [OF cmds_okD(7) [OF c] 2] cmd_okD [OF cmds_okD(8) [OF c] 3]
  have r: "(status, h') = (if s1 \<noteq> 0 then (s1, h1) else if s2 \<noteq> 0 then (s2, h2) else (s3, h3))"
    using m 1 2 3 by (simp add: set_e_def split: if_splits)
  show ?thesis
  proof (cases "s1 = 0")
    case True
    with d(1) obtain g1 md1 where "h1 = h\<lparr>node := Some \<lparr>n_major = x, n_group = g1, n_mode = md1\<rparr>\<rparr>" by auto
    with True r d(3-6) show ?thesis by (cases "s2 = 0"; cases "s3 = 0") auto
  next
    case False
    with d(2) r n show ?thesis by simp
  qed
qed

lemma load_outcome:
  assumes c: "cmds_ok c" and l: "aesdchar_load c args h = (status, h')"
  shows "status \<noteq> 0 \<and> h' = h \<or>
    (\<exists>st. driver h' = Some st \<and> (driver h = Some st \<or> driver h = None \<and> drv_start st) \<and>
      (if status = 0 then node h' = Some \<lparr>n_major = aesd_major st, n_group = (if staff h then ''staff'' else ''wheel''), n_mode = ''664''\<rparr>
       else node h' = None \<or> (\<exists>n. node h' = Some n \<and> n_major n = aesd_major st) \<or> \<not> rm_works c \<and> node h' = node h))"
proof -
  obtain s1 h1 where 1: "(if local_ko h then insmod c args h else modprobe c h) = (s1, h1)" by fastforce
  have ok: "if s1 = 0 then loads h h1 \<or> (driver h \<noteq> None \<and> h1 = h) else h1 = h"
    using 1 cmd_okD [OF cmds_okD(1) [OF c], of args h] cmd_okD [OF cmds_okD(2) [OF c], of h]
    by (auto split: if_splits)
  show ?thesis
  proof (cases "s1 = 0")
    case True
    with ok obtain st where st: "driver h1 = Some st" "driver h = Some st \<or> driver h = None \<and> drv_start st"
      by (auto simp: loads_def)
    have same: "node h1 = node h" using ok True by (auto simp: loads_def)
    obtain s2 h2 where 2: "rm_node c h1 = (s2, h2)" by fastforce
    note d = cmd_okD [OF cmds_okD(5) [OF c] 2]
    have l2: "set_e (s2, h2) (\<lambda>h2. set_e (mknod c (Some (aesd_major st)) h2)
        (\<lambda>h2. set_e (chgrp c (if staff h then ''staff'' else ''wheel'') h2) (\<lambda>h3. chmod c ''664'' h3))) = (status, h')"
      using l 1 2 True st(1) cmds_okD(4) [OF c] by (simp add: aesdchar_load_def)
    show ?thesis
    proof (cases "s2 = 0")
      case True
      with l2 d(1) have "set_e (mknod c (Some (aesd_major st)) (h1\<lparr>node := None\<rparr>))
          (\<lambda>h2. set_e (chgrp c (if staff h then ''staff'' else ''wheel'') h2) (\<lambda>h3. chmod c ''664'' h3)) = (status, h')"
        by (simp add: set_e_def [of "(0, _)"])
      from make_node [OF c _ this] st show ?thesis by auto
    next
      case False
      with 2 have "\<not> rm_works c" by (metis fst_conv rm_works_def)
      moreover have "(status, h') = (s2, h1)" using l2 d(2) False by (simp add: set_e_def)
      ultimately show ?thesis using st same False by auto
    qed
  next
    case False
    with l 1 ok show ?thesis by (simp add: aesdchar_load_def)
  qed
qed

lemma unload_outcome:
  assumes c: "cmds_ok c" and u: "aesdchar_unload c h = (status, h')"
  shows "if status = 0 then driver h \<noteq> None \<and> h' = h\<lparr>driver := None, node := None\<rparr>
    else h' = h \<or> \<not> rm_works c \<and> driver h \<noteq> None \<and> h' = h\<lparr>driver := None\<rparr>"
proof -
  obtain s1 h1 where 1: "rmmod c h = (s1, h1)" by fastforce
  obtain s2 h2 where 2: "rm_node c h1 = (s2, h2)" by fastforce
  have "\<not> rm_works c" if "s2 \<noteq> 0" using 2 that by (metis fst_conv rm_works_def)
  with cmd_okD [OF cmds_okD(3) [OF c] 1] cmd_okD [OF cmds_okD(5) [OF c] 2] u 1 2 show ?thesis
    by (cases "s1 = 0") (auto simp: aesdchar_unload_def)
qed

lemma drv_start_inv: "drv_start st \<Longrightarrow> drv_inv st \<and> history st = [] \<and> pending st = []"
  by (erule drv_start.cases) (auto dest: init_module_ok)

lemma load_keeps:
  assumes c: "cmds_in removes c" and "host_inv removes h" and "aesdchar_load c args h = (status, h')"
  shows "host_inv removes h'"
  using load_outcome [OF conjunct1 [OF c [unfolded cmds_in_def]] assms(3)] assms(1,2) drv_start_inv by (auto simp: host_inv_def cmds_in_def split: if_splits)

lemma unload_keeps:
  assumes c: "cmds_in removes c" and "host_inv removes h" and "aesdchar_unload c h = (status, h')"
  shows "host_inv removes h'"
  using unload_outcome [OF conjunct1 [OF c [unfolded cmds_in_def]] assms(3)] assms(1,2) by (auto simp: host_inv_def cmds_in_def split: if_splits)

interpretation hm: invariant_machine host_start "host_step removes" "host_inv removes" for removes
proof unfold_locales
  fix h assume "host_start h"
  then show "host_inv removes h" by (simp add: host_start_def host_inv_def)
next
  fix h h' assume inv: "host_inv removes h" and "host_step removes h h'"
  from this(2) show "host_inv removes h'"
  proof cases
    case (run_load c args status)
    with inv show ?thesis by (blast intro: load_keeps)
  next
    case (run_unload c status)
    with inv show ?thesis by (blast intro: unload_keeps)
  next
    case (run_start_stop c mode status)
    with inv load_keeps [OF _ inv, of c "[]"] unload_keeps [OF _ inv, of c] show ?thesis
      by (cases "aesdchar_load c [] h"; cases "aesdchar_unload c h")
        (auto simp: aesdchar_start_stop_def split: if_splits)
  next
    case (run_reload c built status)
    obtain s1 h1 where u: "aesdchar_unload c (h\<lparr>local_ko := built\<rparr>) = (s1, h1)" by fastforce
    have "host_inv removes (h\<lparr>local_ko := built\<rparr>)" using inv by (simp add: host_inv_def)
    from unload_keeps [OF run_reload(1) this u] load_keeps [OF run_reload(1), of h1 "[]"] run_reload(2) u
    show ?thesis by (simp add: relaod_aesd_def)
  next
    case (run_socket c args status)
    have "host_inv removes (h\<lparr>daemon := d\<rparr>)" for d using inv by (simp add: host_inv_def)
    moreover have "\<exists>d. h' = h\<lparr>daemon := d\<rparr>"
      using run_socket cmds_okD(9) [of c]
      by (auto simp: aesdsocket_start_stop_def cmds_in_def split: list.splits if_splits) (metis host.surjective host.update_convs(5))+
    ultimately show ?thesis by blast
  next
    case (driver_call st st')
    with inv dm.step_invar drv_step_major show ?thesis by (fastforce simp: host_inv_def)
  qed
qed

text \<open>The start-up script reports success although nothing was loaded.\<close>

lemma start_stop_hides_failure:
  "aesdchar_load c [] h = (1, h) \<Longrightarrow> aesdchar_start_stop c ''start'' h = (0, h)"
  by (simp add: aesdchar_start_stop_def)

text \<open>The full test succeeds exactly if there is a test for the configured assignment and both tests succeed.\<close>

lemma full_test_succeeds_iff:
  "full_test u conf t = 0 \<longleftrightarrow> u = 0 \<and> (\<exists>a. conf = Some a \<and> t a = Some 0)"
  by (auto simp: full_test_def split: option.splits)

text \<open>A host with the driver loaded.\<close>

lemma demo_cmds_in: "cmds_in removes demo_cmds"
  by (simp add: cmds_in_def demo_cmds_ok)

lemma loaded_host:
  assumes "cmds_in removes demo_cmds"
  shows "\<exists>h n. reach host_start (host_step removes) h \<and> node h = Some n \<and> driver h = Some loaded"
proof -
  obtain status h where l: "aesdchar_load demo_cmds [] demo_host = (status, h)" by fastforce
  then have n: "\<exists>n. node h = Some n" "driver h = Some loaded"
    by (auto simp: aesdchar_load_def set_e_def demo_cmds_def demo_host_def)
  have "reach host_start (host_step removes) demo_host" by (rule reach_init) (simp add: host_start_def demo_host_def)
  then have "reach host_start (host_step removes) h" by (rule reach_step) (rule run_load [OF assms l])
  with n show ?thesis by blast
qed

text \<open>
  C29. The device node and the driver belong together: on a host that started without either, take any
  sequence of control scripts and driver calls that was completed, in which no \<open>rm -f\<close> of the node failed.
  Whichever of the other commands failed, a device node has the major number of the driver that is
  loaded. And a loaded driver satisfies its invariant, so that it can be unloaded without a fault; this
  holds also when \<open>rm -f\<close> may fail.
\<close>

theorem node_names_driver:
  assumes "reach host_start (host_step removes) h"
  shows "(removes \<longrightarrow> (\<forall>n. node h = Some n \<longrightarrow> (\<exists>st. driver h = Some st \<and> n_major n = aesd_major st))) \<and>
    (\<forall>st. driver h = Some st \<longrightarrow> drv_inv st \<and> is_ok (aesd_cleanup_module st))"
proof -
  from assms have inv: "host_inv removes h" by (rule hm.reach_invar)
  with cleanup_ok show ?thesis by (fastforce simp: host_inv_def is_ok_iff)
qed

theorem node_names_driver_witness:
  "\<exists>h n. reach host_start (host_step True) h \<and> node h = Some n \<and> n_major n = aesd_major loaded"
proof -
  obtain h n where h: "reach host_start (host_step True) h" "node h = Some n" "driver h = Some loaded"
    using loaded_host [OF demo_cmds_in] by blast
  from node_names_driver [OF h(1)] h show ?thesis by fastforce
qed

text \<open>
  Without that condition the node can be left behind: when \<open>rm -f\<close> fails behind \<open>rmmod\<close>, the unload script
  ends with the driver gone and the node still there.
\<close>

lemma stale_node_reachable:
  "\<exists>h. reach host_start (host_step False) h \<and> driver h = None \<and> node h \<noteq> None"
proof -
  have c: "cmds_in False demo_cmds" "cmds_in False stubborn_cmds" by (simp_all add: cmds_in_def demo_cmds_ok)
  obtain h n where h: "reach host_start (host_step False) h" "node h = Some n" "driver h = Some loaded"
    using loaded_host [OF c(1)] by blast
  then have "aesdchar_unload stubborn_cmds h = (1, h\<lparr>driver := None\<rparr>)"
    by (simp add: aesdchar_unload_def stubborn_cmds_def demo_cmds_def)
  from reach_step [OF h(1) run_unload [OF c(2) this]] h(2) show ?thesis by (intro exI conjI) auto
qed

text \<open>
  What loading and unloading do: when the load script ends with status 0 the driver is loaded, empty
  if it was not loaded before, and the node has its major number, the group \<open>staff\<close> where there is one, and mode 664;
  when it fails, either nothing changed or the driver is loaded. The unload script then either removes
  both, with status 0, or changes nothing, or leaves the node behind when \<open>rm -f\<close> fails.
\<close>

lemma load_then_unload:
  assumes "cmds_ok c" and "aesdchar_load c args h = (status, h')" and "aesdchar_unload c h' = (status2, h2)"
  shows "if status = 0
    then (\<exists>st. driver h' = Some st \<and> (driver h = None \<longrightarrow> drv_inv st \<and> history st = [] \<and> pending st = []) \<and>
      node h' = Some \<lparr>n_major = aesd_major st, n_group = (if staff h then ''staff'' else ''wheel''), n_mode = ''664''\<rparr>) \<and>
      (if status2 = 0 then driver h2 = None \<and> node h2 = None
       else h2 = h' \<or> \<not> rm_works c \<and> h2 = h'\<lparr>driver := None\<rparr>)
    else h' = h \<or> driver h' \<noteq> None"
  using load_outcome [OF assms(1,2)] unload_outcome [OF assms(1,3)] drv_start_inv by (auto split: if_splits)

end
