(* ===== verification/Image_Scripts.thy ===== *)
theory Image_Scripts
  imports Finder
begin

section \<open>The scripts that build and start the image\<close>

text \<open>
  Models \<^verbatim>\<open>finder-app/manual-linux.sh\<close>, which builds a kernel and a root file system with the finder in it,
  \<^verbatim>\<open>start-qemu-app.sh\<close> and \<^verbatim>\<open>start-qemu-terminal.sh\<close>, which start it, \<^verbatim>\<open>dependencies.sh\<close>, \<^verbatim>\<open>unit-test.sh\<close> and
  the unit test of \<^verbatim>\<open>student-test\<close>.

  A command takes the working directory and the file system and gives a status with both. What the shell
  and the file utilities do is written out; compilers, version control, the emulator and the like are a
  parameter \<open>builders\<close>: what a command line does in a directory. Links are files of their own, and the
  output directory is taken to be a single word.
\<close>

record builders =
  run :: "string list \<Rightarrow> path \<Rightarrow> fsys \<Rightarrow> nat \<times> fsys"
  readelf :: "path \<Rightarrow> fsys \<Rightarrow> string"

type_synonym shell = "path \<times> fsys \<Rightarrow> nat \<times> path \<times> fsys"

subsection \<open>Commands\<close>

definition ext :: "builders \<Rightarrow> string list \<Rightarrow> shell" where
  "ext b argv st = (let (status, fs) = run b argv (fst st) (snd st) in (status, fst st, fs))"

definition cd_to :: "tools \<Rightarrow> string \<Rightarrow> shell" where
  "cd_to tls s st =
     (let d = resolve (fst st) s in
      if is_dir (snd st) d then (0, d, snd st) else (cd_status tls, st))"

definition exists_at :: "string \<Rightarrow> path \<times> fsys \<Rightarrow> bool" where
  "exists_at s st \<longleftrightarrow> (let p = resolve (fst st) s in p = [] \<or> snd st p \<noteq> None)"

definition dir_at :: "string \<Rightarrow> path \<times> fsys \<Rightarrow> bool" where
  "dir_at s st \<longleftrightarrow> is_dir (snd st) (resolve (fst st) s)"

definition cond :: "(path \<times> fsys \<Rightarrow> bool) \<Rightarrow> shell \<Rightarrow> shell \<Rightarrow> shell" where
  "cond P c d st = (if P st then c st else d st)"

text \<open>Commands one after the other under \<open>set -e\<close>, and without it.\<close>

fun run_all :: "shell list \<Rightarrow> shell" where
  "run_all [] st = (0, st)"
| "run_all (c # cs) st = (let (status, st) = c st in if status \<noteq> 0 then (status, st) else run_all cs st)"

fun run_on :: "nat \<Rightarrow> shell list \<Rightarrow> shell" where
  "run_on status [] st = (status, st)"
| "run_on status (c # cs) st = (let (status, st) = c st in run_on status cs st)"

text \<open>\<open>mkdir -p\<close> goes on with the next directory after one that cannot be made.\<close>

fun mkdirs :: "string list \<Rightarrow> shell" where
  "mkdirs [] st = (0, st)"
| "mkdirs (s # ss) st =
     (case mkdir_p [] (resolve (fst st) s) (snd st) of
        Some fs \<Rightarrow> mkdirs ss (fst st, fs)
      | None \<Rightarrow> (let (_, st) = mkdirs ss st in (1, st)))"

text \<open>\<open>cp\<close> of a file into a directory, or to a name in one.\<close>

definition cp_file :: "string \<Rightarrow> string \<Rightarrow> shell" where
  "cp_file src dst st =
     (let p = resolve (fst st) src; d = resolve (fst st) dst; fs = snd st;
          q = (if is_dir fs d then d @ [last p] else d) in
      case fs p of
        Some (Reg c) \<Rightarrow>
          if q \<noteq> [] \<and> is_dir fs (butlast q) \<and> fs q \<noteq> Some Dirn then (0, fst st, fs(q \<mapsto> Reg c)) else (1, st)
      | _ \<Rightarrow> (1, st))"

definition readelf_grep :: "tools \<Rightarrow> builders \<Rightarrow> string \<Rightarrow> string \<Rightarrow> shell" where
  "readelf_grep tls b file pat st =
     (if \<exists>l \<in> set (text_lines (readelf b (resolve (fst st) file) (snd st))). grep_line tls pat l then (0, st) else (1, st))"

subsection \<open>Building the image\<close>

definition cross :: "string list" where
  "cross = [''ARCH=arm64'', ''CROSS_COMPILE=aarch64-none-linux-gnu-'']"

definition build_kernel :: "tools \<Rightarrow> builders \<Rightarrow> shell list" where
  "build_kernel tls b =
     [cond (\<lambda>st. \<not> dir_at ''linux-stable'' st)
        (ext b [''git'', ''clone'', ''git://git.kernel.org/pub/scm/linux/kernel/git/stable/linux-stable.git'',
           ''--depth'', ''1'', ''--single-branch'', ''--branch'', ''v5.1.10'']) (run_all []),
      cond (\<lambda>st. \<not> exists_at ''linux-stable/arch/arm64/boot/Image'' st)
        (run_all
          [cd_to tls ''linux-stable'', ext b [''git'', ''checkout'', ''v5.1.10''],
           ext b ([''make''] @ cross @ [''mrproper'']), ext b ([''make''] @ cross @ [''defconfig'']),
           ext b ([''make'', ''j=10''] @ cross @ [''all'']), ext b ([''make'', ''j=10''] @ cross @ [''modules'']),
           ext b ([''make'', ''j=10''] @ cross @ [''dtbs''])]) (run_all [])]"

definition base_dirs :: "string list" where
  "base_dirs = [''/rootfs/dev'', ''/rootfs/home'', ''/rootfs/bin'', ''/rootfs/sbin'', ''/rootfs/etc'', ''/rootfs/lib'',
     ''/rootfs/lib64'', ''/rootfs/usr'', ''/rootfs/tmp'', ''/rootfs/proc'', ''/rootfs/sys'', ''/rootfs/var'',
     ''/rootfs/var/log'', ''/rootfs/usr/bin'', ''/rootfs/usr/sbin'', ''/rootfs/usr/lib'', ''/rootfs/home/conf'']"

definition make_rootfs :: "tools \<Rightarrow> builders \<Rightarrow> string \<Rightarrow> shell list" where
  "make_rootfs tls b OUTDIR =
     [cd_to tls OUTDIR,
      cond (dir_at (OUTDIR @ ''/rootfs'')) (ext b [''sudo'', ''rm'', ''-rf'', OUTDIR @ ''/rootfs'']) (run_all []),
      mkdirs (map (\<lambda>d. OUTDIR @ d) base_dirs)]"

definition build_busybox :: "tools \<Rightarrow> builders \<Rightarrow> string \<Rightarrow> shell list" where
  "build_busybox tls b OUTDIR =
     [cd_to tls OUTDIR,
      cond (\<lambda>st. \<not> dir_at (OUTDIR @ ''/busybox'') st)
        (run_all [ext b [''git'', ''clone'', ''git://busybox.net/busybox.git''], cd_to tls ''busybox'',
           ext b [''git'', ''checkout'', ''1_33_1'']])
        (cd_to tls ''busybox''),
      ext b [''make'', ''distclean''], ext b [''make'', ''defconfig''], ext b ([''make'', ''j=10''] @ cross),
      ext b ([''make'', ''j=10''] @ cross @ [''CONFIG_PREFIX='' @ OUTDIR @ ''/rootfs'', ''install'']),
      readelf_grep tls b ''busybox'' ''program interpreter'', readelf_grep tls b ''busybox'' ''Shared library'']"

definition copy_libs :: "string \<Rightarrow> shell list" where
  "copy_libs OUTDIR =
     cp_file ''arm64_libc/lib/ld-linux-aarch64.so.1'' (OUTDIR @ ''/rootfs/lib'') #
     map (\<lambda>f. cp_file (''arm64_libc/lib64/'' @ f) (OUTDIR @ ''/rootfs/lib64''))
       [''ld-2.31.so'', ''libc.so.6'', ''libc-2.31.so'', ''libresolv.so.2'', ''libresolv-2.31.so'', ''libm.so.6'', ''libm-2.31.so'']"

definition build_writer :: "builders \<Rightarrow> shell list" where
  "build_writer b =
     [cond (\<lambda>st. \<not> exists_at ''writer'' st)
        (ext b [''make'', ''CROSS_COMPILE=aarch64-none-linux-gnu-'', ''all''])
        (run_all [ext b [''make'', ''clean''], ext b [''make'', ''CROSS_COMPILE=aarch64-none-linux-gnu-'', ''all'']])]"

definition copy_app :: "string \<Rightarrow> shell list" where
  "copy_app OUTDIR =
     [cp_file ''writer'' (OUTDIR @ ''/rootfs/home''), cp_file ''finder-test.sh'' (OUTDIR @ ''/rootfs/home''),
      cp_file ''finder.sh'' (OUTDIR @ ''/rootfs/home''), cp_file ''conf/assignment.txt'' (OUTDIR @ ''/rootfs/home/conf''),
      cp_file ''conf/username.txt'' (OUTDIR @ ''/rootfs/home/conf''), cp_file ''autorun-qemu.sh'' (OUTDIR @ ''/rootfs/home'')]"

definition pack_image :: "tools \<Rightarrow> builders \<Rightarrow> string \<Rightarrow> shell list" where
  "pack_image tls b OUTDIR =
     [cond (\<lambda>st. \<not> exists_at (OUTDIR @ ''/rootfs/dev/console'') st)
        (ext b [''sudo'', ''mknod'', ''-m'', ''600'', OUTDIR @ ''/rootfs/dev/console'', ''c'', ''5'', ''1'']) (run_all []),
      cond (\<lambda>st. \<not> exists_at (OUTDIR @ ''/rootfs/dev/null'') st)
        (ext b [''sudo'', ''mknod'', ''-m'', ''666'', OUTDIR @ ''/rootfs/dev/null'', ''c'', ''1'', ''3'']) (run_all []),
      cd_to tls (OUTDIR @ ''/rootfs''),
      ext b [''find . | cpio -H newc -ov --owner root:root >'', OUTDIR @ ''/initramfs.cpio''],
      ext b [''gzip'', ''-f'', OUTDIR @ ''/initramfs.cpio'']]"

definition image_outdir :: "string list \<Rightarrow> string" where
  "image_outdir args = (case args of [] \<Rightarrow> ''/tmp/aeld'' | d # _ \<Rightarrow> d)"

definition manual_linux :: "tools \<Rightarrow> builders \<Rightarrow> string list \<Rightarrow> shell" where
  "manual_linux tls b args st =
     (let OUTDIR = image_outdir args; start = fst st in
      run_all ([mkdirs [OUTDIR], cd_to tls OUTDIR] @ build_kernel tls b @ make_rootfs tls b OUTDIR @
        build_busybox tls b OUTDIR @ [\<lambda>(cwd, fs). (0, start, fs)] @ copy_libs OUTDIR @ build_writer b @ copy_app OUTDIR @
        pack_image tls b OUTDIR) st)"

subsection \<open>Starting it, and the other scripts\<close>

definition qemu_outdir :: "string list \<Rightarrow> string" where
  "qemu_outdir args = (case args of d # _ \<Rightarrow> if d = [] then ''/tmp/aeld'' else d | [] \<Rightarrow> ''/tmp/aeld'')"

definition qemu_machine :: "string \<Rightarrow> string list" where
  "qemu_machine OUTDIR = [''qemu-system-aarch64'', ''-m'', ''256M'', ''-M'', ''virt'', ''-cpu'', ''cortex-a53'', ''-nographic'',
     ''-smp'', ''1'', ''-kernel'', OUTDIR @ ''/linux-stable/arch/arm64/boot/Image'',
     ''-chardev'', ''stdio,id=char0,mux=on,logfile='' @ OUTDIR @ ''/serial.log,signal=off'', ''-serial'', ''chardev:char0'',
     ''-mon'', ''chardev=char0'']"

definition start_qemu_app :: "builders \<Rightarrow> string list \<Rightarrow> shell" where
  "start_qemu_app b args st =
     (let OUTDIR = qemu_outdir args in
      if \<not> exists_at (OUTDIR @ ''/linux-stable/arch/arm64/boot/Image'') st then (1, st)
      else if \<not> exists_at (OUTDIR @ ''/initramfs.cpio.gz'') st then (1, st)
      else ext b (qemu_machine OUTDIR @ [''-append'', ''rdinit=/home/autorun-qemu.sh console=ttyAMA0'', ''-initrd'', OUTDIR @ ''/initramfs.cpio.gz'']) st)"

definition start_qemu_terminal :: "builders \<Rightarrow> string list \<Rightarrow> shell" where
  "start_qemu_terminal b args st =
     (let OUTDIR = qemu_outdir args in
      if \<not> exists_at (OUTDIR @ ''/linux-stable/arch/arm64/boot/Image'') st then (1, st)
      else if \<not> exists_at (OUTDIR @ ''/initramfs.cpio.gz'') st then (1, st)
      else ext b (qemu_machine OUTDIR @ [''-append'', ''rdinit=/bin/sh'', ''-initrd'', OUTDIR @ ''/initramfs.cpio.gz'']) st)"

definition dependencies :: "builders \<Rightarrow> shell" where
  "dependencies b = run_on 0 (map (\<lambda>p. ext b [''sudo'', ''apt-get'', ''install'', ''-y'', p]) [''libssl-dev'', ''u-boot-tools'', ''qemu''])"

definition unit_test :: "tools \<Rightarrow> builders \<Rightarrow> shell" where
  "unit_test tls b = run_on 0
     [mkdirs [''build''], cd_to tls ''build'', ext b [''cmake'', ''..''], ext b [''make'', ''clean''], ext b [''make''],
      (\<lambda>(cwd, fs). (0, butlast cwd, fs)), ext b [''./build/assignment-autotest/assignment-autotest'']]"

text \<open>The unit test asks the test framework to check a condition, with a message.\<close>

definition test_validate_my_username :: "(bool \<Rightarrow> string \<Rightarrow> 'r) \<Rightarrow> 'r" where
  "test_validate_my_username assert_true = assert_true False ''AESD students, please fix me!''"

text \<open>
  The command lines of the build script that are run outside the new root file system, and the two at
  its end that are run inside it.
\<close>

definition build_commands :: "string \<Rightarrow> string list list" where
  "build_commands OUTDIR =
     [[''git'', ''clone'', ''git://git.kernel.org/pub/scm/linux/kernel/git/stable/linux-stable.git'',
         ''--depth'', ''1'', ''--single-branch'', ''--branch'', ''v5.1.10''],
      [''git'', ''checkout'', ''v5.1.10''], [''make''] @ cross @ [''mrproper''], [''make''] @ cross @ [''defconfig''],
      [''make'', ''j=10''] @ cross @ [''all''], [''make'', ''j=10''] @ cross @ [''modules''], [''make'', ''j=10''] @ cross @ [''dtbs''],
      [''git'', ''clone'', ''git://busybox.net/busybox.git''], [''git'', ''checkout'', ''1_33_1''],
      [''make'', ''distclean''], [''make'', ''defconfig''], [''make'', ''j=10''] @ cross,
      [''make'', ''j=10''] @ cross @ [''CONFIG_PREFIX='' @ OUTDIR @ ''/rootfs'', ''install''],
      [''make'', ''clean''], [''make'', ''CROSS_COMPILE=aarch64-none-linux-gnu-'', ''all''],
      [''sudo'', ''mknod'', ''-m'', ''600'', OUTDIR @ ''/rootfs/dev/console'', ''c'', ''5'', ''1''],
      [''sudo'', ''mknod'', ''-m'', ''666'', OUTDIR @ ''/rootfs/dev/null'', ''c'', ''1'', ''3'']]"

definition pack_commands :: "string \<Rightarrow> string list list" where
  "pack_commands OUTDIR =
     [[''find . | cpio -H newc -ov --owner root:root >'', OUTDIR @ ''/initramfs.cpio''],
      [''gzip'', ''-f'', OUTDIR @ ''/initramfs.cpio'']]"

text \<open>
  What is relied on. Each of these command lines, run in a directory outside the root file system, and
  the last two anywhere, leaves the directory of the root file system and everything in its \<open>home\<close> and
  \<open>etc\<close> alone: the two source trees are built in place, busybox installs itself to \<open>bin\<close>, \<open>sbin\<close> and \<open>usr\<close>, the nodes
  are made in \<open>dev\<close> and the archive is written beside it. When the removal of the old root file system
  ends with status 0, nothing is left of it; it may fail.
\<close>

definition watched :: "path \<Rightarrow> path \<Rightarrow> bool" where
  "watched root q \<longleftrightarrow> q = root \<or> prefix (root @ [''home'']) q \<or> prefix (root @ [''etc'']) q"

definition builders_ok :: "builders \<Rightarrow> string \<Rightarrow> path \<Rightarrow> bool" where
  "builders_ok b OUTDIR root \<longleftrightarrow>
     (\<forall>argv \<in> set (build_commands OUTDIR). \<forall>cwd fs q.
        \<not> prefix root cwd \<and> watched root q \<longrightarrow> snd (run b argv cwd fs) q = fs q) \<and>
     (\<forall>argv \<in> set (pack_commands OUTDIR). \<forall>cwd fs q. watched root q \<longrightarrow> snd (run b argv cwd fs) q = fs q) \<and>
     (\<forall>cwd fs q. fst (run b [''sudo'', ''rm'', ''-rf'', OUTDIR @ ''/rootfs''] cwd fs) = 0 \<and> prefix root q \<longrightarrow>
        snd (run b [''sudo'', ''rm'', ''-rf'', OUTDIR @ ''/rootfs''] cwd fs) q = None)"

definition etc_empty :: "path \<Rightarrow> fsys \<Rightarrow> bool" where
  "etc_empty root fs \<longleftrightarrow> (\<forall>x xs. fs (root @ ''etc'' # x # xs) = None)"

definition home_made :: "path \<Rightarrow> fsys \<Rightarrow> bool" where
  "home_made root fs \<longleftrightarrow> fs (root @ [''home'']) = Some Dirn \<and> fs (root @ [''home'', ''conf'']) = Some Dirn"

definition app_files :: "path list" where
  "app_files = [[''home'', ''writer''], [''home'', ''finder-test.sh''], [''home'', ''finder.sh''], [''home'', ''conf'', ''assignment.txt''],
     [''home'', ''conf'', ''username.txt''], [''home'', ''autorun-qemu.sh'']]"

text \<open>Properties that are decided in \<open>home\<close>, in \<open>etc\<close> and by the directory of the root file system.\<close>

definition local_to :: "path \<Rightarrow> (fsys \<Rightarrow> bool) \<Rightarrow> bool" where
  "local_to root K \<longleftrightarrow> (\<forall>fs fs'. K fs \<longrightarrow>
     (\<forall>q. watched root q \<longrightarrow> fs' q = fs q) \<longrightarrow> K fs')"

text \<open>
  A command that preserves a property of working directory and file system, whatever its outcome; and
  the properties that hold of the file system while the working directory is outside the root file
  system, and anywhere.
\<close>

definition keeps :: "(path \<times> fsys \<Rightarrow> bool) \<Rightarrow> shell \<Rightarrow> bool" where
  "keeps K c \<longleftrightarrow> (\<forall>st. K st \<longrightarrow> K (snd (c st)))"

definition outside :: "path \<Rightarrow> (fsys \<Rightarrow> bool) \<Rightarrow> path \<times> fsys \<Rightarrow> bool" where
  "outside root K st \<longleftrightarrow> \<not> prefix root (fst st) \<and> K (snd st)"

definition anywhere :: "(fsys \<Rightarrow> bool) \<Rightarrow> path \<times> fsys \<Rightarrow> bool" where
  "anywhere K st \<longleftrightarrow> K (snd st)"

text \<open>
  A host where everything was built before, and build commands that succeed and do nothing, except for
  the removal of the old root file system.
\<close>

definition built_tools :: tools where
  "built_tools = \<lparr>ls = (\<lambda>fs d. []), grep_line = (=), seq = (\<lambda>s. []), cd_status = 2\<rparr>"

definition built_builders :: builders where
  "built_builders = \<lparr>
     run = (\<lambda>argv cwd fs. (0, if argv = [''sudo'', ''rm'', ''-rf'', ''/tmp/aeld/rootfs''] then rm_rf [''tmp'', ''aeld'', ''rootfs''] fs else fs)),
     readelf = (\<lambda>p fs. ''program interpreter'' @ [CHR 0x0A] @ ''Shared library'')\<rparr>"

definition built_files :: "path list" where
  "built_files = map (\<lambda>f. ''src'' # comps f)
     [''arm64_libc/lib/ld-linux-aarch64.so.1'', ''arm64_libc/lib64/ld-2.31.so'', ''arm64_libc/lib64/libc.so.6'',
      ''arm64_libc/lib64/libc-2.31.so'', ''arm64_libc/lib64/libresolv.so.2'', ''arm64_libc/lib64/libresolv-2.31.so'',
      ''arm64_libc/lib64/libm.so.6'', ''arm64_libc/lib64/libm-2.31.so'', ''writer'', ''finder-test.sh'', ''finder.sh'',
      ''conf/assignment.txt'', ''conf/username.txt'', ''autorun-qemu.sh''] @
     [[''tmp'', ''aeld'', ''linux-stable'', ''arch'', ''arm64'', ''boot'', ''Image'']]"

definition built_host :: fsys where
  "built_host q =
     (if q \<in> set built_files then Some (Reg ''x'')
      else if q \<in> {[''tmp''], [''tmp'', ''aeld''], [''tmp'', ''aeld'', ''linux-stable''], [''tmp'', ''aeld'', ''busybox'']} then Some Dirn
      else None)"

subsection \<open>Sequences of commands\<close>

lemma run_all_ok:
  "run_all [] st = (0, st') \<longleftrightarrow> st' = st"
  "run_all (c # cs) st = (0, st') \<longleftrightarrow> (\<exists>s1. c st = (0, s1) \<and> run_all cs s1 = (0, st'))"
  by (auto simp: split_def Let_def prod_eq_iff)

lemma run_all_append:
  "run_all (xs @ ys) st = (0, st') \<longleftrightarrow> (\<exists>s1. run_all xs st = (0, s1) \<and> run_all ys s1 = (0, st'))"
  by (induction xs arbitrary: st) (auto simp: split_def Let_def)

lemma keeps_run_all: "\<forall>c \<in> set cs. keeps K c \<Longrightarrow> keeps K (run_all cs)"
proof (induction cs)
  case (Cons c cs)
  then have "keeps K c" "keeps K (run_all cs)" by simp_all
  then show ?case by (simp add: keeps_def split_def Let_def del: split_paired_All)
qed (simp add: keeps_def)

lemma keeps_steps: "run_all cs st = (0, st') \<Longrightarrow> \<forall>c \<in> set cs. keeps K c \<Longrightarrow> K st \<Longrightarrow> K st'"
  using keeps_run_all [of cs K] unfolding keeps_def by (metis snd_conv)

lemma keeps_cond: "keeps K c \<Longrightarrow> keeps K d \<Longrightarrow> keeps K (cond P c d)"
  by (simp add: keeps_def cond_def)

lemma keeps_readelf: "keeps K (readelf_grep tls b f pat)"
  by (simp add: keeps_def readelf_grep_def)

lemma keeps_nothing: "keeps K (run_all [])"
  by (simp add: keeps_def)

lemmas keeps_simple = keeps_cond keeps_readelf keeps_nothing

lemma keeps_cd_anywhere: "keeps (anywhere K) (cd_to tls s)"
  by (simp add: keeps_def cd_to_def anywhere_def Let_def)

lemma keeps_cd:
  assumes "\<And>cwd. \<not> prefix root cwd \<Longrightarrow> \<not> prefix root (resolve cwd s)"
  shows "keeps (outside root K) (cd_to tls s)"
  using assms by (simp add: keeps_def cd_to_def outside_def Let_def)

subsection \<open>Paths\<close>

lemma comps_below: "comps (d @ CHR ''/'' # s) = comps d @ comps s"
  by (simp add: comps_def fields_append)

lemma resolve_absolute: "hd d = CHR ''/'' \<Longrightarrow> d \<noteq> [] \<Longrightarrow> resolve cwd (d @ s) = comps (d @ s)"
  by (simp add: resolve_def)

lemma mkdir_p_changes:
  "mkdir_p at cs fs = Some fs' \<Longrightarrow> fs' q = fs q \<or> (\<exists>p. q = at @ p \<and> prefix p cs \<and> fs' q = Some Dirn)"
proof (induction cs arbitrary: at fs)
  case (Cons c cs)
  have "\<exists>fs1. mkdir_p (at @ [c]) cs fs1 = Some fs' \<and> (fs1 = fs \<or> fs1 = fs(at @ [c] \<mapsto> Dirn))"
    using Cons.prems by (auto split: option.splits fnode.splits)
  then obtain fs1 where 1: "mkdir_p (at @ [c]) cs fs1 = Some fs'" "fs1 = fs \<or> fs1 = fs(at @ [c] \<mapsto> Dirn)" by blast
  from Cons.IH [OF 1(1)] show ?case
  proof
    assume "fs' q = fs1 q"
    with 1(2) show ?thesis by (cases "q = at @ [c]") auto
  next
    assume "\<exists>p. q = (at @ [c]) @ p \<and> prefix p cs \<and> fs' q = Some Dirn"
    then obtain p where "q = at @ c # p" "prefix (c # p) (c # cs)" "fs' q = Some Dirn" by auto
    then show ?thesis by blast
  qed
qed simp

lemma mkdir_p_makes:
  "mkdir_p at cs fs = Some fs' \<Longrightarrow> cs \<noteq> [] \<Longrightarrow> fs' (at @ cs) = Some Dirn"
proof (induction cs arbitrary: at fs)
  case (Cons c cs)
  then obtain fs1 where 1: "mkdir_p (at @ [c]) cs fs1 = Some fs'" "fs1 (at @ [c]) = Some Dirn"
    by (auto split: option.splits fnode.splits)
  show ?case
  proof (cases "cs = []")
    case False
    with Cons.IH [OF 1(1)] show ?thesis by simp
  qed (use 1 in simp)
qed simp

lemma mkdirs_change:
  "snd (snd (mkdirs ss st)) q = snd st q \<or>
     ((\<exists>s \<in> set ss. prefix q (resolve (fst st) s)) \<and> snd (snd (mkdirs ss st)) q = Some Dirn)"
proof (induction ss arbitrary: st)
  case (Cons s ss)
  show ?case
  proof (cases "mkdir_p [] (resolve (fst st) s) (snd st)")
    case None
    with Cons.IH [of st] show ?thesis by (auto simp: split_def Let_def)
  next
    case (Some fs)
    with Cons.IH [of "(fst st, fs)"] mkdir_p_changes [OF Some, of q] show ?thesis by auto
  qed
qed simp

lemma mkdirs_made:
  "mkdirs ss st = (0, st') \<Longrightarrow> s \<in> set ss \<Longrightarrow> resolve (fst st) s \<noteq> [] \<Longrightarrow> snd st' (resolve (fst st) s) = Some Dirn"
proof (induction ss arbitrary: st)
  case (Cons s1 ss)
  then obtain fs where m: "mkdir_p [] (resolve (fst st) s1) (snd st) = Some fs" and rest: "mkdirs ss (fst st, fs) = (0, st')"
    by (auto split: option.splits simp: split_def Let_def)
  show ?case
  proof (cases "s = s1")
    case True
    with mkdir_p_makes [OF m] Cons.prems(3) have "fs (resolve (fst st) s) = Some Dirn" by simp
    with mkdirs_change [of ss "(fst st, fs)" "resolve (fst st) s"] rest show ?thesis by auto
  next
    case False
    with Cons.IH [OF rest] Cons.prems(2,3) show ?thesis by simp
  qed
qed simp

lemma mkdirs_stay: "fst (snd (mkdirs ss st)) = fst st"
  by (induction ss arbitrary: st) (auto simp: split_def Let_def split: option.split)

text \<open>A copy writes one file: below the directory it is given, or in its place.\<close>

lemma cp_changes:
  "snd (snd (cp_file src dst st)) q = snd st q \<or> q = resolve (fst st) dst \<and> \<not> is_dir (snd st) q \<or>
     q = resolve (fst st) dst @ [last (resolve (fst st) src)]"
  by (auto simp: cp_file_def Let_def split: option.split fnode.split)

lemma cp_makes:
  assumes "cp_file src dst st = (0, st')" and "is_dir (snd st) (resolve (fst st) dst)"
  shows "\<exists>c. snd st' (resolve (fst st) dst @ [last (resolve (fst st) src)]) = Some (Reg c)"
  using assms by (auto simp: cp_file_def Let_def split: option.splits fnode.splits if_splits)

lemma cp_stays: "fst (snd (cp_file src dst st)) = fst st"
  by (auto simp: cp_file_def Let_def split: option.splits fnode.splits)

text \<open>A file that is there stays one: a copy may replace it, but by another file.\<close>

lemma cp_keeps_file:
  "\<exists>c. snd st q = Some (Reg c) \<Longrightarrow> \<exists>c. snd (snd (cp_file src dst st)) q = Some (Reg c)"
  by (auto simp: cp_file_def Let_def split: option.split fnode.split)

subsection \<open>What the stages keep\<close>

lemma out_path: "out \<noteq> [] \<Longrightarrow> hd out = CHR ''/'' \<Longrightarrow> resolve cwd (out @ CHR ''/'' # s) = comps out @ comps s"
  by (simp add: resolve_def comps_below)

lemma out_dir: "out \<noteq> [] \<Longrightarrow> hd out = CHR ''/'' \<Longrightarrow> resolve cwd out = comps out"
  by (simp add: resolve_def)

lemma local_toI:
  "(\<And>fs fs'. K fs \<Longrightarrow> fs' root = fs root \<Longrightarrow> (\<And>xs. fs' (root @ ''home'' # xs) = fs (root @ ''home'' # xs)) \<Longrightarrow>
     (\<And>xs. fs' (root @ ''etc'' # xs) = fs (root @ ''etc'' # xs)) \<Longrightarrow> K fs') \<Longrightarrow> local_to root K"
  unfolding local_to_def watched_def by (metis append_Cons append_Nil append_assoc prefixI)

lemma keeps_tool:
  assumes "builders_ok b out root" and "local_to root K"
  shows "argv \<in> set (build_commands out) \<Longrightarrow> keeps (outside root K) (ext b argv)"
    and "argv \<in> set (pack_commands out) \<Longrightarrow> keeps (anywhere K) (ext b argv)"
  using assms
  by (auto simp: builders_ok_def local_to_def keeps_def ext_def outside_def anywhere_def split_def Let_def)

lemma cd_outside:
  assumes out: "out \<noteq> []" "hd out = CHR ''/''" "root = comps out @ [''rootfs'']"
  shows "keeps (outside root K) (cd_to tls out)" and "keeps (outside root K) (cd_to tls ''linux-stable'')"
    and "keeps (outside root K) (cd_to tls ''busybox'')"
proof -
  have below: "\<not> prefix root (cwd @ [x])" if "\<not> prefix root cwd" "x \<noteq> ''rootfs''" for cwd x
    using that out(3) by (auto simp: prefix_snoc)
  show "keeps (outside root K) (cd_to tls out)"
    by (rule keeps_cd) (simp add: out_dir [OF out(1,2)] out(3))
  show "keeps (outside root K) (cd_to tls ''linux-stable'')" "keeps (outside root K) (cd_to tls ''busybox'')"
    by (rule keeps_cd, use below in \<open>simp add: resolve_def comps_def Finder.fields_def\<close>)+
qed

lemma local_props:
  "local_to root (\<lambda>fs. is_dir fs root \<or> etc_empty root fs)"
  "local_to root (\<lambda>fs. etc_empty root fs \<and> home_made root fs)"
  "hd f = ''home'' \<Longrightarrow> f \<noteq> [] \<Longrightarrow> local_to root (\<lambda>fs. \<exists>c. fs (root @ f) = Some (Reg c))"
proof -
  show "local_to root (\<lambda>fs. is_dir fs root \<or> etc_empty root fs)"
    by (rule local_toI) (simp add: is_dir_def etc_empty_def)
  show "local_to root (\<lambda>fs. etc_empty root fs \<and> home_made root fs)"
    by (rule local_toI) (simp add: etc_empty_def home_made_def)
  show "local_to root (\<lambda>fs. \<exists>c. fs (root @ f) = Some (Reg c))" if "hd f = ''home''" "f \<noteq> []"
    using that by (intro local_toI) (cases f, simp_all)
qed

lemma stage_tools:
  assumes "builders_ok b out root" and "local_to root K"
    and out: "out \<noteq> []" "hd out = CHR ''/''" "root = comps out @ [''rootfs'']"
  shows "\<forall>c \<in> set (build_kernel tls b). keeps (outside root K) c"
    and "\<forall>c \<in> set (build_busybox tls b out). keeps (outside root K) c"
    and "\<forall>c \<in> set (build_writer b). keeps (outside root K) c"
    and "\<forall>c \<in> set (take 2 (pack_image tls b out)). keeps (outside root K) c"
    and "\<forall>c \<in> set (drop 2 (pack_image tls b out)). keeps (anywhere K) c"
proof -
  note t = keeps_tool [OF assms(1,2)] and cd = cd_outside [OF out]
  show "\<forall>c \<in> set (build_kernel tls b). keeps (outside root K) c"
    unfolding build_kernel_def by (auto intro!: keeps_simple keeps_run_all t(1) cd simp: build_commands_def)
  show "\<forall>c \<in> set (build_busybox tls b out). keeps (outside root K) c"
    unfolding build_busybox_def by (auto intro!: keeps_simple keeps_run_all t(1) cd simp: build_commands_def)
  show "\<forall>c \<in> set (build_writer b). keeps (outside root K) c"
    unfolding build_writer_def by (auto intro!: keeps_simple keeps_run_all t(1) simp: build_commands_def)
  show "\<forall>c \<in> set (take 2 (pack_image tls b out)). keeps (outside root K) c"
    unfolding pack_image_def by (auto intro!: keeps_simple t(1) simp: build_commands_def numeral_2_eq_2)
  show "\<forall>c \<in> set (drop 2 (pack_image tls b out)). keeps (anywhere K) c"
    unfolding pack_image_def by (auto intro!: keeps_cd_anywhere t(2) simp: pack_commands_def numeral_2_eq_2)
qed

lemma keeps_outdir:
  assumes "out \<noteq> []" and "hd out = CHR ''/''" and "root = comps out @ [''rootfs'']"
  shows "keeps (outside root (\<lambda>fs. is_dir fs root \<or> etc_empty root fs)) (mkdirs [out])"
proof -
  have "snd (snd (mkdirs [out] st)) (root @ xs) = snd st (root @ xs)" for st :: "path \<times> fsys" and xs
  proof -
    have "\<not> prefix (root @ xs) (comps out)" using assms(3) by (auto dest: prefix_length_le)
    then show ?thesis using mkdirs_change [of "[out]" st "root @ xs"] assms by (simp add: out_dir)
  qed
  from this [of _ "[]"] this show ?thesis
    unfolding keeps_def outside_def by (simp add: is_dir_def etc_empty_def mkdirs_stay del: mkdirs.simps)
qed

lemma rootfs_made:
  assumes out: "out \<noteq> []" "hd out = CHR ''/''" "root = comps out @ [''rootfs'']" and b: "builders_ok b out root"
    and run: "run_all (make_rootfs tls b out) st = (0, st')" and pre: "outside root (\<lambda>fs. is_dir fs root \<or> etc_empty root fs) st"
  shows "outside root (\<lambda>fs. etc_empty root fs \<and> home_made root fs) st'"
proof -
  let ?dirs = "map (\<lambda>d. out @ d) base_dirs"
  obtain s1 s2 where s1: "cd_to tls out st = (0, s1)"
    and s2: "cond (dir_at (out @ ''/rootfs'')) (ext b [''sudo'', ''rm'', ''-rf'', out @ ''/rootfs'']) (run_all []) s1 = (0, s2)"
    and m: "mkdirs ?dirs s2 = (0, st')"
    using run unfolding make_rootfs_def run_all_ok by blast
  have fs1: "outside root (\<lambda>fs. is_dir fs root \<or> etc_empty root fs) s1"
    using cd_outside(1) [OF out] s1 pre unfolding keeps_def by (metis snd_conv)
  have root: "resolve (fst s1) (out @ ''/rootfs'') = root"
    using out_path [OF out(1,2), of "fst s1" "''rootfs''"] out(3) by (simp add: comps_def Finder.fields_def)
  have gone: "etc_empty root (snd (run b [''sudo'', ''rm'', ''-rf'', out @ ''/rootfs''] cwd fs))"
    if "fst (run b [''sudo'', ''rm'', ''-rf'', out @ ''/rootfs''] cwd fs) = 0" for cwd fs
    using b that by (auto simp: builders_ok_def etc_empty_def)
  have e2: "etc_empty root (snd s2)"
    using fs1 s2 gone by (auto simp: outside_def cond_def dir_at_def ext_def root split_def Let_def split: if_splits)
  have cwd: "fst st' = fst s1"
    using s2 mkdirs_stay [of ?dirs s2] m by (auto simp: cond_def ext_def split_def Let_def split: if_splits)
  have paths: "resolve (fst s2) (out @ d) = comps out @ comps d" if "d \<in> set base_dirs" for d
    using that out_path [OF out(1,2), of "fst s2" "tl d"] by (auto simp: base_dirs_def comps_def Finder.fields_def)
  have below: "\<not> prefix (root @ ''etc'' # x # xs) (comps out @ comps d)" if "d \<in> set base_dirs" for d x xs
    using that out(3) by (auto simp: base_dirs_def comps_def Finder.fields_def)
  have "etc_empty root (snd st')"
    unfolding etc_empty_def
  proof (intro allI)
    fix x xs
    show "snd st' (root @ ''etc'' # x # xs) = None"
      using mkdirs_change [of ?dirs s2 "root @ ''etc'' # x # xs"] e2 below m paths by (auto simp: etc_empty_def)
  qed
  moreover have "snd st' (comps out @ comps d) = Some Dirn" if "d \<in> set base_dirs" for d
  proof -
    have "comps d \<noteq> []" using that by (auto simp: base_dirs_def comps_def Finder.fields_def)
    then show ?thesis using mkdirs_made [OF m, of "out @ d"] paths [OF that] that by simp
  qed
  from this [of "''/rootfs/home''"] this [of "''/rootfs/home/conf''"] have "home_made root (snd st')"
    using out(3) by (simp add: home_made_def base_dirs_def comps_def Finder.fields_def)
  ultimately show ?thesis using cwd fs1 by (simp add: outside_def)
qed

lemma libs_kept:
  assumes out: "out \<noteq> []" "hd out = CHR ''/''" "root = comps out @ [''rootfs'']"
  shows "\<forall>c \<in> set (copy_libs out). keeps (outside root (\<lambda>fs. etc_empty root fs \<and> home_made root fs)) c"
proof -
  have "keeps (outside root (\<lambda>fs. etc_empty root fs \<and> home_made root fs)) (cp_file src (out @ CHR ''/'' # d))"
    if "comps d = [''rootfs'', l]" and l: "l \<noteq> ''etc''" "l \<noteq> ''home''" for src d l
  proof -
    have "resolve cwd (out @ CHR ''/'' # d) = root @ [l]" for cwd using out_path [OF out(1,2)] that(1) out(3) by simp
    with cp_changes [of src "out @ CHR ''/'' # d"] l have
      "snd (snd (cp_file src (out @ CHR ''/'' # d) st)) (root @ ''etc'' # xs) = snd st (root @ ''etc'' # xs)"
      "snd (snd (cp_file src (out @ CHR ''/'' # d) st)) (root @ ''home'' # xs) = snd st (root @ ''home'' # xs)" for st xs
      by (fastforce)+
    then show ?thesis by (simp add: keeps_def outside_def etc_empty_def home_made_def cp_stays)
  qed
  from this [of "''rootfs/lib''"] this [of "''rootfs/lib64''"] show ?thesis
    by (auto simp: copy_libs_def comps_def Finder.fields_def)
qed

text \<open>One copy into a directory of \<open>home\<close>.\<close>

lemma home_copy:
  assumes dst: "\<And>cwd. resolve cwd dst = root @ ''home'' # d" and d: "d = [] \<or> d = [''conf'']"
    and src: "last (resolve (fst st) src) \<noteq> ''conf''"
    and cp: "cp_file src dst st = (0, st')" and k: "etc_empty root (snd st) \<and> home_made root (snd st)"
  shows "etc_empty root (snd st') \<and> home_made root (snd st') \<and> fst st' = fst st \<and>
    (\<exists>c. snd st' (root @ ''home'' # d @ [last (resolve (fst st) src)]) = Some (Reg c)) \<and>
    (\<forall>q. (\<exists>c. snd st q = Some (Reg c)) \<longrightarrow> (\<exists>c. snd st' q = Some (Reg c)))"
proof -
  have dir: "is_dir (snd st) (root @ ''home'' # d)" using k d by (auto simp: is_dir_def home_made_def)
  have ch: "snd st' q = snd st q \<or> q = root @ ''home'' # d @ [last (resolve (fst st) src)]" for q
    using cp_changes [of src dst st q] cp dir by (auto simp: dst)
  have "snd st' (root @ ''etc'' # xs) = snd st (root @ ''etc'' # xs)" for xs using ch [of "root @ ''etc'' # xs"] by simp
  then have "etc_empty root (snd st')" using k by (simp add: etc_empty_def)
  moreover have "home_made root (snd st')"
    using ch [of "root @ [''home'']"] ch [of "root @ [''home'', ''conf'']"] k src d by (auto simp: home_made_def)
  moreover have "\<exists>c. snd st' (root @ ''home'' # d @ [last (resolve (fst st) src)]) = Some (Reg c)"
    using cp_makes [OF cp] dir by (simp add: dst)
  moreover have "\<forall>q. (\<exists>c. snd st q = Some (Reg c)) \<longrightarrow> (\<exists>c. snd st' q = Some (Reg c))"
    using cp_keeps_file [of st _ src dst] cp by simp
  ultimately show ?thesis using cp_stays [of src dst st] cp by simp
qed

lemma app_copied:
  assumes out: "out \<noteq> []" "hd out = CHR ''/''" "root = comps out @ [''rootfs'']"
    and run: "run_all (copy_app out) st = (0, st')" and k: "etc_empty root (snd st) \<and> home_made root (snd st)"
  shows "fst st' = fst st \<and> etc_empty root (snd st') \<and> (\<forall>f \<in> set app_files. \<exists>c. snd st' (root @ f) = Some (Reg c))"
proof -
  let ?h = "out @ ''/rootfs/home''" and ?c = "out @ ''/rootfs/home/conf''"
  have dst: "resolve cwd ?h = root @ ''home'' # []" "resolve cwd ?c = root @ ''home'' # [''conf'']" for cwd
    using out_path [OF out(1,2), of cwd "''rootfs/home''"] out_path [OF out(1,2), of cwd "''rootfs/home/conf''"] out(3)
    by (simp_all add: comps_def Finder.fields_def)
  have src: "last (resolve cwd ''writer'') = ''writer''" "last (resolve cwd ''finder-test.sh'') = ''finder-test.sh''"
    "last (resolve cwd ''finder.sh'') = ''finder.sh''" "last (resolve cwd ''conf/assignment.txt'') = ''assignment.txt''"
    "last (resolve cwd ''conf/username.txt'') = ''username.txt''" "last (resolve cwd ''autorun-qemu.sh'') = ''autorun-qemu.sh''" for cwd
    by (simp_all add: resolve_def comps_def Finder.fields_def)
  obtain s1 s2 s3 s4 s5 where c: "cp_file ''writer'' ?h st = (0, s1)" "cp_file ''finder-test.sh'' ?h s1 = (0, s2)"
    "cp_file ''finder.sh'' ?h s2 = (0, s3)" "cp_file ''conf/assignment.txt'' ?c s3 = (0, s4)"
    "cp_file ''conf/username.txt'' ?c s4 = (0, s5)" "cp_file ''autorun-qemu.sh'' ?h s5 = (0, st')"
    using run unfolding copy_app_def run_all_ok by blast
  note h = home_copy [OF dst(1) _ _ _ ] and cf = home_copy [OF dst(2)]
  have 1: "etc_empty root (snd s1) \<and> home_made root (snd s1)" "fst s1 = fst st" "\<exists>c. snd s1 (root @ [''home'', ''writer'']) = Some (Reg c)"
    using h [OF _ _ c(1) k] by (simp_all add: src)
  note 2 = h [OF _ _ c(2) 1(1), unfolded src, simplified]
  then have k2: "etc_empty root (snd s2) \<and> home_made root (snd s2)" by blast
  note 3 = h [OF _ _ c(3) k2, unfolded src, simplified]
  then have k3: "etc_empty root (snd s3) \<and> home_made root (snd s3)" by blast
  note 4 = cf [OF _ _ c(4) k3, unfolded src, simplified]
  then have k4: "etc_empty root (snd s4) \<and> home_made root (snd s4)" by blast
  note 5 = cf [OF _ _ c(5) k4, unfolded src, simplified]
  then have k5: "etc_empty root (snd s5) \<and> home_made root (snd s5)" by blast
  note 6 = h [OF _ _ c(6) k5, unfolded src, simplified]
  show ?thesis using 1 2 3 4 5 6 unfolding app_files_def by simp
qed

subsection \<open>Properties\<close>

text \<open>A relative output directory is looked for inside itself once the script has changed into it.\<close>

lemma relative_outdir_fails:
  assumes "cd_status tls \<noteq> 0" and "dir \<noteq> []" and "hd dir \<noteq> CHR ''/''"
    and "mkdirs [dir] (start, fs) = (0, start, fs1)" and "is_dir fs1 (start @ comps dir)"
    and "is_dir fs1 (start @ comps dir @ [''linux-stable''])"
    and "fs1 (start @ comps dir @ [''linux-stable'', ''arch'', ''arm64'', ''boot'', ''Image'']) \<noteq> None"
    and "\<not> is_dir fs1 (start @ comps dir @ comps dir)"
  shows "fst (manual_linux tls b [dir] (start, fs)) = cd_status tls"
proof -
  have r: "resolve cwd dir = cwd @ comps dir" for cwd using assms(3) by (simp add: resolve_def)
  have p: "comps ''linux-stable'' = [''linux-stable'']"
    "comps ''linux-stable/arch/arm64/boot/Image'' = [''linux-stable'', ''arch'', ''arm64'', ''boot'', ''Image'']"
    by (simp_all add: comps_def Finder.fields_def)
  show ?thesis
    using assms by (auto simp: manual_linux_def image_outdir_def build_kernel_def make_rootfs_def cond_def cd_to_def
        dir_at_def exists_at_def r resolve_def p Let_def del: mkdirs.simps)
qed

lemma built_run: "fst (manual_linux built_tools built_builders [] ([''src''], built_host)) = 0"
  by code_simp

text \<open>
  C31. The image that the build script makes cannot pass its own test: take an absolute output directory,
  a start outside the root file system that is built in it, and build commands that, as the script runs
  them, leave \<open>home\<close> and \<open>etc\<close> of that file system alone, with \<open>sudo rm -rf\<close> removing the old one when it does not
  fail. Whenever \<^verbatim>\<open>manual-linux.sh\<close> then ends with status 0, the file system has the writer, the scripts
  and the configuration in \<open>home\<close>; but the test started by \<^verbatim>\<open>autorun-qemu.sh\<close> reads its configuration from
  \<open>etc\<close>, finds none, and reports failure.
\<close>

theorem built_image_fails_test:
  assumes "out = image_outdir args" and "out \<noteq> []" and "hd out = CHR ''/''" and "root = comps out @ [''rootfs'']"
    and "builders_ok b out root" and "is_dir fs root \<or> etc_empty root fs" and "\<not> prefix root start"
    and "manual_linux tls b args (start, fs) = (0, cwd', fs')"
  shows "(\<forall>f \<in> set app_files. \<exists>c. fs' (root @ f) = Some (Reg c)) \<and>
    autorun_qemu arith tls2 [''home''] (\<lambda>q. fs' (root @ q)) =
      Inr (''Completed with failure, failed with rc=1'', \<lambda>q. fs' (root @ q))"
proof -
  note out = assms(2-4) and tools = stage_tools [OF assms(5) _ assms(2-4)]
  let ?K = "outside root (\<lambda>fs. etc_empty root fs \<and> home_made root fs)"
    and ?I = "outside root (\<lambda>fs. is_dir fs root \<or> etc_empty root fs)"
  from assms(8) obtain s1 s2 s3 s4 s5 s6 where
    r: "run_all ([mkdirs [out], cd_to tls out] @ build_kernel tls b) (start, fs) = (0, s1)"
      "run_all (make_rootfs tls b out) s1 = (0, s2)" "run_all (build_busybox tls b out) s2 = (0, s3)"
      "run_all ([\<lambda>(cwd, fs). (0, start, fs)] @ copy_libs out) s3 = (0, s4)" "run_all (build_writer b) s4 = (0, s5)"
      "run_all (copy_app out) s5 = (0, s6)" "run_all (pack_image tls b out) s6 = (0, cwd', fs')"
    unfolding manual_linux_def Let_def fst_conv assms(1) [symmetric] run_all_append by blast
  from r(7) obtain s7 where p: "run_all (take 2 (pack_image tls b out)) s6 = (0, s7)"
    "run_all (drop 2 (pack_image tls b out)) s7 = (0, cwd', fs')"
    using run_all_append [of "take 2 (pack_image tls b out)" "drop 2 (pack_image tls b out)" s6 "(cwd', fs')"] by auto
  have i: "?I (start, fs)" using assms(6,7) by (simp add: outside_def)
  have "?I s1"
    by (rule keeps_steps [OF r(1)]) (use keeps_outdir [OF out] cd_outside(1) [OF out] tools(1) [OF local_props(1)] i in auto)
  then have k2: "?K s2" by (rule rootfs_made [OF out assms(5) r(2)])
  have k3: "?K s3" by (rule keeps_steps [OF r(3) tools(2) [OF local_props(2)] k2])
  have "keeps ?K (\<lambda>(cwd, fs). (0, start, fs))" using assms(7) by (simp add: keeps_def outside_def split_def)
  then have k4: "?K s4" using keeps_steps [where K = ?K, OF r(4)] libs_kept [OF out] k3 by simp
  have k5: "?K s5" by (rule keeps_steps [OF r(5) tools(3) [OF local_props(2)] k4])
  then have k5': "etc_empty root (snd s5) \<and> home_made root (snd s5)" "\<not> prefix root (fst s5)" by (simp_all add: outside_def)
  note app = app_copied [OF out r(6) k5'(1)]
  have fin: "K fs'" if K: "local_to root K" "K (snd s6)" for K
  proof -
    have "outside root K s6" using K(2) k5'(2) app by (simp add: outside_def)
    from keeps_steps [OF p(1) tools(4) [OF K(1)] this] have "anywhere K s7" by (simp add: outside_def anywhere_def)
    from keeps_steps [OF p(2) tools(5) [OF K(1)] this] show ?thesis by (simp add: anywhere_def)
  qed
  have "local_to root (etc_empty root)" by (rule local_toI) (simp add: etc_empty_def)
  with fin app have e: "etc_empty root fs'" by blast
  have "\<exists>c. fs' (root @ f) = Some (Reg c)" if f: "f \<in> set app_files" for f
  proof -
    have "hd f = ''home''" "f \<noteq> []" using f by (auto simp: app_files_def)
    from fin [OF local_props(3) [OF this]] app f show ?thesis by blast
  qed
  moreover have "fs' (root @ assignment_file) = None" using e by (simp add: etc_empty_def assignment_file_def)
  then have "autorun_qemu arith tls2 [''home''] (\<lambda>q. fs' (root @ q)) =
      Inr (''Completed with failure, failed with rc=1'', \<lambda>q. fs' (root @ q))" by (rule autorun_without_conf)
  ultimately show ?thesis by blast
qed

theorem built_image_fails_test_witness:
  "\<exists>cwd fs'. manual_linux built_tools built_builders [] ([''src''], built_host) = (0, cwd, fs') \<and>
     autorun_qemu True built_tools [''home''] (\<lambda>q. fs' ([''tmp'', ''aeld'', ''rootfs''] @ q)) =
       Inr (''Completed with failure, failed with rc=1'', \<lambda>q. fs' ([''tmp'', ''aeld'', ''rootfs''] @ q))"
proof -
  obtain cwd fs' where m: "manual_linux built_tools built_builders [] ([''src''], built_host) = (0, cwd, fs')"
    using built_run by (metis prod.collapse)
  have root: "[''tmp'', ''aeld'', ''rootfs''] = comps ''/tmp/aeld'' @ [''rootfs'']" by (simp add: comps_def Finder.fields_def)
  have out: "''/tmp/aeld'' = image_outdir []" "''/tmp/aeld'' \<noteq> []" "hd ''/tmp/aeld'' = CHR ''/''"
    by (simp_all add: image_outdir_def)
  have b: "builders_ok built_builders ''/tmp/aeld'' [''tmp'', ''aeld'', ''rootfs'']"
    by (simp add: builders_ok_def built_builders_def build_commands_def pack_commands_def cross_def rm_rf_def)
  have "etc_empty [''tmp'', ''aeld'', ''rootfs''] built_host"
    by (simp add: etc_empty_def built_host_def built_files_def)
  then have e: "is_dir built_host [''tmp'', ''aeld'', ''rootfs''] \<or> etc_empty [''tmp'', ''aeld'', ''rootfs''] built_host" ..
  have st: "\<not> prefix [''tmp'', ''aeld'', ''rootfs''] [''src'']" by simp
  from built_image_fails_test [OF out root b e st m, of True built_tools] m show ?thesis by blast
qed

end
