(* ===== verification/Socket_Headers.thy ===== *)
theory Socket_Headers
  imports Aesd_Prelude
begin

section \<open>Macros of the headers behind the server\<close>

text \<open>
  Models the code in the C library headers that \<^verbatim>\<open>sys/socket.h\<close>, \<^verbatim>\<open>sys/time.h\<close> and \<^verbatim>\<open>pthread.h\<close> bring into
  the server: descriptor sets (\<^verbatim>\<open>sys/select.h\<close>, \<^verbatim>\<open>bits/select.h\<close>), processor sets (\<^verbatim>\<open>bits/cpu-set.h\<close>), time
  values (\<^verbatim>\<open>sys/time.h\<close>) and ancillary data (\<^verbatim>\<open>bits/socket.h\<close>).

  Both kinds of sets are arrays of 64-bit words and implement one contract, \<open>bit_set\<close>. The compiler is
  taken to be the GNU compiler where a header has several versions of a macro.
\<close>

unbundle bit_operations_syntax

subsection \<open>Descriptor sets\<close>

definition FD_SETSIZE :: nat where
  "FD_SETSIZE = 1024"

text \<open>Division of a signed descriptor, which rounds towards zero; a negative remainder is no shift.\<close>

definition NFDBITS :: int where
  "NFDBITS = 64"

definition FD_ELT :: "int \<Rightarrow> int" where
  "FD_ELT d = (if d < 0 then - ((- d) div NFDBITS) else d div NFDBITS)"

definition FD_MASK :: "int \<Rightarrow> u64 result" where
  "FD_MASK d = (let r = d - NFDBITS * FD_ELT d in if r < 0 then Inl BadShift else Inr (push_bit (nat r) 1))"

definition fd_read :: "u64 list \<Rightarrow> int \<Rightarrow> u64 result" where
  "fd_read bits i = (if i < 0 then Inl OutOfBounds else arr_read bits (nat i))"

fun zero_loop :: "nat \<Rightarrow> nat \<Rightarrow> u64 list \<Rightarrow> u64 list result" where
  "zero_loop 0 i bits = Inr bits"
| "zero_loop (Suc n) i bits = res_bind (arr_write bits i 0) (zero_loop n (Suc i))"

definition FD_ZERO :: "u64 list \<Rightarrow> u64 list result" where
  "FD_ZERO = zero_loop (FD_SETSIZE div 64) 0"

definition FD_SET :: "int \<Rightarrow> u64 list \<Rightarrow> u64 list result" where
  "FD_SET d bits =
     res_bind (fd_read bits (FD_ELT d)) (\<lambda>w.
     res_bind (FD_MASK d) (\<lambda>m.
     arr_write bits (nat (FD_ELT d)) (w OR m)))"

definition FD_CLR :: "int \<Rightarrow> u64 list \<Rightarrow> u64 list result" where
  "FD_CLR d bits =
     res_bind (fd_read bits (FD_ELT d)) (\<lambda>w.
     res_bind (FD_MASK d) (\<lambda>m.
     arr_write bits (nat (FD_ELT d)) (w AND NOT m)))"

definition FD_ISSET :: "int \<Rightarrow> u64 list \<Rightarrow> bool result" where
  "FD_ISSET d bits =
     res_bind (fd_read bits (FD_ELT d)) (\<lambda>w.
     res_bind (FD_MASK d) (\<lambda>m.
     Inr (w AND m \<noteq> 0)))"

subsection \<open>Processor sets\<close>

text \<open>The number of a processor is a \<open>size_t\<close>; the size of a set is in bytes, eight to a word.\<close>

definition CPUELT :: "nat \<Rightarrow> nat" where
  "CPUELT cpu = cpu div 64"

definition CPUMASK :: "nat \<Rightarrow> u64" where
  "CPUMASK cpu = push_bit (cpu mod 64) 1"

definition CPU_ZERO_S :: "nat \<Rightarrow> u64 list \<Rightarrow> u64 list result" where
  "CPU_ZERO_S setsize bits =
     res_bind (zero_loop (setsize div 8) 0 bits) (\<lambda>bits.
     if setsize mod 8 = 0 then Inr bits
     else res_bind (arr_read bits (setsize div 8)) (\<lambda>w.
       arr_write bits (setsize div 8) (w AND NOT (mask (8 * (setsize mod 8))))))"

definition CPU_SET_S :: "nat \<Rightarrow> nat \<Rightarrow> u64 list \<Rightarrow> u64 list result" where
  "CPU_SET_S cpu setsize bits =
     (if cpu div 8 < setsize
      then res_bind (arr_read bits (CPUELT cpu)) (\<lambda>w. arr_write bits (CPUELT cpu) (w OR CPUMASK cpu))
      else Inr bits)"

definition CPU_CLR_S :: "nat \<Rightarrow> nat \<Rightarrow> u64 list \<Rightarrow> u64 list result" where
  "CPU_CLR_S cpu setsize bits =
     (if cpu div 8 < setsize
      then res_bind (arr_read bits (CPUELT cpu)) (\<lambda>w. arr_write bits (CPUELT cpu) (w AND NOT (CPUMASK cpu)))
      else Inr bits)"

definition CPU_ISSET_S :: "nat \<Rightarrow> nat \<Rightarrow> u64 list \<Rightarrow> bool result" where
  "CPU_ISSET_S cpu setsize bits =
     (if cpu div 8 < setsize
      then res_bind (arr_read bits (CPUELT cpu)) (\<lambda>w. Inr (w AND CPUMASK cpu \<noteq> 0))
      else Inr False)"

text \<open>The destination may be one of the sources: each word is read before it is written.\<close>

fun cpu_op_loop :: "nat \<Rightarrow> nat \<Rightarrow> (u64 \<Rightarrow> u64 \<Rightarrow> u64) \<Rightarrow> u64 list \<Rightarrow> u64 list \<Rightarrow> u64 list \<Rightarrow> u64 list result" where
  "cpu_op_loop 0 i opn arr1 arr2 dest = Inr dest"
| "cpu_op_loop (Suc n) i opn arr1 arr2 dest =
     res_bind (arr_read arr1 i) (\<lambda>x.
     res_bind (arr_read arr2 i) (\<lambda>y.
     res_bind (arr_write dest i (opn x y)) (cpu_op_loop n (Suc i) opn arr1 arr2)))"

definition CPU_OP_S :: "nat \<Rightarrow> u64 list \<Rightarrow> u64 list \<Rightarrow> u64 list \<Rightarrow> (u64 \<Rightarrow> u64 \<Rightarrow> u64) \<Rightarrow> u64 list result" where
  "CPU_OP_S setsize dest src1 src2 opn = cpu_op_loop (setsize div 8) 0 opn src1 src2 dest"

text \<open>Comparison of the first \<open>setsize\<close> bytes; the low bytes of a word come first.\<close>

definition CPU_EQUAL_S :: "nat \<Rightarrow> u64 list \<Rightarrow> u64 list \<Rightarrow> bool result" where
  "CPU_EQUAL_S setsize arr1 arr2 =
     (if setsize \<le> 8 * length arr1 \<and> setsize \<le> 8 * length arr2
      then Inr (take (setsize div 8) arr1 = take (setsize div 8) arr2 \<and>
        (setsize mod 8 = 0 \<or>
         take_bit (8 * (setsize mod 8)) (arr1 ! (setsize div 8)) = take_bit (8 * (setsize mod 8)) (arr2 ! (setsize div 8))))
      else Inl OutOfBounds)"

text \<open>In \<open>size_t\<close>, where the sum may wrap around.\<close>

definition CPU_ALLOC_SIZE :: "u64 \<Rightarrow> u64" where
  "CPU_ALLOC_SIZE count = (count + 64 - 1) div 64 * 8"

subsection \<open>Time values\<close>

text \<open>The fields are signed 64-bit integers; a result outside their range is undefined.\<close>

record timeval =
  tv_sec :: int
  tv_usec :: int

definition s64_result :: "int \<Rightarrow> int result" where
  "s64_result x = (if - (2 ^ 63) \<le> x \<and> x < 2 ^ 63 then Inr x else Inl SignedOverflow)"

definition timerisset :: "timeval \<Rightarrow> bool" where
  "timerisset tvp \<longleftrightarrow> tv_sec tvp \<noteq> 0 \<or> tv_usec tvp \<noteq> 0"

definition timerclear :: "timeval \<Rightarrow> timeval" where
  "timerclear tvp = tvp\<lparr>tv_sec := 0, tv_usec := 0\<rparr>"

definition timercmp :: "timeval \<Rightarrow> timeval \<Rightarrow> (int \<Rightarrow> int \<Rightarrow> bool) \<Rightarrow> bool" where
  "timercmp a b CMP = (if tv_sec a = tv_sec b then CMP (tv_usec a) (tv_usec b) else CMP (tv_sec a) (tv_sec b))"

definition timeradd :: "timeval \<Rightarrow> timeval \<Rightarrow> timeval result" where
  "timeradd a b =
     res_bind (s64_result (tv_sec a + tv_sec b)) (\<lambda>sec.
     res_bind (s64_result (tv_usec a + tv_usec b)) (\<lambda>usec.
     if usec \<ge> 1000000
     then res_bind (s64_result (sec + 1)) (\<lambda>sec.
       res_bind (s64_result (usec - 1000000)) (\<lambda>usec. Inr \<lparr>tv_sec = sec, tv_usec = usec\<rparr>))
     else Inr \<lparr>tv_sec = sec, tv_usec = usec\<rparr>))"

definition timersub :: "timeval \<Rightarrow> timeval \<Rightarrow> timeval result" where
  "timersub a b =
     res_bind (s64_result (tv_sec a - tv_sec b)) (\<lambda>sec.
     res_bind (s64_result (tv_usec a - tv_usec b)) (\<lambda>usec.
     if usec < 0
     then res_bind (s64_result (sec - 1)) (\<lambda>sec.
       res_bind (s64_result (usec + 1000000)) (\<lambda>usec. Inr \<lparr>tv_sec = sec, tv_usec = usec\<rparr>))
     else Inr \<lparr>tv_sec = sec, tv_usec = usec\<rparr>))"

text \<open>A time as microseconds, and the times with a proper fraction.\<close>

definition usecs :: "timeval \<Rightarrow> int" where
  "usecs t = 1000000 * tv_sec t + tv_usec t"

definition normal :: "timeval \<Rightarrow> bool" where
  "normal t \<longleftrightarrow> - (2 ^ 63) \<le> tv_sec t \<and> tv_sec t < 2 ^ 63 \<and> 0 \<le> tv_usec t \<and> tv_usec t < 1000000"

subsection \<open>Sets of bits\<close>

definition bits_of :: "u64 list \<Rightarrow> nat set" where
  "bits_of bits = {n. n div 64 < length bits \<and> bit (bits ! (n div 64)) (n mod 64)}"

datatype bit_op = Put nat | Drop nat

primrec op_bit :: "bit_op \<Rightarrow> nat" where
  "op_bit (Put n) = n"
| "op_bit (Drop n) = n"

fun bits_spec :: "bit_op list \<Rightarrow> nat set \<Rightarrow> nat set" where
  "bits_spec [] s = s"
| "bits_spec (Put n # ops) s = bits_spec ops (insert n s)"
| "bits_spec (Drop n # ops) s = bits_spec ops (s - {n})"

fun run_bits :: "(nat \<Rightarrow> 's \<Rightarrow> 's result) \<Rightarrow> (nat \<Rightarrow> 's \<Rightarrow> 's result) \<Rightarrow> bit_op list \<Rightarrow> 's \<Rightarrow> 's result" where
  "run_bits put_bit del_bit [] s = Inr s"
| "run_bits put_bit del_bit (Put n # ops) s = res_bind (put_bit n s) (run_bits put_bit del_bit ops)"
| "run_bits put_bit del_bit (Drop n # ops) s = res_bind (del_bit n s) (run_bits put_bit del_bit ops)"

locale bit_set =
  fixes clear_all :: "'s \<Rightarrow> 's result" and put_bit del_bit :: "nat \<Rightarrow> 's \<Rightarrow> 's result"
    and test :: "nat \<Rightarrow> 's \<Rightarrow> bool result" and elems :: "'s \<Rightarrow> nat set" and whole :: "'s \<Rightarrow> bool" and lim :: nat
  assumes clear_law: "whole s \<Longrightarrow> \<exists>t. clear_all s = Inr t \<and> whole t \<and> elems t = {}"
    and put_law: "whole s \<Longrightarrow> n < lim \<Longrightarrow> \<exists>t. put_bit n s = Inr t \<and> whole t \<and> elems t = insert n (elems s)"
    and del_law: "whole s \<Longrightarrow> n < lim \<Longrightarrow> \<exists>t. del_bit n s = Inr t \<and> whole t \<and> elems t = elems s - {n}"
    and test_law: "whole s \<Longrightarrow> n < lim \<Longrightarrow> test n s = Inr (n \<in> elems s)"
begin

lemma run_refines:
  assumes "whole s" and "\<forall>x \<in> set ops. op_bit x < lim"
  shows "\<exists>t. run_bits put_bit del_bit ops s = Inr t \<and> whole t \<and> elems t = bits_spec ops (elems s)"
  using assms
proof (induction ops arbitrary: s)
  case (Cons x ops)
  show ?case
  proof (cases x)
    case (Put n)
    with Cons.prems put_law [of s n] obtain t where t: "put_bit n s = Inr t" "whole t" "elems t = insert n (elems s)" by auto
    from Cons.IH [OF t(2)] Cons.prems(2) Put t show ?thesis by simp
  next
    case (Drop n)
    with Cons.prems del_law [of s n] obtain t where t: "del_bit n s = Inr t" "whole t" "elems t = elems s - {n}" by auto
    from Cons.IH [OF t(2)] Cons.prems(2) Drop t show ?thesis by simp
  qed
qed simp

lemma run_from_clear:
  assumes "whole s" and "\<forall>x \<in> set ops. op_bit x < lim"
  shows "\<exists>t. res_bind (clear_all s) (run_bits put_bit del_bit ops) = Inr t \<and> whole t \<and>
    (\<forall>n < lim. test n t = Inr (n \<in> bits_spec ops {}))"
proof -
  obtain u where "clear_all s = Inr u" "whole u" "elems u = {}" using clear_law assms(1) by blast
  with run_refines [of u ops] assms(2) test_law show ?thesis by auto
qed

end

lemma zero_loop_ok:
  "i + n \<le> length bits \<Longrightarrow> \<exists>t. zero_loop n i bits = Inr t \<and> length t = length bits \<and>
     (\<forall>j < length bits. t ! j = (if i \<le> j \<and> j < i + n then 0 else bits ! j))"
proof (induction n arbitrary: i bits)
  case (Suc n)
  then have "Suc i + n \<le> length (bits[i := 0])" by simp
  from Suc.IH [OF this] Suc.prems show ?case by (fastforce simp: nth_list_update)
qed auto

lemma bits_of_zero: "\<forall>j < length t. t ! j = 0 \<Longrightarrow> bits_of t = {}"
  by (auto simp: bits_of_def)

lemma bit_pow: "bit (2 ^ k :: u64) m \<longleftrightarrow> m = k \<and> k < 64"
  by (auto simp: bit_exp_iff)

lemma and_pow:
  assumes "k < 64"
  shows "(w :: u64) AND 2 ^ k \<noteq> 0 \<longleftrightarrow> bit w k"
proof -
  have "w AND 2 ^ k = 0 \<longleftrightarrow> (\<forall>n. \<not> bit (w AND 2 ^ k) n)" by (metis bit_0_eq bit_eq_iff bot_apply bot_bool_def)
  then show ?thesis using assms by (auto simp: bit_and_iff bit_pow)
qed

lemma bits_update:
  assumes "n div 64 < length bits"
  shows "bits_of (bits[n div 64 := bits ! (n div 64) OR push_bit (n mod 64) 1]) = insert n (bits_of bits)"
    and "bits_of (bits[n div 64 := bits ! (n div 64) AND NOT (push_bit (n mod 64) 1)]) = bits_of bits - {n}"
proof -
  have d: "m = n \<longleftrightarrow> m div 64 = n div 64 \<and> m mod 64 = n mod 64" for m by (metis div_mult_mod_eq)
  show "bits_of (bits[n div 64 := bits ! (n div 64) OR push_bit (n mod 64) 1]) = insert n (bits_of bits)"
    using assms by (auto simp: bits_of_def nth_list_update bit_or_iff bit_pow d split: if_splits)
  show "bits_of (bits[n div 64 := bits ! (n div 64) AND NOT (push_bit (n mod 64) 1)]) = bits_of bits - {n}"
    using assms by (auto simp: bits_of_def nth_list_update bit_and_iff bit_not_iff bit_pow d split: if_splits)
qed

lemma fd_parts:
  assumes "0 \<le> d"
  shows "FD_ELT d = int (nat d div 64)" and "FD_MASK d = Inr (push_bit (nat d mod 64) 1)"
proof -
  have e: "FD_ELT d = d div 64" using assms by (simp add: FD_ELT_def NFDBITS_def)
  then show "FD_ELT d = int (nat d div 64)" using assms by (simp add: zdiv_int)
  have "d - 64 * (d div 64) = d mod 64" by (simp add: minus_mult_div_eq_mod)
  moreover have "nat (d mod 64) = nat d mod 64" using assms by (simp add: nat_mod_distrib)
  ultimately show "FD_MASK d = Inr (push_bit (nat d mod 64) 1)" by (simp add: FD_MASK_def e NFDBITS_def Let_def)
qed

lemma fd_ops:
  assumes "length bits = 16" and "n < 1024"
  shows "FD_SET (int n) bits = Inr (bits[n div 64 := bits ! (n div 64) OR push_bit (n mod 64) 1])"
    and "FD_CLR (int n) bits = Inr (bits[n div 64 := bits ! (n div 64) AND NOT (push_bit (n mod 64) 1)])"
    and "FD_ISSET (int n) bits = Inr (n \<in> bits_of bits)"
  using assms fd_parts [of "int n"] and_pow [of "n mod 64" "bits ! (n div 64)"] div_less_iff_less_mult [of 64 n 16]
  by (simp_all add: FD_SET_def FD_CLR_def FD_ISSET_def fd_read_def bits_of_def)

lemma zero_all: "n = length bits \<Longrightarrow> \<exists>t. zero_loop n 0 bits = Inr t \<and> length t = length bits \<and> bits_of t = {}"
  using zero_loop_ok [of 0 n bits] bits_of_zero by fastforce

interpretation fds: bit_set FD_ZERO "\<lambda>n. FD_SET (int n)" "\<lambda>n. FD_CLR (int n)" "\<lambda>n. FD_ISSET (int n)"
  bits_of "\<lambda>bits. length bits = 16" 1024
proof unfold_locales
  fix s :: "u64 list" and n :: nat
  assume s: "length s = 16"
  then show "\<exists>t. FD_ZERO s = Inr t \<and> length t = 16 \<and> bits_of t = {}"
    using zero_all [of 16 s] by (simp add: FD_ZERO_def FD_SETSIZE_def)
  assume n: "n < 1024"
  then have "n div 64 < length s" using s by simp
  then show "\<exists>t. FD_SET (int n) s = Inr t \<and> length t = 16 \<and> bits_of t = insert n (bits_of s)"
    "\<exists>t. FD_CLR (int n) s = Inr t \<and> length t = 16 \<and> bits_of t = bits_of s - {n}"
    "FD_ISSET (int n) s = Inr (n \<in> bits_of s)"
    using s n by (simp_all add: fd_ops bits_update del: push_bit_of_1)
qed

lemma fd_out_of_range:
  assumes "length bits = 16" and "d < 0 \<or> 1024 \<le> d"
  shows "\<not> is_ok (FD_SET d bits)" and "\<not> is_ok (FD_CLR d bits)" and "\<not> is_ok (FD_ISSET d bits)"
proof -
  have "(\<exists>f. fd_read bits (FD_ELT d) = Inl f) \<or> (\<exists>f. FD_MASK d = Inl f)"
  proof (cases "d < 0")
    case True
    show ?thesis
    proof (cases "d - 64 * FD_ELT d < 0")
      case False
      with True have "FD_ELT d < 0" by simp
      then show ?thesis by (simp add: fd_read_def)
    qed (simp add: FD_MASK_def Let_def NFDBITS_def)
  next
    case False
    with assms have "16 \<le> nat d div 64" by simp
    with False assms(1) show ?thesis by (simp add: fd_parts fd_read_def)
  qed
  then show "\<not> is_ok (FD_SET d bits)" "\<not> is_ok (FD_CLR d bits)" "\<not> is_ok (FD_ISSET d bits)"
    by (auto simp: is_ok_iff FD_SET_def FD_CLR_def FD_ISSET_def res_simps)
qed

lemma cpu_ops:
  assumes "length bits = k"
  shows "CPU_SET_S n (8 * k) bits = Inr (if n < 64 * k then bits[n div 64 := bits ! (n div 64) OR push_bit (n mod 64) 1] else bits)"
    and "CPU_CLR_S n (8 * k) bits = Inr (if n < 64 * k then bits[n div 64 := bits ! (n div 64) AND NOT (push_bit (n mod 64) 1)] else bits)"
    and "CPU_ISSET_S n (8 * k) bits = Inr (n \<in> bits_of bits)"
proof -
  have "n div 8 < 8 * k \<longleftrightarrow> n div 64 < length bits" "n < 64 * k \<longleftrightarrow> n div 64 < length bits" using assms by linarith+
  then show "CPU_SET_S n (8 * k) bits = Inr (if n < 64 * k then bits[n div 64 := bits ! (n div 64) OR push_bit (n mod 64) 1] else bits)"
    "CPU_CLR_S n (8 * k) bits = Inr (if n < 64 * k then bits[n div 64 := bits ! (n div 64) AND NOT (push_bit (n mod 64) 1)] else bits)"
    "CPU_ISSET_S n (8 * k) bits = Inr (n \<in> bits_of bits)"
    using and_pow [of "n mod 64" "bits ! (n div 64)"]
    by (simp_all add: CPU_SET_S_def CPU_CLR_S_def CPU_ISSET_S_def CPUELT_def CPUMASK_def bits_of_def)
qed

interpretation cpus: bit_set "CPU_ZERO_S (8 * k)" "\<lambda>n. CPU_SET_S n (8 * k)" "\<lambda>n. CPU_CLR_S n (8 * k)"
  "\<lambda>n. CPU_ISSET_S n (8 * k)" bits_of "\<lambda>bits. length bits = k" "64 * k" for k
proof unfold_locales
  fix s :: "u64 list" and n :: nat
  assume s: "length s = k"
  then show "\<exists>t. CPU_ZERO_S (8 * k) s = Inr t \<and> length t = k \<and> bits_of t = {}"
    using zero_all [of k s] by (auto simp: CPU_ZERO_S_def)
  assume n: "n < 64 * k"
  then have "n div 64 < length s" using s by linarith
  then show "\<exists>t. CPU_SET_S n (8 * k) s = Inr t \<and> length t = k \<and> bits_of t = insert n (bits_of s)"
    "\<exists>t. CPU_CLR_S n (8 * k) s = Inr t \<and> length t = k \<and> bits_of t = bits_of s - {n}"
    "CPU_ISSET_S n (8 * k) s = Inr (n \<in> bits_of s)"
    using s n by (simp_all add: cpu_ops [OF s] bits_update del: push_bit_of_1)
qed

text \<open>The combinations of processor sets are those of sets, also in place.\<close>

lemma cpu_op_words:
  assumes "length a = k" and "length b = k" and "length d = k" and "i + n \<le> k"
  shows "\<exists>t. cpu_op_loop n i opn a b d = Inr t \<and> length t = k \<and>
    (\<forall>j < k. t ! j = (if i \<le> j \<and> j < i + n then opn (a ! j) (b ! j) else d ! j))"
  using assms(3,4)
proof (induction n arbitrary: i d)
  case (Suc n)
  then have "length (d[i := opn (a ! i) (b ! i)]) = k" "Suc i + n \<le> k" by simp_all
  from Suc.IH [OF this] Suc.prems assms(1,2) show ?case by (fastforce simp: nth_list_update)
qed auto

lemma cpu_op_sets:
  assumes "length a = k" and "length b = k" and "length d = k"
    and "\<And>x y i. i < 64 \<Longrightarrow> bit (opn x y) i \<longleftrightarrow> f (bit x i) (bit y i)" and "\<not> f False False"
  shows "\<exists>t. CPU_OP_S (8 * k) d a b opn = Inr t \<and> length t = k \<and> bits_of t = {n. f (n \<in> bits_of a) (n \<in> bits_of b)}"
proof -
  obtain t where t: "cpu_op_loop k 0 opn a b d = Inr t" "length t = k" "\<forall>j < k. t ! j = opn (a ! j) (b ! j)"
    using cpu_op_words [OF assms(1-3), of 0 k opn] by auto
  have "n \<in> bits_of t \<longleftrightarrow> f (n \<in> bits_of a) (n \<in> bits_of b)" for n
    using t(2,3) assms(1,2,4,5) by (cases "n div 64 < k") (auto simp: bits_of_def)
  then have "bits_of t = {n. f (n \<in> bits_of a) (n \<in> bits_of b)}" by blast
  with t show ?thesis by (simp add: CPU_OP_S_def)
qed

lemma cpu_and_or_xor:
  assumes "length a = k" and "length b = k" and "length d = k"
  shows "\<exists>t. CPU_OP_S (8 * k) d a b (AND) = Inr t \<and> length t = k \<and> bits_of t = bits_of a \<inter> bits_of b"
    and "\<exists>t. CPU_OP_S (8 * k) d a b (OR) = Inr t \<and> length t = k \<and> bits_of t = bits_of a \<union> bits_of b"
    and "\<exists>t. CPU_OP_S (8 * k) d a b (XOR) = Inr t \<and> length t = k \<and> bits_of t = (bits_of a - bits_of b) \<union> (bits_of b - bits_of a)"
proof -
  have "{n. n \<in> A \<and> n \<in> B} = A \<inter> B" "{n. n \<in> A \<or> n \<in> B} = A \<union> B" "{n. (n \<in> A) \<noteq> (n \<in> B)} = (A - B) \<union> (B - A)"
    for A B :: "nat set" by blast+
  note sets = this [of "bits_of a" "bits_of b"]
  show "\<exists>t. CPU_OP_S (8 * k) d a b (AND) = Inr t \<and> length t = k \<and> bits_of t = bits_of a \<inter> bits_of b"
    using cpu_op_sets [OF assms, of "(AND)" "(\<and>)"] unfolding sets by (simp add: bit_and_iff)
  show "\<exists>t. CPU_OP_S (8 * k) d a b (OR) = Inr t \<and> length t = k \<and> bits_of t = bits_of a \<union> bits_of b"
    using cpu_op_sets [OF assms, of "(OR)" "(\<or>)"] unfolding sets by (simp add: bit_or_iff)
  show "\<exists>t. CPU_OP_S (8 * k) d a b (XOR) = Inr t \<and> length t = k \<and> bits_of t = (bits_of a - bits_of b) \<union> (bits_of b - bits_of a)"
    using cpu_op_sets [OF assms, of "(XOR)" "(\<noteq>)"] unfolding sets by (simp add: bit_xor_iff)
qed

lemma bits_of_inj:
  assumes "length a = length b" and "bits_of a = bits_of b"
  shows "a = b"
proof (rule nth_equalityI [OF assms(1)])
  fix i assume i: "i < length a"
  have "bit (a ! i) j = bit (b ! i) j" if "j < 64" for j
  proof -
    have "64 * i + j \<in> bits_of a \<longleftrightarrow> 64 * i + j \<in> bits_of b" using assms(2) by simp
    with that i assms(1) show ?thesis by (simp add: bits_of_def)
  qed
  then show "a ! i = b ! i" by (auto intro: bit_word_eqI)
qed

lemma cpu_equal_sets:
  assumes "length a = k" and "length b = k"
  shows "CPU_EQUAL_S (8 * k) a b = Inr (bits_of a = bits_of b)"
  using assms bits_of_inj [of a b] by (auto simp: CPU_EQUAL_S_def)

text \<open>A set allocated with this size has a word for each processor, unless the sum wraps around.\<close>

lemma alloc_size_room:
  assumes "unat count < 2 ^ 64 - 63"
  shows "unat (CPU_ALLOC_SIZE count) mod 8 = 0" and "unat count \<le> 8 * unat (CPU_ALLOC_SIZE count)"
    and "8 * unat (CPU_ALLOC_SIZE count) < unat count + 64"
proof -
  have "unat (count + 63) = unat count + 63" using assms by (subst unat_add_small) simp_all
  moreover have "count + 64 - 1 = count + 63" "unat (64 :: u64) = 64" by simp_all
  moreover define q where "q = (count + 64 - 1) div 64"
  ultimately have q: "unat q = (unat count + 63) div 64" by (simp only: unat_div)
  then have "unat q * unat (8 :: u64) < 2 ^ LENGTH(64)" using assms by simp
  then have "unat (q * 8) = unat q * unat (8 :: u64)" by (simp only: unat_mult_lem)
  then have "unat (CPU_ALLOC_SIZE count) = (unat count + 63) div 64 * 8" using q by (simp add: CPU_ALLOC_SIZE_def q_def)
  then show "unat (CPU_ALLOC_SIZE count) mod 8 = 0" "unat count \<le> 8 * unat (CPU_ALLOC_SIZE count)"
    "8 * unat (CPU_ALLOC_SIZE count) < unat count + 64" by simp_all
qed

subsection \<open>Time values\<close>

lemma s64_result_Inr [res_simps]: "s64_result x = Inr y \<longleftrightarrow> y = x \<and> - (2 ^ 63) \<le> x \<and> x < 2 ^ 63"
  by (auto simp: s64_result_def)

lemma normal_usecs:
  assumes "normal a" and "normal b"
  shows "usecs a < usecs b \<longleftrightarrow> tv_sec a < tv_sec b \<or> (tv_sec a = tv_sec b \<and> tv_usec a < tv_usec b)"
    and "usecs a = usecs b \<longleftrightarrow> tv_sec a = tv_sec b \<and> tv_usec a = tv_usec b"
proof -
  show "usecs a < usecs b \<longleftrightarrow> tv_sec a < tv_sec b \<or> (tv_sec a = tv_sec b \<and> tv_usec a < tv_usec b)"
    using assms unfolding usecs_def normal_def by linarith
  have "usecs a = usecs b \<Longrightarrow> tv_sec a = tv_sec b" using assms unfolding usecs_def normal_def by linarith
  then show "usecs a = usecs b \<longleftrightarrow> tv_sec a = tv_sec b \<and> tv_usec a = tv_usec b" by (auto simp: usecs_def)
qed

lemma timercmp_order:
  assumes "normal a" and "normal b"
  shows "timercmp a b (<) \<longleftrightarrow> usecs a < usecs b" and "timercmp a b (=) \<longleftrightarrow> usecs a = usecs b"
    and "timercmp a b (\<le>) \<longleftrightarrow> usecs a \<le> usecs b" and "timercmp a b (\<ge>) \<longleftrightarrow> usecs a \<ge> usecs b"
proof -
  note u = normal_usecs [OF assms] normal_usecs(1) [OF assms(2,1)]
  show lt: "timercmp a b (<) \<longleftrightarrow> usecs a < usecs b" and eq: "timercmp a b (=) \<longleftrightarrow> usecs a = usecs b"
    unfolding u timercmp_def by auto
  show "timercmp a b (\<le>) \<longleftrightarrow> usecs a \<le> usecs b" "timercmp a b (\<ge>) \<longleftrightarrow> usecs a \<ge> usecs b"
    unfolding linorder_not_less [symmetric] u timercmp_def by auto
qed

lemma timeradd_exact:
  assumes "normal a" and "normal b" and "timeradd a b = Inr c"
  shows "normal c \<and> usecs c = usecs a + usecs b"
  using assms by (auto simp: timeradd_def res_simps normal_def usecs_def split: if_splits)

lemma timersub_exact:
  assumes "normal a" and "normal b" and "timersub a b = Inr c"
  shows "normal c \<and> usecs c = usecs a - usecs b"
  using assms by (auto simp: timersub_def res_simps normal_def usecs_def split: if_splits)

lemma timersub_timeradd:
  assumes "normal a" and "normal b" and "0 \<le> tv_sec a" and "0 \<le> tv_sec b" and "timeradd a b = Inr c"
  shows "timersub c b = Inr a"
  using assms by (auto simp: timeradd_def timersub_def s64_result_def normal_def split: if_splits)

subsection \<open>Both kinds of sets\<close>

text \<open>
  Descriptor sets and processor sets of 1024 elements are sets: after clearing, any sequence of
  additions and removals of elements below 1024 runs without a fault on both, and both then answer for
  every element as the specified set does. An element from 1024 on is written outside the array of a
  descriptor set, while a processor set ignores it.
\<close>

lemma bit_sets_refine:
  assumes "length a = 16" and "length b = 16" and "\<forall>x \<in> set ops. op_bit x < 1024"
  shows "\<exists>t u. res_bind (FD_ZERO a) (run_bits (\<lambda>n. FD_SET (int n)) (\<lambda>n. FD_CLR (int n)) ops) = Inr t \<and>
    res_bind (CPU_ZERO_S 128 b) (run_bits (\<lambda>n. CPU_SET_S n 128) (\<lambda>n. CPU_CLR_S n 128) ops) = Inr u \<and>
    (\<forall>n < 1024. FD_ISSET (int n) t = Inr (n \<in> bits_spec ops {}) \<and> CPU_ISSET_S n 128 u = Inr (n \<in> bits_spec ops {})) \<and>
    (\<forall>n \<ge> 1024. \<not> is_ok (FD_SET (int n) t) \<and> CPU_SET_S n 128 u = Inr u)"
proof -
  obtain t where t: "res_bind (FD_ZERO a) (run_bits (\<lambda>n. FD_SET (int n)) (\<lambda>n. FD_CLR (int n)) ops) = Inr t" "length t = 16"
    "\<forall>n < 1024. FD_ISSET (int n) t = Inr (n \<in> bits_spec ops {})" using fds.run_from_clear [OF assms(1,3)] by blast
  from assms(3) have "\<forall>x \<in> set ops. op_bit x < 64 * 16" by simp
  from cpus.run_from_clear [OF assms(2) this] obtain u where
    u: "res_bind (CPU_ZERO_S 128 b) (run_bits (\<lambda>n. CPU_SET_S n 128) (\<lambda>n. CPU_CLR_S n 128) ops) = Inr u" "length u = 16"
    "\<forall>n < 1024. CPU_ISSET_S n 128 u = Inr (n \<in> bits_spec ops {})" by auto
  have "\<not> is_ok (FD_SET (int n) t)" if "1024 \<le> n" for n using that by (intro fd_out_of_range [OF t(2)]) simp
  moreover have "CPU_SET_S n 128 u = Inr u" if "1024 \<le> n" for n using that cpu_ops(1) [OF u(2), of n] by simp
  ultimately show ?thesis using t u by blast
qed

end
