(* ===== verification/Ancillary_Data.thy ===== *)
theory Ancillary_Data
  imports Queue_Memory
begin

section \<open>Ancillary data of socket messages\<close>

text \<open>
  Models the macros of \<^verbatim>\<open>finder-app/arm64_libc/usr/include/bits/socket.h\<close> that walk over the control data of
  a message, with the inline function \<open>__cmsg_nxthdr\<close>. The control data is a sequence of headers of 16 bytes,
  each followed by its data and padding; the first word of a header is the length of both without
  padding. Pointers are addresses, with sums that wrap around as they do on the machine.
\<close>

unbundle bit_operations_syntax

record msghdr =
  msg_name :: addr
  msg_namelen :: u32
  msg_iov :: addr
  msg_iovlen :: u64
  msg_control :: addr
  msg_controllen :: u64
  msg_flags :: s32

definition sizeof_cmsghdr :: u64 where
  "sizeof_cmsghdr = 16"

definition CMSG_ALIGN :: "u64 \<Rightarrow> u64" where
  "CMSG_ALIGN len = (len + 8 - 1) AND NOT (8 - 1)"

definition CMSG_SPACE :: "u64 \<Rightarrow> u64" where
  "CMSG_SPACE len = CMSG_ALIGN len + CMSG_ALIGN sizeof_cmsghdr"

definition CMSG_LEN :: "u64 \<Rightarrow> u64" where
  "CMSG_LEN len = CMSG_ALIGN sizeof_cmsghdr + len"

definition CMSG_DATA :: "addr \<Rightarrow> addr" where
  "CMSG_DATA cmsg = cmsg + sizeof_cmsghdr"

definition CMSG_FIRSTHDR :: "msghdr \<Rightarrow> addr" where
  "CMSG_FIRSTHDR mhdr = (if msg_controllen mhdr \<ge> sizeof_cmsghdr then msg_control mhdr else NULL)"

definition cmsg_nxthdr :: "mem \<Rightarrow> msghdr \<Rightarrow> addr \<Rightarrow> addr result" where
  "cmsg_nxthdr m mhdr cmsg =
     res_bind (ptr_ld m cmsg cmsg) (\<lambda>len.
     if len < sizeof_cmsghdr then Inr NULL
     else
       (let cmsg = cmsg + CMSG_ALIGN len; fin = msg_control mhdr + msg_controllen mhdr in
        if cmsg + sizeof_cmsghdr > fin then Inr NULL
        else res_bind (ptr_ld m cmsg cmsg) (\<lambda>len.
          if cmsg + CMSG_ALIGN len > fin then Inr NULL else Inr cmsg)))"

text \<open>The headers a program visits that starts at \<open>cmsg\<close>; \<open>None\<close> is a loop that never ends.\<close>

partial_function (option) cmsg_walk :: "mem \<Rightarrow> msghdr \<Rightarrow> addr \<Rightarrow> addr list result option" where
  "cmsg_walk m mhdr cmsg =
     (if cmsg = NULL then Some (Inr [])
      else case cmsg_nxthdr m mhdr cmsg of
             Inl e \<Rightarrow> Some (Inl e)
           | Inr n \<Rightarrow> Option.bind (cmsg_walk m mhdr n) (\<lambda>r. Some (res_bind r (\<lambda>xs. Inr (cmsg # xs)))))"

text \<open>
  Control data with objects of the given lengths, written with \<open>CMSG_LEN\<close> and \<open>CMSG_SPACE\<close> as documented:
  the addresses of the headers, their size together, and what the memory holds.
\<close>

fun cmsg_addrs :: "addr \<Rightarrow> u64 list \<Rightarrow> addr list" where
  "cmsg_addrs p [] = []"
| "cmsg_addrs p (l # ls) = p # cmsg_addrs (p + CMSG_SPACE l) ls"

fun control_size :: "u64 list \<Rightarrow> nat" where
  "control_size [] = 0"
| "control_size (l # ls) = unat (CMSG_SPACE l) + control_size ls"

fun laid_out :: "mem \<Rightarrow> addr \<Rightarrow> u64 list \<Rightarrow> bool" where
  "laid_out m p [] \<longleftrightarrow> True"
| "laid_out m p (l # ls) \<longleftrightarrow> m p = Some (CMSG_LEN l) \<and> laid_out m (p + CMSG_SPACE l) ls"

definition demo_hdr :: msghdr where
  "demo_hdr = \<lparr>msg_name = 0, msg_namelen = 0, msg_iov = 0, msg_iovlen = 0, msg_control = 4096, msg_controllen = 48, msg_flags = 0\<rparr>"

subsection \<open>Lengths\<close>

lemma align_small:
  assumes "unat len + 8 \<le> 2 ^ 64"
  shows "unat (CMSG_ALIGN len) = (unat len + 7) div 8 * 8"
proof -
  have "unat (len + 7) = unat len + 7" using assms by (subst unat_add_small) simp_all
  moreover have "len + 8 - 1 = len + 7" "(8 - 1 :: u64) = 2 ^ 3 - 1" by simp_all
  ultimately show ?thesis using unat_align_down [of 3 "len + 7"] by (simp add: CMSG_ALIGN_def add.commute)
qed

lemma align_header [simp]: "CMSG_ALIGN sizeof_cmsghdr = 16"
  using align_small [of 16] by (simp add: sizeof_cmsghdr_def word_unat_eq_iff)

lemma cmsg_lengths:
  assumes "unat l < 2 ^ 32"
  shows "unat (CMSG_LEN l) = unat l + 16" and "unat (CMSG_SPACE l) = (unat l + 7) div 8 * 8 + 16"
    and "CMSG_ALIGN (CMSG_LEN l) = CMSG_SPACE l"
proof -
  show l: "unat (CMSG_LEN l) = unat l + 16" unfolding CMSG_LEN_def align_header using assms by (subst unat_add_small) simp_all
  have a: "unat (CMSG_ALIGN l) = (unat l + 7) div 8 * 8" using assms by (intro align_small) simp
  then show s: "unat (CMSG_SPACE l) = (unat l + 7) div 8 * 8 + 16"
    unfolding CMSG_SPACE_def align_header using assms by (subst unat_add_small) simp_all
  have "unat (CMSG_ALIGN (CMSG_LEN l)) = (unat l + 16 + 7) div 8 * 8" using assms l by (subst align_small) simp_all
  also have "\<dots> = (unat l + 7) div 8 * 8 + 16" by presburger
  finally show "CMSG_ALIGN (CMSG_LEN l) = CMSG_SPACE l" using s by (simp add: word_unat_eq_iff)
qed

lemma space_ge: "unat l < 2 ^ 32 \<Longrightarrow> 16 \<le> unat (CMSG_SPACE l)"
  by (simp add: cmsg_lengths)

subsection \<open>The walk\<close>

lemma nxthdr_step:
  assumes p: "p \<noteq> NULL" and m: "m p = Some (CMSG_LEN l)" and l: "unat l < 2 ^ 32"
    and fin: "unat (msg_control h + msg_controllen h) = unat p + unat (CMSG_SPACE l) + rest"
    and room: "unat (msg_control h + msg_controllen h) + 16 < 2 ^ 64"
    and rest: "rest = 0 \<or> (\<exists>l'. m (p + CMSG_SPACE l) = Some (CMSG_LEN l') \<and> unat l' < 2 ^ 32 \<and> unat (CMSG_SPACE l') \<le> rest)"
  shows "cmsg_nxthdr m h p = Inr (if rest = 0 then NULL else p + CMSG_SPACE l)"
proof -
  let ?q = "p + CMSG_SPACE l"
  have q: "unat ?q = unat p + unat (CMSG_SPACE l)" using fin room by (intro unat_add_small) simp
  then have nz: "?q \<noteq> NULL" using space_ge [OF l] by (metis add_is_0 not_numeral_le_zero unat_0)
  have q16: "unat (?q + 16) = unat ?q + 16" using fin room q by (subst unat_add_small) simp_all
  have first: "\<not> CMSG_LEN l < sizeof_cmsghdr" by (simp add: word_less_nat_alt cmsg_lengths [OF l] sizeof_cmsghdr_def)
  show ?thesis
  proof (cases "rest = 0")
    case True
    then have "?q + sizeof_cmsghdr > msg_control h + msg_controllen h"
      using q16 q fin by (simp add: word_less_nat_alt sizeof_cmsghdr_def)
    with True p m first show ?thesis by (simp add: cmsg_nxthdr_def ptr_ld_def cmsg_lengths(3) [OF l])
  next
    case False
    with rest obtain l' where l': "m ?q = Some (CMSG_LEN l')" "unat l' < 2 ^ 32" "unat (CMSG_SPACE l') \<le> rest" by auto
    have "\<not> ?q + sizeof_cmsghdr > msg_control h + msg_controllen h"
      using q16 q fin l'(3) space_ge [OF l'(2)] by (simp add: word_less_nat_alt sizeof_cmsghdr_def)
    moreover have "unat (?q + CMSG_SPACE l') = unat ?q + unat (CMSG_SPACE l')"
      using fin room q l'(3) by (intro unat_add_small) simp
    then have "\<not> ?q + CMSG_SPACE l' > msg_control h + msg_controllen h" using q fin l'(3) by (simp add: word_less_nat_alt)
    ultimately show ?thesis
      using False p m first l'(1) nz by (simp add: cmsg_nxthdr_def ptr_ld_def cmsg_lengths(3) [OF l] cmsg_lengths(3) [OF l'(2)])
  qed
qed

lemma control_size_first: "ls \<noteq> [] \<Longrightarrow> unat (CMSG_SPACE (hd ls)) \<le> control_size ls"
  by (cases ls) simp_all

lemma walk_laid_out:
  assumes "laid_out m p (l # ls)" and "p \<noteq> NULL" and "\<forall>x \<in> set (l # ls). unat x < 2 ^ 32"
    and "unat (msg_control h + msg_controllen h) = unat p + control_size (l # ls)"
    and "unat (msg_control h + msg_controllen h) + 16 < 2 ^ 64"
  shows "cmsg_walk m h p = Some (Inr (cmsg_addrs p (l # ls)))"
  using assms
proof (induction ls arbitrary: p l)
  case Nil
  then have "cmsg_nxthdr m h p = Inr NULL" using nxthdr_step [of p m l h 0] by simp
  with Nil show ?case by (subst cmsg_walk.simps) (simp add: cmsg_walk.simps [of m h 0])
next
  case (Cons l' ls)
  let ?q = "p + CMSG_SPACE l"
  have "cmsg_nxthdr m h p = Inr (if control_size (l' # ls) = 0 then NULL else ?q)"
    using Cons.prems by (intro nxthdr_step) auto
  moreover have s: "16 \<le> unat (CMSG_SPACE l)" "16 \<le> unat (CMSG_SPACE l')" using Cons.prems(3) by (simp_all add: space_ge)
  ultimately have n: "cmsg_nxthdr m h p = Inr ?q" by simp
  have q: "unat ?q = unat p + unat (CMSG_SPACE l)" using Cons.prems(4,5) by (intro unat_add_small) simp
  then have "?q \<noteq> NULL" using s(1) by (metis add_is_0 not_numeral_le_zero unat_0)
  with Cons.IH [of ?q l'] Cons.prems q have "cmsg_walk m h ?q = Some (Inr (cmsg_addrs ?q (l' # ls)))" by simp
  with n Cons.prems(2) show ?case by (subst cmsg_walk.simps) simp
qed

lemma wrapped_align:
  assumes "2 ^ 64 - 7 \<le> unat len"
  shows "CMSG_ALIGN len = 0"
proof -
  have "unat (len + 7) = (unat len + 7) mod 2 ^ 64" by (simp add: unat_word_ariths)
  also have "\<dots> = unat len + 7 - 2 ^ 64" using assms unat_less_64 [of len] by (simp add: mod_if)
  finally have "unat (len + 7) < 8" using unat_less_64 [of len] by simp
  then have "unat (CMSG_ALIGN len) = 0"
    using unat_align_down [of 3 "len + 7"] by (simp add: CMSG_ALIGN_def add.commute)
  then show ?thesis by (simp add: word_unat_eq_iff)
qed

lemma nxthdr_stays:
  assumes "p \<noteq> NULL" and "m p = Some len" and "2 ^ 64 - 7 \<le> unat len"
    and "p + 16 \<le> msg_control h + msg_controllen h" and "p \<le> msg_control h + msg_controllen h"
  shows "cmsg_nxthdr m h p = Inr p"
proof -
  have "\<not> len < sizeof_cmsghdr" using assms(3) by (simp add: word_less_nat_alt sizeof_cmsghdr_def)
  then show ?thesis
    using assms by (simp add: cmsg_nxthdr_def ptr_ld_def wrapped_align sizeof_cmsghdr_def Let_def linorder_not_less)
qed

text \<open>A header with such a length is its own successor, and the walk never ends.\<close>

lemma walk_never_ends:
  assumes "p \<noteq> NULL" and "cmsg_nxthdr m h p = Inr p"
  shows "cmsg_walk m h p = None"
proof -
  have "m = m \<longrightarrow> h = h \<longrightarrow> q \<noteq> p" if "cmsg_walk m h q = Some r" for q r
  proof (rule cmsg_walk.raw_induct [where P = "\<lambda>m' h' q r. m' = m \<longrightarrow> h' = h \<longrightarrow> q \<noteq> p", OF _ that])
    fix walk m' h' q' r'
    assume IH: "\<And>a b c y. walk a b c = Some y \<Longrightarrow> a = m \<longrightarrow> b = h \<longrightarrow> c \<noteq> p"
      and r: "(if q' = 0 then Some (Inr [])
        else case cmsg_nxthdr m' h' q' of Inl e \<Rightarrow> Some (Inl e)
             | Inr n \<Rightarrow> Option.bind (walk m' h' n) (\<lambda>r. Some (res_bind r (\<lambda>xs. Inr (q' # xs))))) = Some r'"
    show "m' = m \<longrightarrow> h' = h \<longrightarrow> q' \<noteq> p"
      using r assms IH [of m h p] by (auto simp: Option.bind_eq_Some_conv)
  qed
  then show ?thesis by (cases "cmsg_walk m h p") auto
qed

subsection \<open>Properties\<close>

text \<open>
  C38. A program that walks over control data finds exactly the objects that were put there: for data laid
  out with \<open>CMSG_LEN\<close> and \<open>CMSG_SPACE\<close>, of lengths below 4 GiB, the walk from \<open>CMSG_FIRSTHDR\<close> with
  \<open>CMSG_NXTHDR\<close> ends without a fault and visits the headers in order, each once; the data of each object
  lies between its header and the next one.
\<close>

theorem cmsg_walk_visits_all:
  assumes "laid_out m p ls" and "p \<noteq> NULL" and "\<forall>l \<in> set ls. unat l < 2 ^ 32"
    and "unat p + control_size ls + 16 < 2 ^ 64" and "msg_control h = p" and "unat (msg_controllen h) = control_size ls"
  shows "cmsg_walk m h (CMSG_FIRSTHDR h) = Some (Inr (cmsg_addrs p ls)) \<and>
    (\<forall>l \<in> set ls. unat (CMSG_DATA 0) + unat l \<le> unat (CMSG_SPACE l))"
proof
  show "\<forall>l \<in> set ls. unat (CMSG_DATA 0) + unat l \<le> unat (CMSG_SPACE l)"
  proof
    fix l assume "l \<in> set ls"
    with assms(3) have "unat l < 2 ^ 32" by blast
    then show "unat (CMSG_DATA 0) + unat l \<le> unat (CMSG_SPACE l)"
      by (simp add: cmsg_lengths CMSG_DATA_def sizeof_cmsghdr_def)
  qed
  show "cmsg_walk m h (CMSG_FIRSTHDR h) = Some (Inr (cmsg_addrs p ls))"
  proof (cases ls)
    case Nil
    with assms(6) have "msg_controllen h = 0" by (simp add: word_unat_eq_iff)
    then have "CMSG_FIRSTHDR h = NULL" by (simp add: CMSG_FIRSTHDR_def sizeof_cmsghdr_def)
    with Nil show ?thesis by (simp add: cmsg_walk.simps)
  next
    case (Cons l r)
    with assms(3) have "16 \<le> unat (CMSG_SPACE l)" by (simp add: space_ge)
    with Cons assms(5,6) have "CMSG_FIRSTHDR h = p"
      by (simp add: CMSG_FIRSTHDR_def sizeof_cmsghdr_def word_le_nat_alt)
    moreover have "unat (msg_control h + msg_controllen h) = unat p + control_size ls"
      using assms(4-6) by (subst unat_add_small) simp_all
    ultimately show ?thesis using walk_laid_out [of m p l r h] Cons assms by simp
  qed
qed

theorem cmsg_walk_visits_all_witness:
  "cmsg_walk [4096 \<mapsto> 20, 4120 \<mapsto> 24] demo_hdr (CMSG_FIRSTHDR demo_hdr) = Some (Inr [4096, 4120])"
proof -
  have s: "CMSG_SPACE 4 = 24" "CMSG_SPACE 8 = 24" using cmsg_lengths(2) [of 4] cmsg_lengths(2) [of 8] by (simp_all add: word_unat_eq_iff)
  have "laid_out [4096 \<mapsto> 20, 4120 \<mapsto> 24] 4096 [4, 8]" by (simp add: s CMSG_LEN_def)
  from cmsg_walk_visits_all [OF this, of demo_hdr] s show ?thesis by (simp add: demo_hdr_def)
qed

end
