(* ===== verification/Virtio_Ring.thy ===== *)
theory Virtio_Ring
  imports Aesd_Prelude
begin

section \<open>Virtio rings\<close>

text \<open>
  Models the functions of \<^verbatim>\<open>finder-app/arm64_libc/usr/include/linux/virtio_ring.h\<close>: the layout of a ring in
  one block of memory, its size, and whether the other side is to be notified. Pointers are addresses;
  the sums are in the types the source computes them in.
\<close>

unbundle bit_operations_syntax

record vring =
  vnum :: u32
  vdesc :: addr
  vavail :: addr
  vused :: addr

text \<open>The addresses of an element of the two index rings; the event indices stand behind the last ones.\<close>

definition avail_ring :: "vring \<Rightarrow> u64 \<Rightarrow> addr" where
  "avail_ring vr i = vavail vr + 4 + 2 * i"

definition used_ring :: "vring \<Rightarrow> u64 \<Rightarrow> addr" where
  "used_ring vr i = vused vr + 4 + 8 * i"

definition vring_used_event :: "vring \<Rightarrow> addr" where
  "vring_used_event vr = avail_ring vr (ucast (vnum vr))"

definition vring_avail_event :: "vring \<Rightarrow> addr" where
  "vring_avail_event vr = used_ring vr (ucast (vnum vr))"

definition vring_init :: "u32 \<Rightarrow> addr \<Rightarrow> u64 \<Rightarrow> vring" where
  "vring_init n p align =
     (let avail = p + ucast n * 16 in
      \<lparr>vnum = n, vdesc = p, vavail = avail,
       vused = (avail + 4 + 2 * ucast n + 2 + align - 1) AND NOT (align - 1)\<rparr>)"

definition vring_size :: "u32 \<Rightarrow> u64 \<Rightarrow> u32" where
  "vring_size n align =
     ucast (((16 * ucast n + 2 * ucast (3 + n) + align - 1) AND NOT (align - 1)) + 2 * 3 + 8 * ucast n :: u64)"

definition vring_need_event :: "u16 \<Rightarrow> u16 \<Rightarrow> u16 \<Rightarrow> bool" where
  "vring_need_event event_idx new_idx old \<longleftrightarrow> new_idx - event_idx - 1 < new_idx - old"

subsection \<open>Layout\<close>

text \<open>The least multiple of \<open>a\<close> from \<open>x\<close> on.\<close>

lemma align_up_shift:
  assumes "0 < a" and "p mod a = 0"
  shows "(p + y + (a - 1)) div a * a = p + (y + (a - 1)) div a * (a :: nat)"
proof -
  obtain q where q: "p = q * a" using assms(2) by (metis mod_0_imp_dvd dvd_mult_div_cancel mult.commute)
  then have "(p + y + (a - 1)) div a = ((y + (a - 1)) + q * a) div a" by (simp only: ac_simps)
  also have "\<dots> = q + (y + (a - 1)) div a" using assms(1) by (intro div_mult_self1) simp
  finally show ?thesis using q by (simp only: distrib_right)
qed

lemma align_up_ge: "0 < a \<Longrightarrow> y \<le> (y + (a - 1)) div a * (a :: nat)"
  using div_mult_mod_eq [of "y + (a - 1)" a] mod_less_divisor [of a "y + (a - 1)"] by linarith

lemma align_up_le: "(y + (a - 1)) div a * (a :: nat) \<le> y + (a - 1)"
  by (rule div_times_less_eq_dividend)

lemma align_word:
  fixes x :: u64
  assumes "k \<le> 20" and "unat x + 2 ^ 20 \<le> 2 ^ 64"
  shows "unat ((x + 2 ^ k - 1) AND NOT (2 ^ k - 1)) = (unat x + (2 ^ k - 1)) div 2 ^ k * 2 ^ k"
proof -
  have p: "(2 :: nat) ^ k \<le> 2 ^ 20" using assms(1) by (rule power_increasing) simp
  have "unat (2 ^ k :: u64) = 2 ^ k" using assms(1) unat_of_nat_64 [of "2 ^ k"] p by simp
  then have m: "unat (2 ^ k - 1 :: u64) = 2 ^ k - 1" by (simp add: unat_dec)
  have "unat (x + (2 ^ k - 1)) = unat x + (2 ^ k - 1)"
    using assms(2) p by (subst unat_add_small) (simp_all add: m)
  then have "unat (x + 2 ^ k - 1) = unat x + (2 ^ k - 1)" by (simp add: add_diff_eq)
  with unat_align_down [of k "x + 2 ^ k - 1"] assms(1) show ?thesis by simp
qed

lemma vring_offsets:
  fixes n :: u32
  assumes "unat n \<le> 2 ^ 15"
  shows "unat (16 * ucast n + 2 * ucast (3 + n) :: u64) = 18 * unat n + 6" and "unat (8 * ucast n :: u64) = 8 * unat n"
    and "unat (16 * ucast n :: u64) = 16 * unat n" and "unat (2 * ucast n :: u64) = 2 * unat n"
proof -
  have m: "unat (c * ucast n :: u64) = unat c * unat n" if "unat c \<le> 16" for c :: u64
  proof -
    have "unat c * unat n \<le> 16 * 2 ^ 15" using that assms by (rule mult_le_mono)
    then have "unat c * unat (ucast n :: u64) < 2 ^ LENGTH(64)" by simp
    then have "unat (c * ucast n :: u64) = unat c * unat (ucast n :: u64)" by (simp only: unat_mult_lem)
    then show ?thesis by simp
  qed
  show e: "unat (8 * ucast n :: u64) = 8 * unat n" "unat (16 * ucast n :: u64) = 16 * unat n"
    "unat (2 * ucast n :: u64) = 2 * unat n" using m [of 8] m [of 16] m [of 2] by simp_all
  have "unat (3 + n) = 3 + unat n" using assms by (subst unat_add_small) simp_all
  then have "(ucast (3 + n) :: u64) = 3 + ucast n"
    using assms by (simp add: word_unat_eq_iff unat_add_small)
  then have "(16 * ucast n + 2 * ucast (3 + n) :: u64) = (16 * ucast n + 2 * ucast n) + 6" by simp
  moreover have "unat (16 * ucast n + 2 * ucast n :: u64) = 18 * unat n"
    using assms e by (subst unat_add_small) simp_all
  ultimately show "unat (16 * ucast n + 2 * ucast (3 + n) :: u64) = 18 * unat n + 6"
    using assms by (simp only:) (subst unat_add_small, simp_all)
qed

lemma vring_size_value:
  assumes n: "unat n \<le> 2 ^ 15" and k: "k \<le> 20"
  shows "unat (vring_size n (2 ^ k)) = (18 * unat n + 6 + (2 ^ k - 1)) div 2 ^ k * 2 ^ k + 6 + 8 * unat n"
proof -
  let ?x = "16 * ucast n + 2 * ucast (3 + n) :: u64"
  let ?a = "(?x + 2 ^ k - 1) AND NOT (2 ^ k - 1)"
  have a: "unat ?a = (18 * unat n + 6 + (2 ^ k - 1)) div 2 ^ k * 2 ^ k"
    using align_word [OF k, of ?x] n unfolding vring_offsets(1) [OF n] by simp
  have p: "(2 :: nat) ^ k \<le> 2 ^ 20" using k by (rule power_increasing) simp
  have le: "unat ?a \<le> 18 * unat n + 6 + (2 ^ k - 1)" unfolding a by (rule align_up_le)
  have b: "unat (?a + 6) = unat ?a + 6" using le n p by (subst unat_add_small) simp_all
  then have c: "unat (?a + 6 + 8 * ucast n) = unat ?a + 6 + 8 * unat n"
    using le n p vring_offsets(2) [OF n] by (subst unat_add_small) simp_all
  have "unat (ucast (?a + 6 + 8 * ucast n) :: u32) = unat ?a + 6 + 8 * unat n"
    using c le n p by (subst unat_ucast_down) simp_all
  then show ?thesis using a by (simp add: vring_size_def)
qed

lemma vring_init_values:
  assumes n: "unat n \<le> 2 ^ 15" and k: "k \<le> 20" and p: "unat p + 2 ^ 22 \<le> 2 ^ 64"
  shows "unat (vavail (vring_init n p (2 ^ k))) = unat p + 16 * unat n"
    and "unat (vring_used_event (vring_init n p (2 ^ k))) = unat p + 18 * unat n + 4"
    and "unat (vused (vring_init n p (2 ^ k))) = (unat p + (18 * unat n + 6) + (2 ^ k - 1)) div 2 ^ k * 2 ^ k"
proof -
  let ?v = "p + ucast n * 16"
  have a: "unat ?v = unat p + 16 * unat n"
    using n p vring_offsets(3) [OF n] by (subst unat_add_small) (simp_all add: mult.commute)
  then show "unat (vavail (vring_init n p (2 ^ k))) = unat p + 16 * unat n" by (simp add: vring_init_def)
  have b: "unat (?v + 4) = unat p + 16 * unat n + 4" using a n p by (subst unat_add_small) simp_all
  have c: "unat (?v + 4 + 2 * ucast n) = unat p + 18 * unat n + 4"
    using b n p vring_offsets(4) [OF n] by (subst unat_add_small) simp_all
  then show "unat (vring_used_event (vring_init n p (2 ^ k))) = unat p + 18 * unat n + 4"
    by (simp add: vring_init_def vring_used_event_def avail_ring_def)
  have d: "unat (?v + 4 + 2 * ucast n + 2) = unat p + (18 * unat n + 6)" using c n p by (subst unat_add_small) simp_all
  have "vused (vring_init n p (2 ^ k)) = (?v + 4 + 2 * ucast n + 2 + 2 ^ k - 1) AND NOT (2 ^ k - 1)"
    by (simp add: vring_init_def)
  then show "unat (vused (vring_init n p (2 ^ k))) = (unat p + (18 * unat n + 6) + (2 ^ k - 1)) div 2 ^ k * 2 ^ k"
    using align_word [OF k, of "?v + 4 + 2 * ucast n + 2"] n p unfolding d by simp
qed

subsection \<open>Notification\<close>

text \<open>
  The other side is notified exactly when the step from the old to the new index passed the index it
  asked for: \<open>vring_need_event\<close> holds iff that index is one of those from the old one up to, and without,
  the new one, also where the 16-bit indices wrap around; no step, no notification.
\<close>

lemma vring_need_event_iff:
  "vring_need_event event_idx new_idx old \<longleftrightarrow> (\<exists>i < unat (new_idx - old). event_idx = old + of_nat i)"
proof -
  define d where "d = event_idx - old"
  define m where "m = new_idx - old"
  have e: "new_idx - event_idx - 1 = m - d - 1" by (simp add: d_def m_def)
  have "m - d - 1 < m \<longleftrightarrow> d < m"
  proof (cases "d < m")
    case True
    then have l: "unat d < unat m" by (simp add: word_less_nat_alt)
    then have "unat (m - d) = unat m - unat d" by (simp add: unat_sub_small)
    moreover from this l have "unat (m - d - 1) = unat m - unat d - 1" by (simp add: unat_dec)
    ultimately show ?thesis using True l by (simp add: word_less_nat_alt)
  next
    case False
    then have g: "unat m \<le> unat d" by (simp add: word_less_nat_alt)
    then have "unat (d - m) = unat d - unat m" by (simp add: unat_sub_small)
    moreover have "m - d - 1 = - 1 - (d - m)" by simp
    moreover have "unat (- 1 - (d - m)) = unat (- 1 :: u16) - unat (d - m)"
      by (rule unat_sub) (simp add: word_order.extremum)
    ultimately have "unat (m - d - 1) = unat (- 1 :: u16) - (unat d - unat m)" by (simp only:)
    moreover have "unat d \<le> unat (- 1 :: u16)" by (simp add: word_le_nat_alt [symmetric] word_order.extremum)
    ultimately have "unat m \<le> unat (m - d - 1)" using g by linarith
    with False show ?thesis by (simp add: word_less_nat_alt)
  qed
  moreover have "d < m \<longleftrightarrow> (\<exists>i < unat m. event_idx = old + of_nat i)"
  proof
    assume "d < m"
    then show "\<exists>i < unat m. event_idx = old + of_nat i"
      by (intro exI [of _ "unat d"]) (simp add: word_less_nat_alt d_def)
  next
    assume "\<exists>i < unat m. event_idx = old + of_nat i"
    then obtain i where i: "i < unat m" "d = of_nat i" by (auto simp: d_def)
    moreover have "unat m < 2 ^ 16" using unsigned_less [of m] by simp
    ultimately show "d < m" using unat_of_nat_small [of i, where 'a = 16] by (simp add: word_less_nat_alt)
  qed
  ultimately show ?thesis by (simp add: vring_need_event_def e m_def)
qed

subsection \<open>Properties\<close>

text \<open>
  C39. The layout of a ring fits its size exactly: for at most 32768 descriptors, an alignment up to 1 MiB
  and a block at an aligned address, the descriptors, the available ring with its event index, and the
  used ring with its event index follow each other without overlap, the used ring is aligned, and the
  last one ends where the block of \<open>vring_size\<close> bytes ends.
\<close>

theorem vring_layout_fits:
  assumes "unat n \<le> 2 ^ 15" and "k \<le> 20" and "unat p + 2 ^ 22 \<le> 2 ^ 64" and "unat p mod 2 ^ k = 0"
    and "vr = vring_init n p (2 ^ k)"
  shows "unat (vdesc vr) = unat p \<and> unat (vdesc vr) + 16 * unat n = unat (vavail vr) \<and>
    unat (vring_used_event vr) = unat (vavail vr) + 4 + 2 * unat n \<and>
    unat (vring_used_event vr) + 2 \<le> unat (vused vr) \<and> unat (vused vr) mod 2 ^ k = 0 \<and>
    unat (vring_avail_event vr) = unat (vused vr) + 4 + 8 * unat n \<and>
    unat (vring_avail_event vr) + 2 = unat p + unat (vring_size n (2 ^ k))"
proof -
  let ?u = "(18 * unat n + 6 + (2 ^ k - 1)) div 2 ^ k * 2 ^ k"
  note i = vring_init_values [OF assms(1-3), folded assms(5)]
  have u: "unat (vused vr) = unat p + ?u" unfolding i(3) using assms(4) by (intro align_up_shift) simp_all
  have g: "18 * unat n + 6 \<le> ?u" by (rule align_up_ge) simp
  have l: "?u \<le> 18 * unat n + 6 + (2 ^ k - 1)" by (rule align_up_le)
  have "unat (vused vr) + 4 + 8 * unat n \<le> unat p + (26 * unat n + 10 + 2 ^ k)" using u l by linarith
  moreover have "(2 :: nat) ^ k \<le> 2 ^ 20" using assms(2) by (rule power_increasing) simp
  ultimately have s: "unat (vused vr) + 4 + 8 * unat n < 2 ^ 64" using assms(1,3) by simp
  have "unat (vused vr + 4) = unat (vused vr) + 4" using s by (subst unat_add_small) simp_all
  then have "unat (vused vr + 4 + 8 * ucast n) = unat (vused vr) + 4 + 8 * unat n"
    using s vring_offsets(2) [OF assms(1)] by (subst unat_add_small) simp_all
  moreover have "vring_avail_event vr = vused vr + 4 + 8 * ucast n"
    by (simp add: vring_avail_event_def used_ring_def assms(5) vring_init_def Let_def)
  ultimately have e: "unat (vring_avail_event vr) = unat (vused vr) + 4 + 8 * unat n" by simp
  have "unat (vused vr) mod 2 ^ k = 0" unfolding i(3) by (rule mod_mult_self2_is_0)
  moreover have "vdesc vr = p" by (simp add: assms(5) vring_init_def Let_def)
  ultimately show ?thesis using i(1,2) u g e vring_size_value [OF assms(1,2)] by simp
qed

theorem vring_layout_fits_witness:
  "unat (vring_avail_event (vring_init 256 0x10000 4096)) + 2 = 0x10000 + unat (vring_size 256 4096)"
  using vring_layout_fits [where n = 256 and k = 12 and p = "0x10000", OF _ _ _ _ refl] by simp

end
