(* ===== verification/Spec2Isabelle.thy ===== *)
theory Spec2Isabelle
  imports Log_Devices Driver_Runs Server_Main Linked_List Threading System_Calls Small_Programs Cec_Codec Intrusive_Lists Finder
    Control_Scripts Image_Scripts Socket_Headers Ancillary_Data Virtio_Ring
begin

text \<open>
  This library verifies the programs of the AESD assignment repository: a Linux character driver
  that keeps the ten newest commands written to it, a socket server that logs lines to that device
  and answers with its contents, and the exercise programs beside them.

  \<^bold>\<open>Conventions.\<close> \<open>Aesd_Prelude\<close> has the C integer types as words, checked array access and the type
  \<open>'a result\<close>: \<open>Inl\<close> is undefined behaviour (\<open>fault\<close>), \<open>Inr\<close> the value. Loops are structural
  recursion, \<open>function\<close>s with a termination proof, or, where a list in memory could be cyclic,
  \<open>partial_function (option)\<close> with termination proved for well-formed lists. No fuel is used. Code
  outside the repository (kernel services, system calls, sockets, \<open>malloc\<close>) is a parameter; what is
  relied on is a named hypothesis such as \<open>kernel_ok\<close>, and \<open>demo_kernel\<close> satisfies it in the witnesses.

  \<^bold>\<open>Character driver\<close> (\<^verbatim>\<open>aesd-char-driver\<close>).
  \<^item> \<open>Bounded_Log\<close>: the contract of a log of bounded length, a locale, with its lemmas on sequences.
  \<^item> \<open>Circular_Buffer\<close>: \<^verbatim>\<open>aesd-circular-buffer.c/.h\<close> function by function at the source's integer
    widths. The ring refines a list of the newest ten entries (interpretation \<open>ring\<close>), and the
    position search agrees with its reference \<open>locate\<close>.
  \<^item> \<open>Kernel_Heap\<close>: blocks by address with faulting loads, stores and frees; the services \<open>kapi\<close>.
  \<^item> \<open>Char_Driver\<close>: \<^verbatim>\<open>main.c\<close>, every file operation and module start-up and shut-down, on the state
    \<open>drv\<close> (the global device, the static pending entry, the heap, the log).
  \<^item> \<open>Char_Driver_Inv\<close>: the invariant \<open>drv_inv\<close>, the abstract state (\<open>history\<close>, \<open>pending\<close>) and the
    lemmas that carry the following theories. \<open>Driver_Write\<close>, \<open>Driver_Read\<close>, \<open>Driver_Life\<close> and
    \<open>Driver_Drain\<close>: functional correctness, error paths, leaks and overruns made exact, memory safety
    of every sequence of calls (interpretation \<open>dm\<close> of \<open>Machine\<close>), where seeking departs from its
    documentation, and reading to the end. A call is one step: reads and writes hold the lock throughout;
    \<open>aesd_release\<close> takes no lock, and what it may do beside a running write is not covered.
  \<^item> \<open>Driver_Runs\<close>: that reading ends while the kernel has memory for it, and what the device holds after
    any run of writes, failed writes, reads, opens and releases.

  \<^bold>\<open>Socket server\<close> (\<^verbatim>\<open>server\<close>).
  \<^item> \<open>Server_Message\<close>: cutting a line out of a received buffer, and the mutex retry loops, of
    \<^verbatim>\<open>aesdsocket.cpp\<close>. \<open>Server_Class\<close>: \<^verbatim>\<open>server.h\<close>. \<open>Server_Main\<close>: the main loop, signals and joining.
  \<^item> \<open>Server_Threads\<close>: \<open>server_thread\<close> for any number of connections that interleave, with every failure
    of \<open>malloc\<close>, \<open>recv\<close>, \<open>fopen\<close>, the calls on the stream and the mutex calls. Misuse of the mutex that
    POSIX leaves undefined, and its use before the pointer to it was stored, are faults. Shown are mutual
    exclusion, absence of deadlock, replies as snapshots (interpretation \<open>nm\<close> of \<open>Machine\<close>), the retry
    loops as steps, a lost unlock (\<open>lost\<close>), and that no thread can end in defined behaviour.
  \<^item> \<open>Log_Devices\<close>: the contract \<open>line_log\<close> the server needs from its file, interpreted for the
    ordinary file and for the character device as the driver specifies it.
  \<^item> \<open>Linked_List\<close>: the class of \<^verbatim>\<open>queue.h\<close> over a heap of nodes.

  \<^bold>\<open>Examples.\<close> \<open>System_Calls\<close>: \<^verbatim>\<open>systemcalls.c\<close> and the status macros of \<^verbatim>\<open>bits/waitstatus.h\<close>.
  \<open>Threading\<close>: \<^verbatim>\<open>threading.c\<close> as interleaving steps with failing calls; mutual exclusion and completion
  while the mutex calls succeed, and that errors are not reported.
  \<open>Small_Programs\<close>: the timestamp thread, \<^verbatim>\<open>writer.c\<close> and the autotest stub. \<open>Machine\<close> is the
  locale for invariants of step relations that the driver, the threads and the server instantiate.
  \<open>Finder\<close>: \<^verbatim>\<open>finder.sh\<close> and \<^verbatim>\<open>finder-test.sh\<close> over a file system, with the writer as the program the
  test runs; the report of the finder and the success of the test.
  \<open>Control_Scripts\<close>: the scripts that load, unload and start the driver and the server, and \<^verbatim>\<open>full-test.sh\<close>,
  with the host as a state machine around the driver (interpretation \<open>hm\<close> of \<open>Machine\<close>), with and without
  failures of the removal of the device node.
  \<open>Image_Scripts\<close>: building and starting the image (\<^verbatim>\<open>manual-linux.sh\<close>, \<^verbatim>\<open>start-qemu-app.sh\<close>,
  \<^verbatim>\<open>start-qemu-terminal.sh\<close>), \<^verbatim>\<open>dependencies.sh\<close>, \<^verbatim>\<open>unit-test.sh\<close> and the unit test; what the image holds, and
  that its own test fails.

  \<^bold>\<open>CEC messages\<close> (\<^verbatim>\<open>finder-app/arm64_libc/usr/include/linux\<close>, kernel headers kept in the repository).
  \<^item> \<open>Cec_Message\<close>: the message structure and the functions of \<^verbatim>\<open>cec.h\<close>, the packing of fields into
    bytes, and the contracts \<open>cec_encoder\<close> and \<open>cec_codec\<close> between an encoder and its decoder. A store
    outside the payload is kept in a field of the model's own, which no encoder may set.
    \<open>Cec_Opcodes\<close>: the opcodes and operand values.
  \<^item> \<open>Cec_Routing\<close>, \<open>Cec_Timer\<close>, \<open>Cec_Device\<close>, \<open>Cec_Vendor\<close>, \<open>Cec_Control\<close>, \<open>Cec_Audio\<close>, \<open>Cec_Cdc\<close>: every
    \<open>cec_msg_X\<close> and \<open>cec_ops_X\<close> of \<^verbatim>\<open>cec-funcs.h\<close>, feature by feature in the order of the header. Each
    pair is an interpretation of \<open>cec_codec\<close>, or, where strings and arrays of the caller can be
    overrun, has a delivery lemma of its own; the pairs that are no inverses have exact lemmas.
  \<^item> \<open>Cec_Codec\<close>: the properties of the codec as a whole.

  \<^bold>\<open>List macros\<close> (\<^verbatim>\<open>finder-app/arm64_libc/usr/include/sys/queue.h\<close>).
  \<^item> \<open>Queue_Memory\<close>: words by address, the shapes of linked lists, inserting and removing at any place of
    a chain, and the contract \<open>intrusive_list\<close>: every operation ends without a fault, does to the list
    what \<open>qspec\<close> says and writes only its own words.
  \<^item> \<open>Queue_Single\<close> (\<open>SLIST\<close>, \<open>STAILQ\<close>, \<open>SIMPLEQ\<close>), \<open>Queue_Double\<close> (\<open>LIST\<close>, \<open>TAILQ\<close>) and \<open>Queue_Circle\<close>
    (\<open>CIRCLEQ\<close>): every macro and the interpretation of the contract for each kind of list
    (\<open>sl\<close>, \<open>sq\<close>, \<open>mq\<close>, \<open>dl\<close>, \<open>tq\<close>, \<open>cq\<close>). The walks are \<open>partial_function\<close>s shown to end on every list.
  \<^item> \<open>Intrusive_Lists\<close>: the properties of the macros as a whole.

  \<^bold>\<open>Other headers\<close> (\<^verbatim>\<open>finder-app/arm64_libc/usr/include\<close>).
  \<^item> \<open>Socket_Headers\<close>: descriptor sets (\<^verbatim>\<open>sys/select.h\<close>, \<^verbatim>\<open>bits/select.h\<close>) and processor sets (\<^verbatim>\<open>bits/cpu-set.h\<close>)
    as interpretations \<open>fds\<close> and \<open>cpus\<close> of one contract \<open>bit_set\<close>, and the time macros of \<^verbatim>\<open>sys/time.h\<close>.
  \<^item> \<open>Ancillary_Data\<close>: the control data macros of \<^verbatim>\<open>bits/socket.h\<close>; the walk is a \<open>partial_function\<close>, which
    ends on data laid out as documented and does not for lengths that wrap around.
  \<^item> \<open>Virtio_Ring\<close>: layout, size and notification of \<^verbatim>\<open>linux/virtio_ring.h\<close>.

  \<^bold>\<open>What is not modelled\<close>: printed output other than the kernel log, and sleeping, which have no effect on
  the state; makefiles and other build configuration, which is data for tools outside the repository; and
  the rest of the sysroot, which is declarations and constants, and macros and inline functions that no
  program of the repository uses.

  This theory adds the properties that span the driver and the server: the reply of the server is what
  reading the driver delivers, over every interleaving of connections and every run of the driver.
\<close>

section \<open>Properties that span components\<close>

text \<open>The first line on the character device is what it then contains.\<close>

lemma chardev_reply: "log_contents aesd_chardev (log_append aesd_chardev [97, LF] ([], [])) = [97, LF]"
  using spec_write_line [of "[97, LF]" "[]"]
  by (simp add: aesd_chardev_def complete_line_def push_bounded_room cap_def)

text \<open>
  C3. What a client of the whole system is told: let the connection threads run on the character device,
  let every line that was logged end with a line feed, and let a thread be about to send what it read
  back from the file, with the calls on its stream having moved everything. Then that reply is the
  concatenation of the newest ten lines, cut at the buffer size, as of the moment the client's own line
  was appended; and when it fits the buffer it ends with that line. This holds in every reachable
  state, for any interleaving and any received data. It says nothing of the line a thread sends back
  unlogged after it gave up the lock.
\<close>

theorem client_sees_newest_ten:
  assumes "reach (\<lambda>s. s = net_start ([], [])) (net_step aesd_chardev csg) s"
    and "t < length (conns s)" and "conns s ! t = At_send line x reply" and "whole line x"
    and "\<forall>y \<in> set (logged s). complete_line (snd y)"
  shows "(\<exists>k < length (logged s). logged s ! k = (t, line) \<and>
            reply = take SERVER_MSG_LEN (concat (newest 10 (map snd (take (Suc k) (logged s)))))) \<and>
         (length reply < SERVER_MSG_LEN \<longrightarrow> (\<exists>pre. reply = pre @ line))"
proof -
  from assms(1) have inv: "net_inv aesd_chardev ([], []) s" by (rule nm.reach_invar)
  from net_invD(2) [OF inv assms(2)] assms(3)
  have snap: "own_snapshot aesd_chardev ([], []) (logged s) t line x reply" by (simp add: conn_ok_def)
  from own_snapshot_whole [OF snap assms(4)] obtain k where k: "k < length (logged s)" "logged s ! k = (t, line)"
    "reply = take SERVER_MSG_LEN (log_contents aesd_chardev (replay aesd_chardev ([], []) (take (Suc k) (logged s))))"
    by blast
  have "\<forall>y \<in> set (take (Suc k) (logged s)). complete_line (snd y)"
    using assms(5) by (auto dest: in_set_takeD)
  from chardev_replay [OF this] k(3)
  have "reply = take SERVER_MSG_LEN (concat (newest 10 (map snd (take (Suc k) (logged s)))))"
    by (simp add: aesd_chardev_def cap_def)
  with k(1,2) chardev_log.snapshot_ends_with_line [OF snap assms(4) _ assms(5)] show ?thesis by auto
qed

theorem client_sees_newest_ten_witness:
  "\<exists>s. reach (\<lambda>s. s = net_start ([], [])) (net_step aesd_chardev True) s \<and>
     conns s = [At_send [97, LF] all_moved [97, LF]] \<and> (\<exists>pre. [97, LF] = pre @ [97, LF])"
proof -
  note r = one_reply_reachable(2) [OF chardev_reply, of True]
  let ?s = "solo (At_send [97, LF] all_moved [97, LF]) None (log_append aesd_chardev [97, LF] ([], [])) [(0, [97, LF])]"
  have c: "\<forall>x \<in> set (logged ?s). complete_line (snd x)" by (simp add: solo_def complete_line_def)
  have w: "whole [97, LF] all_moved" by (simp add: whole_def all_moved_def SERVER_MSG_LEN_def)
  from client_sees_newest_ten [OF r _ _ w c, of 0 "[97, LF]"]
  have "\<exists>pre. [97, LF] = pre @ [97, LF]" by (simp add: solo_def net_start_def SERVER_MSG_LEN_def)
  with r show ?thesis by (intro exI [of _ ?s]) (simp add: solo_def)
qed

text \<open>The history of the threads on the specified device is a run of abstract writes.\<close>

lemma chardev_replay_fold: "replay aesd_chardev d lg = fold spec_write (map snd lg) d"
  by (induction lg arbitrary: d) (auto simp: replay_def aesd_chardev_def split_beta)

lemma drains_after_run:
  assumes "drv_start st0" and "driver_logs st0 (map snd lg) st" and "drains st 0 out"
  shows "out = log_contents aesd_chardev (replay aesd_chardev ([], []) lg)"
proof -
  have s: "drv_inv st0" "history st0 = []" "pending st0 = []" using drv_start_inv [OF assms(1)] by simp_all
  from driver_logs_spec [OF assms(2) s(1)] have "drv_inv st" "(history st, pending st) = replay aesd_chardev ([], []) lg"
    by (simp_all add: s chardev_replay_fold)
  moreover have "out = concat (history st)" using drains_from [OF assms(3) \<open>drv_inv st\<close>] by simp
  ultimately show ?thesis by (metis aesd_chardev_def fst_conv logdev.select_convs(2))
qed

text \<open>
  C4. Server and driver together, end to end: take any reply that a connection thread read back from the
  file and is about to send, in any reachable state. There is a point of the history of appends, with
  what the thread wrote of its own line as its newest entry, such that the following holds for any run
  of the driver, from the moment it was loaded, in which exactly the entries up to there were written,
  with reads, opens, releases and failed writes in between. When reads from position 0 to the end, each
  with room for any stored command and none of them failing, deliver some bytes, then the reply is what
  the thread's \<open>fread\<close> stores of these bytes; when its calls moved everything, that is all of them, cut at
  the server's buffer size. The line a thread sends back unlogged after it gave up the lock is no such
  reply.
\<close>

theorem reply_read_from_driver:
  assumes "reach (\<lambda>s. s = net_start ([], [])) (net_step aesd_chardev csg) s"
    and "t < length (conns s)" and "conns s ! t = At_send line x reply" and "drv_start st0"
  shows "\<exists>k \<le> length (logged s).
    (take (x_put x) line \<noteq> [] \<longrightarrow> 0 < k \<and> logged s ! (k - 1) = (t, take (x_put x) line)) \<and>
    (\<forall>st out. driver_logs st0 (map snd (take k (logged s))) st \<and> drains st 0 out \<longrightarrow>
       reply = read_back (x_start x) (x_got x) out \<and> (whole line x \<longrightarrow> reply = take SERVER_MSG_LEN out))"
proof -
  from assms(1) have inv: "net_inv aesd_chardev ([], []) s" by (rule nm.reach_invar)
  from net_invD(2) [OF inv assms(2)] assms(3)
  have "own_snapshot aesd_chardev ([], []) (logged s) t line x reply" by (simp add: conn_ok_def)
  then obtain k where k: "k \<le> length (logged s)" "own_newest (take k (logged s)) t (take (x_put x) line)"
    "reply = read_back (x_start x) (x_got x) (log_contents aesd_chardev (replay aesd_chardev ([], []) (take k (logged s))))"
    by (auto simp: own_snapshot_def)
  have "reply = read_back (x_start x) (x_got x) out \<and> (whole line x \<longrightarrow> reply = take SERVER_MSG_LEN out)"
    if "driver_logs st0 (map snd (take k (logged s))) st" "drains st 0 out" for st out
    using drains_after_run [OF assms(4) that] k(3) by (simp add: read_back_def whole_def)
  moreover have "0 < k \<and> logged s ! (k - 1) = (t, take (x_put x) line)" if "take (x_put x) line \<noteq> []"
    using that k by (auto simp: own_newest_def last_conv_nth min_absorb2)
  ultimately show ?thesis using k(1) by blast
qed

theorem reply_read_from_driver_witness:
  "\<exists>s st. reach (\<lambda>s. s = net_start ([], [])) (net_step aesd_chardev True) s \<and>
     conns s = [At_send [97, LF] all_moved [97, LF]] \<and>
     driver_logs loaded (map snd (logged s)) st \<and> (\<forall>out. drains st 0 out \<longrightarrow> [97, LF] = take SERVER_MSG_LEN out)"
proof -
  let ?s = "solo (At_send [97, LF] all_moved [97, LF]) None (log_append aesd_chardev [97, LF] ([], [])) [(0, [97, LF])]"
  let ?um = "[1000 \<mapsto> 97, 1001 \<mapsto> LF] :: umem"
  note r = one_reply_reachable(2) [OF chardev_reply, of True]
  have t: "0 < length (conns ?s)" "conns ?s ! 0 = At_send [97, LF] all_moved [97, LF]"
    by (simp_all add: solo_def net_start_def)
  have lg: "logged ?s = [(0, [97, LF])]" by (simp add: solo_def)
  have c: "0 < unat (2 :: u64)" "unat (2 :: u64) \<le> MAX_RW_COUNT" by (simp_all add: MAX_RW_COUNT_def)
  have cp: "copy_from_user demo_kernel ?um 1000 2 = ([97, LF], 0)" by (simp add: demo_kernel_def)
  obtain tmp junk where km: "kmalloc demo_kernel (2 + esize (full_user_entry loaded)) (kheap loaded) = Some (tmp, junk)"
    by (simp add: demo_kernel_def KMALLOC_MAX_SIZE_def loaded_facts no_entry_def)
  have ne: "0 < unat (2 :: u64) \<or> pending loaded \<noteq> []" using c(1) by blast
  from write_success [OF loaded_inv(1) demo_kernel_ok demo_write_input(3) ne c(2) km cp, of 0] obtain st where
    w: "aesd_write demo_kernel False opened 1000 2 0 ?um loaded = Inr (2, 0 + 2, st)" by blast
  have "\<not> sint (2 :: s64) < 0" by simp
  from logs_write [OF logs_start demo_kernel_ok demo_write_input(3) c cp w this]
  have l: "driver_logs loaded (map snd (logged ?s)) st" by (simp add: lg)
  have m: "whole [97, LF] all_moved" "take (x_put all_moved) [97, LF] = [97, LF]"
    by (simp_all add: whole_def all_moved_def SERVER_MSG_LEN_def)
  from reply_read_from_driver [OF r t drv_start_loaded] obtain k where
    k: "k \<le> 1" "0 < k" "\<forall>st out. driver_logs loaded (map snd (take k (logged ?s))) st \<and> drains st 0 out \<longrightarrow>
       [97, LF] = take SERVER_MSG_LEN out" by (auto simp: m lg)
  then have "k = 1" by simp
  with k(3) l have "\<forall>out. drains st 0 out \<longrightarrow> [97, LF] = take SERVER_MSG_LEN out" by (simp add: lg)
  with r l show ?thesis by (intro exI [of _ ?s] exI [of _ st]) (simp add: solo_def)
qed

end
